(* ===== verification/Prelude.thy ===== *)
theory Prelude
  imports Complex_Main "HOL-Library.Word" "HOL-Library.Char_ord" "HOL-Library.List_Lexorder"
begin

text \<open>
  Types, faults and loops shared by the components.

  The faults are what the C++ code does when it leaves its defined behaviour: an exception of the
  standard library that nothing catches, an access outside a buffer, the use of a null pointer, the
  overflow of a signed counter, the read of a variable that was never written. Every operation that
  can meet one of them returns a value of the sum type \<open>'a result\<close>.

  The loops are the idioms of the code: searching a \<open>std::list\<close> from its front and erasing one
  element, and repeating that until nothing is left to erase. \<open>std::map\<close> is an association list
  sorted by its keys, because the code iterates over maps and the order is observable.
\<close>

type_synonym byte = "8 word"
type_synonym u16 = "16 word"
type_synonym u32 = "32 word"
type_synonym u64 = "64 word"
type_synonym time = real

datatype fault =
    OutOfRange      \<comment> \<open>\<open>std::out_of_range\<close> thrown by \<open>std::string::substr\<close> or \<open>at\<close>\<close>
  | OutOfBounds     \<comment> \<open>memory access outside a buffer\<close>
  | NullDeref       \<comment> \<open>use of a null pointer\<close>
  | IntOverflow     \<comment> \<open>overflow of a signed \<open>int\<close>\<close>
  | RegexError      \<comment> \<open>\<open>std::regex_error\<close> thrown for a malformed pattern\<close>
  | Uninitialised   \<comment> \<open>read of a variable that was never written\<close>
  | UseAfterFree    \<comment> \<open>use of an object after its \<open>delete\<close>\<close>

type_synonym 'a result = "fault + 'a"

definition int_max :: nat where
  "int_max = 2147483647"

named_theorems frame_simps \<open>fields that an operation leaves alone\<close>
named_theorems inv_intros \<open>operations that preserve an invariant\<close>

section \<open>Sequencing of operations that can fail\<close>

definition bind_r :: "'a result \<Rightarrow> ('a \<Rightarrow> 'b result) \<Rightarrow> 'b result" where
  "bind_r r f = (case r of Inl e \<Rightarrow> Inl e | Inr x \<Rightarrow> f x)"

lemma bind_r_simps [simp]:
  "bind_r (Inl e) f = Inl e"
  "bind_r (Inr x) f = f x"
  by (simp_all add: bind_r_def)

lemma bind_r_Inr_iff: "bind_r r f = Inr y \<longleftrightarrow> (\<exists>x. r = Inr x \<and> f x = Inr y)"
  by (cases r) auto

lemma bind_r_Inl_iff: "bind_r r f = Inl e \<longleftrightarrow> r = Inl e \<or> (\<exists>x. r = Inr x \<and> f x = Inl e)"
  by (cases r) auto

lemma bind_r_cong [fundef_cong]:
  assumes "r = r'" and "\<And>x. r' = Inr x \<Longrightarrow> f x = g x"
  shows "bind_r r f = bind_r r' g"
  using assms by (cases r') auto

text \<open>A \<open>for\<close> loop whose body can fail: it stops at the first fault.\<close>

fun fold_r :: "('a \<Rightarrow> 's \<Rightarrow> 's result) \<Rightarrow> 'a list \<Rightarrow> 's \<Rightarrow> 's result" where
  "fold_r f [] s = Inr s"
| "fold_r f (x # xs) s = bind_r (f x s) (fold_r f xs)"

lemma fold_r_append: "fold_r f (xs @ ys) s = bind_r (fold_r f xs s) (fold_r f ys)"
  by (induction xs arbitrary: s) (auto simp: bind_r_def split: sum.splits)

lemma fold_r_Inr: "(\<And>x s. x \<in> set xs \<Longrightarrow> f x s = Inr (g x s)) \<Longrightarrow> fold_r f xs s = Inr (fold g xs s)"
  by (induction xs arbitrary: s) auto

section \<open>Loops that keep an invariant\<close>

text \<open>
  The contract between an invariant and one step of a loop. A component proves the law for its step
  once, by an \<open>interpretation\<close>; what the loop keeps follows here.
\<close>

locale preserving =
  fixes guard :: "'a \<Rightarrow> bool"
    and inv :: "'s \<Rightarrow> bool"
    and step :: "'a \<Rightarrow> 's \<Rightarrow> 's"
  assumes step_inv: "guard x \<Longrightarrow> inv s \<Longrightarrow> inv (step x s)"
begin

lemma fold_inv: "inv s \<Longrightarrow> \<forall>x \<in> set xs. guard x \<Longrightarrow> inv (fold step xs s)"
  by (induction xs arbitrary: s) (auto intro: step_inv)

end

text \<open>The same for a step that can fault; \<open>total\<close> adds that it does not.\<close>

locale preserving_r =
  fixes guard :: "'a \<Rightarrow> bool"
    and inv :: "'s \<Rightarrow> bool"
    and step :: "'a \<Rightarrow> 's \<Rightarrow> 's result"
  assumes step_inv: "guard x \<Longrightarrow> inv s \<Longrightarrow> step x s = Inr s' \<Longrightarrow> inv s'"
begin

lemma fold_r_inv:
  "inv s \<Longrightarrow> \<forall>x \<in> set xs. guard x \<Longrightarrow> fold_r step xs s = Inr s' \<Longrightarrow> inv s'"
  by (induction xs arbitrary: s) (auto simp: bind_r_Inr_iff intro: step_inv)

end

locale preserving_total = preserving_r +
  assumes step_total: "guard x \<Longrightarrow> inv s \<Longrightarrow> \<exists>s'. step x s = Inr s'"
begin

lemma fold_r_total:
  "inv s \<Longrightarrow> \<forall>x \<in> set xs. guard x \<Longrightarrow> \<exists>s'. fold_r step xs s = Inr s' \<and> inv s'"
proof (induction xs arbitrary: s)
  case (Cons x xs)
  then obtain s1 where "step x s = Inr s1" using step_total by force
  with Cons show ?case using step_inv by force
qed simp

end

section \<open>Words of the widths the code uses\<close>

lemma unat_byte_less [simp]: "unat (b :: byte) < 256"
  using unsigned_less [where w = b and 'a = nat] by simp

lemma unat_u32_less [simp]: "unat (w :: u32) < 4294967296"
  using unsigned_less [where w = w and 'a = nat] by simp

lemma unat_byte_of_nat [simp]: "unat (of_nat n :: byte) = n mod 256"
  and unat_u32_of_nat: "unat (of_nat n :: u32) = n mod 4294967296"
  by (simp_all add: unat_of_nat)

lemma unat_u32_id: "n < 4294967296 \<Longrightarrow> unat (of_nat n :: u32) = n"
  by (simp add: unat_u32_of_nat)

section \<open>Searching and erasing in a std::list\<close>

text \<open>
  \<open>erase_first P xs\<close> is the loop that walks an iterator to the first element that satisfies \<open>P\<close>,
  erases it and breaks: the erased element and the list that is left, or \<open>None\<close> when the iterator
  reaches the end.
\<close>

fun erase_first :: "('a \<Rightarrow> bool) \<Rightarrow> 'a list \<Rightarrow> ('a \<times> 'a list) option" where
  "erase_first P [] = None"
| "erase_first P (x # xs) =
     (if P x then Some (x, xs)
      else map_option (\<lambda>(y, ys). (y, x # ys)) (erase_first P xs))"

lemma erase_first_None_iff: "erase_first P xs = None \<longleftrightarrow> (\<forall>x \<in> set xs. \<not> P x)"
  by (induction xs) auto

lemma erase_first_SomeD:
  "erase_first P xs = Some (y, ys) \<Longrightarrow>
     \<exists>us vs. xs = us @ y # vs \<and> ys = us @ vs \<and> P y \<and> (\<forall>u \<in> set us. \<not> P u)"
proof (induction xs arbitrary: y ys)
  case Nil
  then show ?case by simp
next
  case (Cons x xs)
  show ?case
  proof (cases "P x")
    case True
    with Cons.prems show ?thesis by (intro exI [of _ "[]"] exI [of _ xs]) auto
  next
    case False
    with Cons.prems obtain zs where zs: "erase_first P xs = Some (y, zs)" "ys = x # zs" by auto
    from Cons.IH [OF zs(1)] obtain us vs
      where "xs = us @ y # vs" "zs = us @ vs" "P y" "\<forall>u \<in> set us. \<not> P u" by blast
    with False zs(2) show ?thesis by (intro exI [of _ "x # us"] exI [of _ vs]) auto
  qed
qed

lemma erase_first_length: "erase_first P xs = Some (y, ys) \<Longrightarrow> length ys < length xs"
  by (auto dest: erase_first_SomeD)

lemma erase_first_filter:
  "erase_first P xs = Some (y, ys) \<Longrightarrow> filter P xs = y # filter P ys \<and>
     filter (\<lambda>x. \<not> P x) xs = filter (\<lambda>x. \<not> P x) ys"
  by (auto dest!: erase_first_SomeD)

text \<open>
  \<open>erase_loop P act xs s\<close> is the \<open>while(bChanged)\<close> idiom: as long as an element satisfies \<open>P\<close>, the
  first one is erased, \<open>act\<close> is done for it and the search starts again from the front.
\<close>

function erase_loop :: "('a \<Rightarrow> bool) \<Rightarrow> ('a \<Rightarrow> 's \<Rightarrow> 's) \<Rightarrow> 'a list \<Rightarrow> 's \<Rightarrow> 'a list \<times> 's" where
  "erase_loop P act xs s =
     (case erase_first P xs of
        None \<Rightarrow> (xs, s)
      | Some (y, ys) \<Rightarrow> erase_loop P act ys (act y s))"
  by pat_completeness auto
termination
  by (relation "measure (\<lambda>(P, act, xs, s). length xs)") (auto dest: erase_first_length)

declare erase_loop.simps [simp del]

text \<open>The restarting loop does what one pass does: it keeps the others and acts in list order.\<close>

lemma erase_loop_eq: "erase_loop P act xs s = (filter (\<lambda>x. \<not> P x) xs, fold act (filter P xs) s)"
proof (induction P act xs s rule: erase_loop.induct)
  case (1 P act xs s)
  show ?case
  proof (cases "erase_first P xs")
    case None
    then have none: "\<forall>x \<in> set xs. \<not> P x" by (simp add: erase_first_None_iff)
    then have "filter P xs = []" "filter (\<lambda>x. \<not> P x) xs = xs" by (simp_all add: filter_empty_conv)
    with None show ?thesis by (simp add: erase_loop.simps [of P act xs s])
  next
    case (Some p)
    then obtain y ys where p: "erase_first P xs = Some (y, ys)" by (cases p) auto
    with "1.IH" show ?thesis
      by (simp add: erase_loop.simps [of P act xs s] erase_first_filter [OF p])
  qed
qed

section \<open>std::map as a sorted association list\<close>

fun smap_get :: "'k \<Rightarrow> ('k \<times> 'v) list \<Rightarrow> 'v option" where
  "smap_get k [] = None"
| "smap_get k ((k', v) # m) = (if k = k' then Some v else smap_get k m)"

fun smap_set :: "'k::linorder \<Rightarrow> 'v \<Rightarrow> ('k \<times> 'v) list \<Rightarrow> ('k \<times> 'v) list" where
  "smap_set k v [] = [(k, v)]"
| "smap_set k v ((k', v') # m) =
     (if k < k' then (k, v) # (k', v') # m
      else if k = k' then (k, v) # m
      else (k', v') # smap_set k v m)"

definition smap_ok :: "('k::linorder \<times> 'v) list \<Rightarrow> bool" where
  "smap_ok m \<longleftrightarrow> sorted_wrt (<) (map fst m)"

text \<open>\<open>operator[]\<close>: the value of the key; a missing key is inserted with the default value.\<close>

definition smap_at :: "'v \<Rightarrow> 'k::linorder \<Rightarrow> ('k \<times> 'v) list \<Rightarrow> 'v \<times> ('k \<times> 'v) list" where
  "smap_at d k m = (case smap_get k m of Some v \<Rightarrow> (v, m) | None \<Rightarrow> (d, smap_set k d m))"

lemma smap_get_set [simp]: "smap_get k (smap_set k' v m) = (if k = k' then Some v else smap_get k m)"
  by (induction k' v m rule: smap_set.induct) auto

lemma fst_set_smap_set: "fst ` set (smap_set k v m) = insert k (fst ` set m)"
  by (induction k v m rule: smap_set.induct) auto

lemma smap_ok_Nil [simp]: "smap_ok []"
  by (simp add: smap_ok_def)

lemma smap_ok_set [simp]: "smap_ok m \<Longrightarrow> smap_ok (smap_set k v m)"
proof (induction k v m rule: smap_set.induct)
  case (2 k v k' v' m)
  then show ?case
    using fst_set_smap_set [of k v m] by (auto simp: smap_ok_def)
qed (simp add: smap_ok_def)

lemma smap_get_Some_in: "smap_get k m = Some v \<Longrightarrow> (k, v) \<in> set m"
  by (induction k m rule: smap_get.induct) (auto split: if_splits)

lemma smap_get_in_fst: "k \<in> fst ` set m \<longleftrightarrow> smap_get k m \<noteq> None"
  by (induction m) auto

lemma fst_smap_at: "fst (smap_at d k m) = (case smap_get k m of Some v \<Rightarrow> v | None \<Rightarrow> d)"
  by (simp add: smap_at_def split: option.splits)

lemma smap_ok_at [simp]: "smap_ok m \<Longrightarrow> smap_ok (snd (smap_at d k m))"
  by (simp add: smap_at_def split: option.splits)

lemma smap_get_at:
  "smap_get k (snd (smap_at d k' m)) =
     (if k = k' then Some (fst (smap_at d k' m)) else smap_get k m)"
  by (simp add: smap_at_def split: option.splits)

text \<open>
  The contract of a map as the components rely on it. The vendor table, the configuration and the
  MAC evidence are clients of it.
\<close>

locale ordered_map =
  fixes get :: "'k::linorder \<Rightarrow> 'm \<Rightarrow> 'v option"
    and upd :: "'k \<Rightarrow> 'v \<Rightarrow> 'm \<Rightarrow> 'm"
    and ok :: "'m \<Rightarrow> bool"
  assumes get_upd: "get k (upd k' v m) = (if k = k' then Some v else get k m)"
    and ok_upd: "ok m \<Longrightarrow> ok (upd k v m)"
begin

lemma get_fold_upd:
  "get k (fold (\<lambda>(k, v). upd k v) kvs m) =
     (case map_of (rev kvs) k of Some v \<Rightarrow> Some v | None \<Rightarrow> get k m)"
  by (induction kvs arbitrary: m) (auto simp: get_upd map_add_def split: option.splits)

lemma ok_fold_upd: "ok m \<Longrightarrow> ok (fold (\<lambda>(k, v). upd k v) kvs m)"
  by (induction kvs arbitrary: m) (auto intro: ok_upd)

end

interpretation smap: ordered_map smap_get smap_set smap_ok
  by unfold_locales simp_all

section \<open>std::string\<close>

text \<open>
  \<open>substr(pos, len)\<close> throws when \<open>pos\<close> is behind the end; a search that finds nothing returns \<open>npos\<close>,
  here \<open>None\<close>.
\<close>

definition substr :: "string \<Rightarrow> nat \<Rightarrow> nat \<Rightarrow> string result" where
  "substr s pos len = (if pos > length s then Inl OutOfRange else Inr (take len (drop pos s)))"

definition substr_from :: "string \<Rightarrow> nat \<Rightarrow> string result" where
  "substr_from s pos = (if pos > length s then Inl OutOfRange else Inr (drop pos s))"

fun find_first :: "(char \<Rightarrow> bool) \<Rightarrow> string \<Rightarrow> nat option" where
  "find_first P [] = None"
| "find_first P (c # cs) = (if P c then Some 0 else map_option Suc (find_first P cs))"

definition find_last :: "(char \<Rightarrow> bool) \<Rightarrow> string \<Rightarrow> nat option" where
  "find_last P s = map_option (\<lambda>i. length s - 1 - i) (find_first P (rev s))"

text \<open>
  \<open>s.erase(s.find_last_not_of(ws) + 1)\<close>: \<open>npos + 1\<close> is 0, so a string of blanks only is erased
  from its start.
\<close>

definition erase_trailing :: "string \<Rightarrow> string \<Rightarrow> string" where
  "erase_trailing ws s =
     (case find_last (\<lambda>c. c \<notin> set ws) s of None \<Rightarrow> [] | Some i \<Rightarrow> take (i + 1) s)"

lemma find_first_dropWhile:
  "find_first P s = (if \<exists>c \<in> set s. P c then Some (length (takeWhile (\<lambda>c. \<not> P c) s)) else None)"
  by (induction s) auto

lemma find_first_Some_less: "find_first P s = Some i \<Longrightarrow> i < length s"
proof (induction s arbitrary: i)
  case (Cons c s)
  then show ?case by (auto split: if_splits)
qed simp

lemma erase_trailing_eq: "erase_trailing ws s = rev (dropWhile (\<lambda>c. c \<in> set ws) (rev s))"
proof (cases "find_first (\<lambda>c. c \<notin> set ws) (rev s)")
  case None
  then have "\<forall>c \<in> set s. c \<in> set ws" by (auto simp: find_first_dropWhile split: if_splits)
  with None show ?thesis by (simp add: erase_trailing_def find_last_def)
next
  case (Some i)
  then have i: "i = length (takeWhile (\<lambda>c. c \<in> set ws) (rev s))"
    by (auto simp: find_first_dropWhile split: if_splits)
  have il: "i < length s" using find_first_Some_less [OF Some] by simp
  have "dropWhile (\<lambda>c. c \<in> set ws) (rev s) = drop i (rev s)"
    by (simp add: i dropWhile_eq_drop)
  with Some il show ?thesis
    by (simp add: erase_trailing_def find_last_def rev_drop Suc_diff_Suc)
qed

text \<open>A string handed over as \<open>char*\<close> ends at its first zero byte.\<close>

definition c_str :: "string \<Rightarrow> string" where
  "c_str s = takeWhile (\<lambda>c. c \<noteq> CHR 0x00) s"

lemma c_str_id: "CHR 0x00 \<notin> set s \<Longrightarrow> c_str s = s"
  by (auto simp: c_str_def intro: takeWhile_eq_all_conv [THEN iffD2])

lemma c_str_idem [simp]: "c_str (c_str s) = c_str s" and c_str_plain [simp]: "CHR 0x00 \<notin> set (c_str s)"
  by (auto simp: c_str_def dest: set_takeWhileD intro: takeWhile_eq_all_conv [THEN iffD2])

text \<open>
  \<open>std::getline\<close> until the stream ends: the lines without their ends; a last line without a line end
  counts if it is not empty.
\<close>

fun get_lines :: "string \<Rightarrow> string list" where
  "get_lines [] = []"
| "get_lines (c # cs) =
     (if c = CHR 0x0A then [] # get_lines cs
      else (case get_lines cs of [] \<Rightarrow> [[c]] | l # ls \<Rightarrow> (c # l) # ls))"

lemma get_lines_line: "CHR 0x0A \<notin> set l \<Longrightarrow> get_lines (l @ CHR 0x0A # s) = l # get_lines s"
  by (induction l) auto

lemma get_lines_concat:
  "\<forall>l \<in> set ls. CHR 0x0A \<notin> set l \<Longrightarrow> get_lines (concat (map (\<lambda>l. l @ [CHR 0x0A]) ls)) = ls"
  by (induction ls) (auto simp: get_lines_line)

lemma get_lines_no_newline: "l \<in> set (get_lines s) \<Longrightarrow> CHR 0x0A \<notin> set l"
  by (induction s arbitrary: l) (auto split: if_splits list.splits)

end
