(* ===== verification/Values.thy ===== *)
theory Values
  imports Prelude
begin

text \<open>
  \<open>utils/src/Value.cpp\<close>: the tree of keys and contents that client and daemon exchange, and its
  binary form. A \<open>Value\<close> owns its sub values through shared pointers; the code never mutates a sub
  value once it hangs in a tree other than the one it is building, so a tree is a value here.

  The binary form is: the length of the key (\<open>unsigned int\<close> in host order, little endian on the
  platforms the daemon runs on) and its bytes, the same for the content, the number of sub values
  and the sub values one after the other. \<open>serialize\<close> keeps the 32 bit arithmetic of its bounds
  checks; \<open>deserialize\<close> has no bounds check at all, so a read behind the end of the buffer is the
  fault \<open>OutOfBounds\<close>.
\<close>

section \<open>The tree\<close>

datatype val = Value (key: string) (content: string) (subValues: "val list")

definition add_sub :: "val \<Rightarrow> val \<Rightarrow> val" where
  "add_sub valAdd v = Value (key v) (content v) (subValues v @ [valAdd])"

definition add_kv :: "string \<Rightarrow> string \<Rightarrow> val \<Rightarrow> val" where
  "add_kv strKey strContent v = add_sub (Value strKey strContent []) v"

definition make_value :: "string \<Rightarrow> string \<Rightarrow> (string \<times> string) list \<Rightarrow> val" where
  "make_value strKey strContent lstSubValues =
     fold (\<lambda>(k, c). add_sub (Value k c [])) lstSubValues (Value strKey strContent [])"

definition setKey :: "string \<Rightarrow> val \<Rightarrow> val" where
  "setKey strKey v = Value strKey (content v) (subValues v)"

definition setContent :: "string \<Rightarrow> val \<Rightarrow> val" where
  "setContent strContent v = Value (key v) strContent (subValues v)"

definition set_value :: "string \<Rightarrow> string \<Rightarrow> val \<Rightarrow> val" where
  "set_value strKey strContent v = setContent strContent (setKey strKey v)"

definition sub_value :: "string \<Rightarrow> val \<Rightarrow> val option" where
  "sub_value strSubKey v = find (\<lambda>s. key s = strSubKey) (subValues v)"

fun copy_value :: "val \<Rightarrow> val" where
  "copy_value (Value k c vs) = fold add_sub (map copy_value vs) (Value k c [])"

text \<open>The lines that \<open>print\<close> writes to \<open>std::cout\<close>, each with its line end.\<close>

fun print_value :: "nat \<Rightarrow> val \<Rightarrow> string" where
  "print_value unIndent (Value k c vs) =
     concat (replicate unIndent ''  '') @ '' - '' @ k @ '' = '' @ c @ [CHR 0x0A] @
     concat (map (print_value (unIndent + 1)) vs)"

lemma key_content_simps [simp]:
  "key (add_sub w v) = key v" "content (add_sub w v) = content v"
  "subValues (add_sub w v) = subValues v @ [w]"
  "key (add_kv k c v) = key v" "content (add_kv k c v) = content v"
  "subValues (add_kv k c v) = subValues v @ [Value k c []]"
  "key (set_value k c v) = k" "content (set_value k c v) = c"
  "subValues (set_value k c v) = subValues v"
  by (simp_all add: add_sub_def add_kv_def set_value_def setKey_def setContent_def)

lemma fold_add_sub: "fold add_sub ws (Value k c vs) = Value k c (vs @ ws)"
  by (induction ws arbitrary: vs) (auto simp: add_sub_def)

lemma make_value_eq: "make_value k c kvs = Value k c (map (\<lambda>(k, c). Value k c []) kvs)"
proof -
  have "fold (\<lambda>(k, c). add_sub (Value k c [])) kvs v =
          fold add_sub (map (\<lambda>(k, c). Value k c []) kvs) v" for v
    by (induction kvs arbitrary: v) auto
  then show ?thesis by (simp add: make_value_def fold_add_sub)
qed

section \<open>Bytes of an unsigned int and of a string\<close>

definition byte_of_char :: "char \<Rightarrow> byte" where
  "byte_of_char c = of_nat (of_char c)"

definition char_of_byte :: "byte \<Rightarrow> char" where
  "char_of_byte b = char_of (unat b)"

definition bytes_of :: "string \<Rightarrow> byte list" where
  "bytes_of s = map byte_of_char s"

definition chars_of :: "byte list \<Rightarrow> string" where
  "chars_of bs = map char_of_byte bs"

definition u32_bytes :: "u32 \<Rightarrow> byte list" where
  "u32_bytes w =
     [of_nat (unat w), of_nat (unat w div 256), of_nat (unat w div 65536),
      of_nat (unat w div 16777216)]"

definition u32_of :: "byte \<Rightarrow> byte \<Rightarrow> byte \<Rightarrow> byte \<Rightarrow> u32" where
  "u32_of b0 b1 b2 b3 =
     of_nat (unat b0 + 256 * unat b1 + 65536 * unat b2 + 16777216 * unat b3)"

lemma char_of_byte_of_char [simp]: "char_of_byte (byte_of_char c) = c"
proof -
  have "of_char c < (256::nat)" by (rule nat_of_char_less_256)
  then have "unat (of_nat (of_char c) :: byte) = of_char c" by simp
  then show ?thesis by (simp add: char_of_byte_def byte_of_char_def)
qed

lemma byte_of_char_of_byte [simp]: "byte_of_char (char_of_byte b) = b"
  by (simp add: char_of_byte_def byte_of_char_def)

lemma chars_of_bytes_of [simp]: "chars_of (bytes_of s) = s"
  by (simp add: chars_of_def bytes_of_def comp_def)

lemma bytes_of_chars_of [simp]: "bytes_of (chars_of bs) = bs"
  by (simp add: chars_of_def bytes_of_def comp_def)

lemma length_bytes_of [simp]: "length (bytes_of s) = length s"
  and length_chars_of [simp]: "length (chars_of bs) = length bs"
  and length_u32_bytes [simp]: "length (u32_bytes w) = 4"
  by (simp_all add: bytes_of_def chars_of_def u32_bytes_def)

lemma digit256:
  fixes a x :: nat
  assumes "a < 256"
  shows "(a + 256 * x) mod 256 = a" "(a + 256 * x) div 256 = x"
  using assms by simp_all

lemma div_steps: "n div 65536 = n div 256 div 256" "n div 16777216 = n div 256 div 256 div 256"
  for n :: nat
  by (simp_all flip: div_mult2_eq)

lemma base256_split:
  "n mod 256 + 256 * (n div 256 mod 256) + 65536 * (n div 65536 mod 256) +
     16777216 * (n div 16777216) = n" for n :: nat
proof -
  define m k where "m = n div 256" and "k = m div 256"
  have "n = n mod 256 + 256 * m" "m = m mod 256 + 256 * k" "k = k mod 256 + 256 * (k div 256)"
    by (simp_all add: m_def k_def)
  then show ?thesis unfolding div_steps m_def [symmetric] k_def [symmetric] by linarith
qed

lemma base256_join:
  fixes a b c d :: nat
  assumes lt: "a < 256" "b < 256" "c < 256" "d < 256"
  defines "n \<equiv> a + 256 * b + 65536 * c + 16777216 * d"
  shows "n < 4294967296" "n mod 256 = a" "n div 256 mod 256 = b" "n div 65536 mod 256 = c"
    "n div 16777216 mod 256 = d"
proof -
  have e: "n = a + 256 * (b + 256 * (c + 256 * d))" by (simp add: n_def)
  have d: "n div 256 = b + 256 * (c + 256 * d)" unfolding e by (rule digit256(2) [OF lt(1)])
  show "n < 4294967296" unfolding n_def using lt by linarith
  show "n mod 256 = a" unfolding e by (rule digit256(1) [OF lt(1)])
  show "n div 256 mod 256 = b" unfolding d by (rule digit256(1) [OF lt(2)])
  show "n div 65536 mod 256 = c"
    unfolding div_steps d digit256(2) [OF lt(2)] by (rule digit256(1) [OF lt(3)])
  show "n div 16777216 mod 256 = d"
    unfolding div_steps d digit256(2) [OF lt(2)] digit256(2) [OF lt(3)] using lt(4) by simp
qed

lemma u32_of_bytes: "u32_bytes w = [b0, b1, b2, b3] \<Longrightarrow> u32_of b0 b1 b2 b3 = w"
proof -
  assume b: "u32_bytes w = [b0, b1, b2, b3]"
  have "unat w div 16777216 < 256" by (simp add: div_less_iff_less_mult)
  then have "unat (of_nat (unat w div 16777216) :: byte) = unat w div 16777216" by simp
  with b have "unat b0 + 256 * unat b1 + 65536 * unat b2 + 16777216 * unat b3 = unat w"
    using base256_split [of "unat w"] by (auto simp: u32_bytes_def simp del: of_nat_unat)
  then show ?thesis by (simp add: u32_of_def)
qed

lemma bytes_of_u32: "u32_bytes (u32_of b0 b1 b2 b3) = [b0, b1, b2, b3]"
proof -
  define n where "n = unat b0 + 256 * unat b1 + 65536 * unat b2 + 16777216 * unat b3"
  note j = base256_join [of "unat b0" "unat b1" "unat b2" "unat b3", folded n_def, simplified]
  have "unat (u32_of b0 b1 b2 b3) = n"
    unfolding u32_of_def n_def [symmetric] using j(1) by (rule unat_u32_id)
  then show ?thesis
    unfolding u32_bytes_def by (simp add: word_unat_eq_iff j del: of_nat_unat)
qed

section \<open>Reading from a buffer\<close>

text \<open>
  The pointer into the buffer is the list of the bytes from there on; reading hands back the rest.
\<close>

fun read_u32 :: "byte list \<Rightarrow> (u32 \<times> byte list) result" where
  "read_u32 (b0 # b1 # b2 # b3 # bs) = Inr (u32_of b0 b1 b2 b3, bs)"
| "read_u32 _ = Inl OutOfBounds"

definition read_bytes :: "nat \<Rightarrow> byte list \<Rightarrow> (byte list \<times> byte list) result" where
  "read_bytes n bs = (if n \<le> length bs then Inr (take n bs, drop n bs) else Inl OutOfBounds)"

definition read_string :: "byte list \<Rightarrow> (string \<times> byte list) result" where
  "read_string bs =
     bind_r (read_u32 bs) (\<lambda>(unStringLength, bs).
     bind_r (read_bytes (unat unStringLength) bs) (\<lambda>(cs, bs).
     Inr (chars_of cs, bs)))"

text \<open>
  The contract of an encoding and its reader: the reader finds its value again at the front of any
  buffer and leaves the rest, and whatever it reads is an encoding. What follows for a sequence of
  encodings is proved once, here.
\<close>

locale codec =
  fixes enc :: "'a \<Rightarrow> byte list"
    and dec :: "byte list \<Rightarrow> ('a \<times> byte list) result"
    and ok :: "'a \<Rightarrow> bool"
  assumes dec_enc: "ok x \<Longrightarrow> dec (enc x @ bs) = Inr (x, bs)"
    and enc_dec: "dec bs = Inr (x, rest) \<Longrightarrow> bs = enc x @ rest \<and> ok x"
begin

lemma enc_prefix_free:
  assumes "ok x" "ok y" "enc x @ bs = enc y @ cs"
  shows "x = y \<and> bs = cs"
  using dec_enc [OF assms(1), of bs] dec_enc [OF assms(2), of cs] unfolding assms(3) by simp

lemma dec_strict_prefix:
  assumes ok: "ok x" and p: "p @ q = enc x" and q: "q \<noteq> []"
  shows "\<exists>e. dec p = Inl e"
proof (cases "dec p")
  case (Inr yr)
  obtain y r where yr: "yr = (y, r)" by (cases yr)
  from enc_dec [of p y r] Inr yr have "p = enc y @ r" "ok y" by auto
  with p have "enc y @ (r @ q) = enc x @ []" by simp
  with \<open>ok y\<close> ok have "r @ q = []" using enc_prefix_free by blast
  with q show ?thesis by simp
qed blast

end

interpretation u32: codec u32_bytes read_u32 "\<lambda>_. True"
proof
  fix x :: u32 and bs
  show "read_u32 (u32_bytes x @ bs) = Inr (x, bs)"
    using u32_of_bytes [OF u32_bytes_def] by (simp add: u32_bytes_def del: of_nat_unat)
next
  fix bs rest :: "byte list" and x :: u32
  assume "read_u32 bs = Inr (x, rest)"
  then show "bs = u32_bytes x @ rest \<and> True"
    by (cases bs rule: read_u32.cases) (auto simp: bytes_of_u32)
qed

definition enc_string :: "string \<Rightarrow> byte list" where
  "enc_string s = u32_bytes (of_nat (length s)) @ bytes_of s"

definition string_ok :: "string \<Rightarrow> bool" where
  "string_ok s \<longleftrightarrow> length s < 4294967296"

lemma length_enc_string [simp]: "length (enc_string s) = 4 + length s"
  by (simp add: enc_string_def)

interpretation cstr: codec enc_string read_string string_ok
proof
  fix x :: string and bs
  assume "string_ok x"
  then show "read_string (enc_string x @ bs) = Inr (x, bs)"
    by (simp add: read_string_def enc_string_def u32.dec_enc read_bytes_def unat_u32_id string_ok_def)
next
  fix bs rest :: "byte list" and x :: string
  assume "read_string bs = Inr (x, rest)"
  then obtain w r1 cs where 1: "read_u32 bs = Inr (w, r1)"
      and 2: "read_bytes (unat w) r1 = Inr (cs, rest)" and x: "x = chars_of cs"
    by (auto simp: read_string_def bind_r_Inr_iff)
  from 2 have r1: "r1 = cs @ rest" and len: "length cs = unat w"
    by (auto simp: read_bytes_def split: if_splits)
  with u32.enc_dec [OF 1] r1 len x show "bs = enc_string x @ rest \<and> string_ok x"
    by (simp add: enc_string_def string_ok_def)
qed

section \<open>Serialization\<close>

text \<open>
  \<open>nOffset + unStringLength + sizeof(unsigned int) > unLength\<close>: the first sum is an \<open>unsigned int\<close>
  and wraps, the second one is a \<open>size_t\<close>.
\<close>

definition overruns :: "nat \<Rightarrow> u32 \<Rightarrow> u32 \<Rightarrow> bool" where
  "overruns nOffset unStringLength unLength \<longleftrightarrow>
     unat (of_nat nOffset + unStringLength) + 4 > unat unLength"

text \<open>
  The bytes written from the start of the buffer, whose number is the returned \<open>nOffset\<close>; \<open>None\<close> is
  the return value -1. The buffer after a failed call is not read by any caller.
\<close>

fun serialize :: "val \<Rightarrow> u32 \<Rightarrow> byte list option"
  and serialize_subs :: "val list \<Rightarrow> byte list \<Rightarrow> u32 \<Rightarrow> byte list option" where
  "serialize (Value strKey strContent lstSubValues) unLength =
     (let unStringLength = of_nat (length strKey) in
      if overruns 0 unStringLength unLength then None
      else
        let buf = u32_bytes unStringLength @ take (unat unStringLength) (bytes_of strKey);
            unStringLength = of_nat (length strContent) in
        if overruns (length buf) unStringLength unLength then None
        else
          let buf = buf @ u32_bytes unStringLength @
                    take (unat unStringLength) (bytes_of strContent) in
          if length buf + 4 > unat unLength then None
          else serialize_subs lstSubValues
                 (buf @ u32_bytes (of_nat (length lstSubValues))) unLength)"
| "serialize_subs [] buf unLength = Some buf"
| "serialize_subs (v # vs) buf unLength =
     (case serialize v (unLength - of_nat (length buf)) of
        None \<Rightarrow> None
      | Some bs \<Rightarrow> serialize_subs vs (buf @ bs) unLength)"

text \<open>The number of bytes a tree takes and its binary form, as a reference for the routine.\<close>

fun wire_size :: "val \<Rightarrow> nat" where
  "wire_size (Value k c vs) = 12 + length k + length c + sum_list (map wire_size vs)"

fun encode :: "val \<Rightarrow> byte list" where
  "encode (Value k c vs) =
     enc_string k @ enc_string c @ u32_bytes (of_nat (length vs)) @ concat (map encode vs)"

lemma length_encode [simp]: "length (encode v) = wire_size v"
  by (induction v rule: encode.induct) (simp add: length_concat comp_def cong: map_cong)

lemma length_concat_encode: "length (concat (map encode vs)) = sum_list (map wire_size vs)"
  by (simp add: length_concat comp_def)

lemma wire_size_ge: "12 \<le> wire_size v"
  by (cases v) simp

lemma subs_le_wire: "12 * length vs \<le> sum_list (map wire_size vs)"
  by (induction vs) (auto intro: add_mono wire_size_ge)

lemma overruns_iff:
  "off + n < 4294967296 \<Longrightarrow> overruns off (of_nat n) unLength \<longleftrightarrow> off + n + 4 > unat unLength"
proof -
  assume "off + n < 4294967296"
  then have "unat (of_nat off + of_nat n :: u32) = off + n"
    using unat_u32_id [of "off + n"] by simp
  then show ?thesis by (simp add: overruns_def)
qed

lemma serialize_eq_aux:
  "wire_size v < 4294967296 \<Longrightarrow>
     serialize v len = (if wire_size v \<le> unat len then Some (encode v) else None)"
  "length buf + sum_list (map wire_size vs) < 4294967296 \<Longrightarrow> length buf \<le> unat len' \<Longrightarrow>
     serialize_subs vs buf len' =
       (if length buf + sum_list (map wire_size vs) \<le> unat len'
        then Some (buf @ concat (map encode vs)) else None)"
proof (induction v len and vs buf len' rule: serialize_serialize_subs.induct)
  case (1 k c vs len)
  show ?case
  proof (cases "8 + length k + length c + 4 \<le> unat len")
    case True
    with 1 show ?thesis
      by (simp add: Let_def overruns_iff unat_u32_id enc_string_def add.commute)
  next
    case False
    with 1 show ?thesis
      by (auto simp: Let_def overruns_iff unat_u32_id)
  qed
next
  case (3 v vs buf len)
  then have le: "length buf < 4294967296" by simp
  have "unat (len - of_nat (length buf)) = unat len - length buf"
    using 3 le by (subst unat_sub) (auto simp: unat_u32_id word_le_nat_alt)
  with 3 show ?case by (auto simp: le_diff_conv2 add.assoc add.commute)
qed simp

section \<open>Deserialization\<close>

lemma read_u32_length: "read_u32 bs = Inr (w, r) \<Longrightarrow> length bs = 4 + length r"
  using u32.enc_dec [of bs w r] by simp

lemma read_string_length: "read_string bs = Inr (s, r) \<Longrightarrow> length r + 4 \<le> length bs"
  using cstr.enc_dec [of bs s r] by simp

text \<open>
  The tree read from the start of the buffer and the bytes behind it. Each sub value is read from
  where the one before it ended, as often as the count says.
\<close>

function deserialize :: "byte list \<Rightarrow> (val \<times> byte list) result"
  and deserialize_subs :: "nat \<Rightarrow> byte list \<Rightarrow> (val list \<times> byte list) result" where
  "deserialize bs =
     (case read_string bs of
        Inl e \<Rightarrow> Inl e
      | Inr (strKey, bs) \<Rightarrow>
          (case read_string bs of
             Inl e \<Rightarrow> Inl e
           | Inr (strContent, bs) \<Rightarrow>
               (case read_u32 bs of
                  Inl e \<Rightarrow> Inl e
                | Inr (unSubValueCount, bs) \<Rightarrow>
                    (case deserialize_subs (unat unSubValueCount) bs of
                       Inl e \<Rightarrow> Inl e
                     | Inr (lstSubValues, bs) \<Rightarrow>
                         Inr (Value strKey strContent lstSubValues, bs)))))"
| "deserialize_subs 0 bs = Inr ([], bs)"
| "deserialize_subs (Suc n) bs =
     (case deserialize bs of
        Inl e \<Rightarrow> Inl e
      | Inr (valSub, bs) \<Rightarrow>
          (case deserialize_subs n bs of
             Inl e \<Rightarrow> Inl e
           | Inr (vs, bs) \<Rightarrow> Inr (valSub # vs, bs)))"
  by pat_completeness auto

termination
proof (relation "measure (case_sum (\<lambda>bs. 2 * length bs) (\<lambda>(n, bs). 2 * length bs + 1))", goal_cases)
  case (4 n bs x v r)
  have "deserialize_deserialize_subs_dom (Inl bs) \<Longrightarrow>
      (\<forall>v r. deserialize bs = Inr (v, r) \<longrightarrow> length r < length bs)"
    "deserialize_deserialize_subs_dom (Inr (n, cs)) \<Longrightarrow>
      (\<forall>vs r. deserialize_subs n cs = Inr (vs, r) \<longrightarrow> length r \<le> length cs)" for bs n cs
  proof (induction bs and n cs rule: deserialize_deserialize_subs.pinduct)
    case (1 bs)
    show ?case
    proof (intro allI impI)
      fix v r
      assume "deserialize bs = Inr (v, r)"
      with "1.hyps" obtain k r1 c r2 w r3 vs
        where k: "read_string bs = Inr (k, r1)" and c: "read_string r1 = Inr (c, r2)"
          and w: "read_u32 r2 = Inr (w, r3)" and vs: "deserialize_subs (unat w) r3 = Inr (vs, r)"
        by (auto simp: deserialize.psimps split: sum.splits prod.splits)
      from "1.IH" [OF k refl c refl w refl] vs read_string_length [OF k] read_string_length [OF c]
        read_u32_length [OF w] show "length r < length bs" by fastforce
    qed
  next
    case (3 n bs)
    then show ?case
      by (fastforce simp: deserialize_subs.psimps split: sum.splits prod.splits)
  qed (simp add: deserialize_subs.psimps)
  from this(1) [OF 4(3)] 4(1,2) show ?case by auto
qed (auto dest!: read_string_length read_u32_length)

declare deserialize.simps [simp del]

text \<open>The number of bytes of a tree fits the width of its counts.\<close>

fun value_ok :: "val \<Rightarrow> bool" where
  "value_ok (Value k c vs) \<longleftrightarrow>
     string_ok k \<and> string_ok c \<and> length vs < 4294967296 \<and> (\<forall>v \<in> set vs. value_ok v)"

lemma deserialize_encode:
  "value_ok v \<Longrightarrow> deserialize (encode v @ bs) = Inr (v, bs)"
proof (induction v arbitrary: bs)
  case (Value k c vs)
  have subs: "\<forall>v \<in> set ws. \<forall>bs. deserialize (encode v @ bs) = Inr (v, bs) \<Longrightarrow>
      deserialize_subs (length ws) (concat (map encode ws) @ bs) = Inr (ws, bs)" for ws bs
    by (induction ws) auto
  have "deserialize_subs (length vs) (concat (map encode vs) @ bs) = Inr (vs, bs)"
    using Value by (intro subs) auto
  with Value.prems show ?case
    by (subst deserialize.simps) (simp add: cstr.dec_enc u32.dec_enc unat_u32_id)
qed

lemma encode_deserialize_aux:
  "deserialize bs = Inr (v, r) \<Longrightarrow> bs = encode v @ r \<and> value_ok v"
  "deserialize_subs n bs = Inr (vs, r) \<Longrightarrow>
     bs = concat (map encode vs) @ r \<and> length vs = n \<and> (\<forall>v \<in> set vs. value_ok v)"
proof (induction bs and n bs arbitrary: v r and vs r rule: deserialize_deserialize_subs.induct)
  case (1 bs)
  from "1.prems" obtain k r1 c r2 w r3 vs
    where k: "read_string bs = Inr (k, r1)" and c: "read_string r1 = Inr (c, r2)"
      and w: "read_u32 r2 = Inr (w, r3)" and vs: "deserialize_subs (unat w) r3 = Inr (vs, r)"
      and v: "v = Value k c vs"
    unfolding deserialize.simps [of bs] by (auto split: sum.splits prod.splits)
  from "1.IH" [OF k refl c refl w refl vs]
  have "r3 = concat (map encode vs) @ r" "length vs = unat w" "\<forall>v \<in> set vs. value_ok v" by auto
  with v cstr.enc_dec [OF k] cstr.enc_dec [OF c] u32.enc_dec [OF w] show ?case by simp
next
  case (3 n bs)
  then show ?case by (fastforce split: sum.splits prod.splits)
qed auto

text \<open>The binary form of whole trees is a codec again.\<close>

interpretation tree: codec encode deserialize value_ok
  by unfold_locales (auto simp: deserialize_encode dest: encode_deserialize_aux)

lemma value_ok_size: "wire_size v < 4294967296 \<Longrightarrow> value_ok v"
proof (induction v)
  case (Value k c vs)
  have "value_ok v" if "v \<in> set vs" for v
    using Value that member_le_sum_list [of "wire_size v" "map wire_size vs"] by auto
  moreover have "length vs < 4294967296"
    using Value.prems subs_le_wire [of vs] by simp
  ultimately show ?case using Value.prems by (simp add: string_ok_def)
qed

section \<open>Properties\<close>

lemma read_u32_error: "read_u32 bs = Inl e \<Longrightarrow> e = OutOfBounds"
  by (cases bs rule: read_u32.cases) auto

lemma read_string_error: "read_string bs = Inl e \<Longrightarrow> e = OutOfBounds"
  by (auto simp: read_string_def bind_r_Inl_iff read_bytes_def dest: read_u32_error split: if_splits)

lemma deserialize_error:
  "deserialize bs = Inl e \<Longrightarrow> e = OutOfBounds"
  "deserialize_subs n bs = Inl e \<Longrightarrow> e = OutOfBounds"
proof (induction bs and n bs rule: deserialize_deserialize_subs.induct)
  case (1 bs)
  from "1.prems" show ?case
    unfolding deserialize.simps [of bs]
    by (auto split: sum.splits prod.splits dest: read_string_error read_u32_error "1.IH" [rotated -1])
next
  case (3 n bs)
  then show ?case by (auto split: sum.splits prod.splits)
qed auto





text \<open>\<open>deserialize\<close> accepts nothing but encodings: a buffer that it reads a tree from starts with
  the encoding of that tree and continues with what is left.\<close>

theorem deserialize_canonical:
  assumes "deserialize bs = Inr (v, q)"
  shows "bs = encode v @ q"
  using encode_deserialize_aux(1) [OF assms] by simp

lemma deserialize_canonical_witness:
  "[0, 0, 0, 0, 0, 0, 0, 0, 0, 0, 0, 0, 5] = encode (Value [] [] []) @ [5]"
proof -
  have "value_ok (Value [] [] [])" by (simp add: string_ok_def)
  then have 1: "deserialize (encode (Value [] [] []) @ [5]) = Inr (Value [] [] [], [5])"
    by (rule tree.dec_enc)
  have 2: "[0, 0, 0, 0, 0, 0, 0, 0, 0, 0, 0, 0, 5] = encode (Value [] [] []) @ [5]"
    by (simp add: enc_string_def u32_bytes_def bytes_of_def)
  show ?thesis by (rule deserialize_canonical [OF 1 [folded 2]])
qed

text \<open>On a packet that is cut off anywhere, \<open>deserialize\<close> reads behind the end of the buffer: it
  has no other way to notice that bytes are missing.\<close>

theorem deserialize_truncated:
  assumes "wire_size v < 4294967296" and "encode v = p @ q" and "q \<noteq> []"
  shows "deserialize p = Inl OutOfBounds"
proof -
  from tree.dec_strict_prefix [OF value_ok_size [OF assms(1)] assms(2) [symmetric] assms(3)]
  obtain e where e: "deserialize p = Inl e" by blast
  with deserialize_error(1) [OF e] show ?thesis by simp
qed

lemma deserialize_truncated_witness:
  "deserialize (take 15 (encode (Value ''key'' ''val'' []))) = Inl OutOfBounds"
proof -
  let ?v = "Value ''key'' ''val'' []"
  have 1: "wire_size ?v < 4294967296" by simp
  have 2: "encode ?v = take 15 (encode ?v) @ drop 15 (encode ?v)" by simp
  have "length (drop 15 (encode ?v)) = 3" by (simp del: encode.simps)
  then have 3: "drop 15 (encode ?v) \<noteq> []" by (metis length_0_conv zero_neq_numeral)
  show ?thesis by (rule deserialize_truncated [OF 1 2 3])
qed

text \<open>\<open>copy\<close> makes an equal tree, sub values at every depth included.\<close>

theorem copy_value_eq: "copy_value v = v"
proof (induction v)
  case (Value k c vs)
  then have "map copy_value vs = vs" by (simp add: map_idI)
  then show ?case by (simp add: fold_add_sub)
qed

end
