(* ===== verification/Packet.thy ===== *)
theory Packet
  imports Values
begin

text \<open>
  \<open>utils/src/PacketEntity.cpp\<close> and \<open>utils/src/SocketReader.cpp\<close>: sending a tree over a socket and
  receiving one from it. The system calls \<open>recv\<close> and \<open>send\<close> are parameters: \<open>recv n\<close> is the outcome
  of the call that peeks with a buffer of \<open>n\<close> bytes (each call of one \<open>receive\<close> has its own size, so
  the outcomes may differ from call to call), \<open>wr n l\<close> the number of bytes the kernel takes when
  \<open>l\<close> bytes from offset \<open>n\<close> are left to write.

  A buffer comes from \<open>new unsigned char[n]\<close> and is not initialised; \<open>junk n\<close> is what it holds.
  The buffer sizes are signed and grow by 2048 without a limit: growing over the range of \<open>int\<close> is
  the fault \<open>IntOverflow\<close>, and so both loops end.
\<close>

text \<open>
  \<open>Received []\<close> is the return value 0, \<open>RecvError True\<close> the return value -1 with \<open>errno\<close> equal to
  \<open>EAGAIN\<close> or \<open>EWOULDBLOCK\<close> (one number on Linux), \<open>RecvError False\<close> any other error.
\<close>

datatype recv_res = Received "byte list" | RecvError bool

fun recv_length :: "recv_res \<Rightarrow> int" where
  "recv_length (Received bs) = int (length bs)"
| "recv_length (RecvError _) = - 1"

record pentity =
  m_nSocketFD :: int
  m_bFailureState :: bool

definition new_pentity :: "int \<Rightarrow> pentity" where
  "new_pentity nSocketFD = \<lparr>m_nSocketFD = nSocketFD, m_bFailureState = False\<rparr>"

section \<open>Receiving\<close>

function peek_loop :: "(nat \<Rightarrow> recv_res) \<Rightarrow> nat \<Rightarrow> (nat \<times> recv_res) result" where
  "peek_loop recv nBufferSize =
     (if nBufferSize + 2048 > int_max then Inl IntOverflow
      else
        let nBufferSize' = nBufferSize + 2048; r = recv nBufferSize' in
        if \<not> recv_length r > 0 then Inr (nBufferSize', r)
        else if recv_length r = int nBufferSize' then peek_loop recv nBufferSize'
        else Inr (nBufferSize', r))"
  by pat_completeness auto
termination
  by (relation "measure (\<lambda>(recv, n). int_max - n)") auto

declare peek_loop.simps [simp del]

text \<open>
  The received tree, \<open>bDisconnected\<close>, the object and the number of bytes that the final \<open>recv\<close> asks
  to take off the socket.
\<close>

definition receive ::
  "(nat \<Rightarrow> recv_res) \<Rightarrow> (nat \<Rightarrow> byte list) \<Rightarrow> bool \<Rightarrow> pentity \<Rightarrow>
     (val option \<times> bool \<times> pentity \<times> nat) result" where
  "receive recv junk bDisconnected pe =
     bind_r (peek_loop recv 0) (\<lambda>(nBufferSize, r).
       case r of
         RecvError again \<Rightarrow>
           if again then Inr (None, bDisconnected, pe, 0)
           else Inr (None, True, pe\<lparr>m_bFailureState := True\<rparr>, 0)
       | Received data \<Rightarrow>
           if data = [] then Inr (None, True, pe\<lparr>m_bFailureState := True\<rparr>, 0)
           else
             let buf = data @ drop (length data) (junk nBufferSize) in
             bind_r (deserialize buf) (\<lambda>(v, rest).
               Inr (Some v, bDisconnected, pe, length buf - length rest)))"

definition failureState :: "pentity \<Rightarrow> bool" where
  "failureState pe = m_bFailureState pe"

section \<open>Sending\<close>

function send_buffer :: "val \<Rightarrow> nat \<Rightarrow> byte list result" where
  "send_buffer v nBufferSize =
     (if nBufferSize + 2048 > int_max then Inl IntOverflow
      else
        let nBufferSize' = nBufferSize + 2048 in
        case serialize v (of_nat nBufferSize') of
          None \<Rightarrow> send_buffer v nBufferSize'
        | Some bs \<Rightarrow> Inr bs)"
  by pat_completeness auto
termination
  by (relation "measure (\<lambda>(v, n). int_max - n)") auto

declare send_buffer.simps [simp del]

function write_loop :: "(nat \<Rightarrow> nat \<Rightarrow> int) \<Rightarrow> nat \<Rightarrow> nat \<Rightarrow> nat" where
  "write_loop wr nSerializedLength nSentBytes =
     (if nSentBytes < nSerializedLength
      then
        let nResult = wr nSentBytes (nSerializedLength - nSentBytes) in
        if nResult > 0 then write_loop wr nSerializedLength (nSentBytes + nat nResult)
        else nSentBytes
      else nSentBytes)"
  by pat_completeness auto
termination
  by (relation "measure (\<lambda>(wr, l, n). l - n)") auto

declare write_loop.simps [simp del]

text \<open>The return value and the bytes the kernel took.\<close>

definition send_packet :: "(nat \<Rightarrow> nat \<Rightarrow> int) \<Rightarrow> val \<Rightarrow> (bool \<times> byte list) result" where
  "send_packet wr valSend =
     bind_r (send_buffer valSend 0) (\<lambda>bs.
       let nSentBytes = write_loop wr (length bs) 0 in
       Inr (nSentBytes = length bs, take nSentBytes bs))"

section \<open>Reading from a raw or a multicast socket\<close>

text \<open>\<open>SocketReader::read\<close> and \<open>MulticastEndpoint::read\<close>: no data is 0, an end or an error is -1.\<close>

definition socket_read :: "recv_res \<Rightarrow> int" where
  "socket_read r =
     (if recv_length r = - 1 then (if r = RecvError True then 0 else - 1)
      else if recv_length r = 0 then - 1 else recv_length r)"

text \<open>
  \<open>bufferedRead\<close>: a fresh buffer of \<open>nReadingLength\<close> zero bytes, filled from its start; its content
  and the number of bytes read.
\<close>

definition bufferedRead :: "(nat \<Rightarrow> recv_res) \<Rightarrow> nat \<Rightarrow> byte list \<times> int" where
  "bufferedRead recv nReadingLength =
     (let r = recv nReadingLength in
      ((case r of
          Received bs \<Rightarrow> bs @ replicate (nReadingLength - length bs) 0
        | RecvError _ \<Rightarrow> replicate nReadingLength 0), socket_read r))"

text \<open>\<open>forward\<close>: the bytes are read into a buffer that is thrown away.\<close>

definition forward_bytes :: "(nat \<Rightarrow> recv_res) \<Rightarrow> nat \<Rightarrow> int" where
  "forward_bytes recv unBytes = socket_read (recv unBytes)"

section \<open>What the kernel is known to do\<close>

text \<open>
  A connected stream socket: a peek shows the front of the queue of received bytes, as much of it as
  the buffer takes; an empty queue of an open connection is \<open>EAGAIN\<close> (the sockets do not block). A
  write takes at most what it is offered.
\<close>

definition tcp_queue :: "byte list \<Rightarrow> (nat \<Rightarrow> recv_res) \<Rightarrow> bool" where
  "tcp_queue q recv \<longleftrightarrow>
     (\<forall>n > 0. recv n = (if q = [] then RecvError True else Received (take n q)))"

definition tcp_write :: "(nat \<Rightarrow> nat \<Rightarrow> int) \<Rightarrow> bool" where
  "tcp_write wr \<longleftrightarrow> (\<forall>n l. wr n l \<le> int l)"

definition heap_block :: "(nat \<Rightarrow> byte list) \<Rightarrow> bool" where
  "heap_block junk \<longleftrightarrow> (\<forall>n. length (junk n) = n)"

section \<open>Lemmas\<close>

lemma peek_loop_queue:
  assumes "tcp_queue q recv" "q \<noteq> []" "length q + 2048 \<le> int_max" "n \<le> length q"
  shows "\<exists>m. peek_loop recv n = Inr (m, Received q) \<and> length q < m \<and> m \<le> length q + 2048"
  using assms
proof (induction recv n rule: peek_loop.induct)
  case (1 recv n)
  have recv: "recv (n + 2048) = Received (take (n + 2048) q)"
    using "1.prems"(1,2) by (simp add: tcp_queue_def)
  have ov: "\<not> n + 2048 > int_max" using "1.prems"(3,4) by simp
  show ?case
  proof (cases "n + 2048 \<le> length q")
    case True
    with "1.IH" [OF ov refl refl] "1.prems" recv have
      "\<exists>m. peek_loop recv (n + 2048) = Inr (m, Received q) \<and> length q < m \<and> m \<le> length q + 2048"
      by simp
    with True recv ov show ?thesis by (simp add: peek_loop.simps [of recv n] Let_def)
  next
    case False
    with recv ov "1.prems"(2,4) show ?thesis
      by (simp add: peek_loop.simps [of recv n] Let_def)
  qed
qed

lemma receive_queue:
  assumes "tcp_queue q recv" "q \<noteq> []" "length q + 2048 \<le> int_max" "heap_block junk"
  shows "\<exists>m. length q < m \<and>
    receive recv junk d pe =
      bind_r (deserialize (q @ drop (length q) (junk m))) (\<lambda>(v, rest).
        Inr (Some v, d, pe, m - length rest))"
proof -
  from peek_loop_queue [OF assms(1-3), of 0] obtain m
    where m: "peek_loop recv 0 = Inr (m, Received q)" "length q < m" by auto
  moreover have "length (q @ drop (length q) (junk m)) = m"
    using assms(4) m(2) by (simp add: heap_block_def)
  ultimately show ?thesis using assms(2) by (auto simp: receive_def Let_def)
qed

lemma receive_empty: "tcp_queue [] recv \<Longrightarrow> receive recv junk d pe = Inr (None, d, pe, 0)"
  by (simp add: receive_def peek_loop.simps [of recv 0] tcp_queue_def int_max_def Let_def)

lemma receive_front:
  assumes "tcp_queue (encode v @ q) recv" "value_ok v"
    "length (encode v @ q) + 2048 \<le> int_max" "heap_block junk"
  shows "receive recv junk d pe = Inr (Some v, d, pe, wire_size v)"
proof -
  have ne: "encode v @ q \<noteq> []" using wire_size_ge [of v] length_encode [of v] by force
  from receive_queue [OF assms(1) ne assms(3,4), of d pe] obtain m
    where m: "length (encode v @ q) < m" and r: "receive recv junk d pe =
      bind_r (deserialize ((encode v @ q) @ drop (length (encode v @ q)) (junk m)))
        (\<lambda>(v, rest). Inr (Some v, d, pe, m - length rest))" by blast
  have "length (junk m) = m" using assms(4) by (simp add: heap_block_def)
  with m r assms(2) show ?thesis by (simp add: tree.dec_enc)
qed

lemma send_buffer_eq:
  assumes "wire_size v + 2048 \<le> int_max" "n < wire_size v \<or> n = 0"
  shows "send_buffer v n = Inr (encode v)"
  using assms
proof (induction v n rule: send_buffer.induct)
  case (1 v n)
  have ov: "\<not> n + 2048 > int_max" using "1.prems" by (auto simp: int_max_def)
  have size: "wire_size v < 4294967296" using "1.prems" by (simp add: int_max_def)
  have "unat (of_nat (n + 2048) :: u32) = n + 2048"
    using ov by (intro unat_u32_id) (simp add: int_max_def)
  then have ser: "serialize v (of_nat (n + 2048)) =
      (if wire_size v \<le> n + 2048 then Some (encode v) else None)"
    using serialize_eq_aux(1) [OF size, of "of_nat (n + 2048)"] by simp
  show ?case
  proof (cases "wire_size v \<le> n + 2048")
    case True
    with ser ov show ?thesis by (simp add: send_buffer.simps [of v n] Let_def del: of_nat_add)
  next
    case False
    with "1.IH" [OF ov refl] ser "1.prems" have "send_buffer v (n + 2048) = Inr (encode v)"
      by (simp del: of_nat_add)
    with False ser ov show ?thesis
      by (simp add: send_buffer.simps [of v n] Let_def del: of_nat_add)
  qed
qed

lemma write_loop_le: "tcp_write wr \<Longrightarrow> n \<le> l \<Longrightarrow> n \<le> write_loop wr l n \<and> write_loop wr l n \<le> l"
proof (induction wr l n rule: write_loop.induct)
  case (1 wr l n)
  show ?case
  proof (cases "n < l \<and> wr n (l - n) > 0")
    case True
    have "wr n (l - n) \<le> int (l - n)" using "1.prems"(1) by (simp add: tcp_write_def)
    with True have "n + nat (wr n (l - n)) \<le> l" by linarith
    with True "1.IH" [OF _ refl] "1.prems" show ?thesis
      by (simp add: write_loop.simps [of wr l n] Let_def)
  next
    case False
    with "1.prems" show ?thesis by (auto simp: write_loop.simps [of wr l n] Let_def)
  qed
qed

lemma write_loop_all:
  assumes "\<And>n l. 0 < l \<Longrightarrow> 0 < wr n l" "tcp_write wr" "n \<le> l"
  shows "write_loop wr l n = l"
  using assms
proof (induction wr l n rule: write_loop.induct)
  case (1 wr l n)
  show ?case
  proof (cases "n < l")
    case True
    then have pos: "0 < wr n (l - n)" using "1.prems"(1) by simp
    have "wr n (l - n) \<le> int (l - n)" using "1.prems"(2) by (simp add: tcp_write_def)
    with True pos have "n + nat (wr n (l - n)) \<le> l" by linarith
    with "1.IH" [OF True refl pos "1.prems"(1,2)] True pos show ?thesis
      by (simp add: write_loop.simps [of wr l n] Let_def)
  next
    case False
    with "1.prems" show ?thesis by (subst write_loop.simps) simp
  qed
qed

section \<open>Properties\<close>

text \<open>
  The kernel's queue as a function of its content, and a client that calls \<open>receive\<close> again and
  again: each call takes the bytes off the queue that it says it used.
\<close>

definition queue_peek :: "byte list \<Rightarrow> nat \<Rightarrow> recv_res" where
  "queue_peek q n = (if q = [] then RecvError True else Received (take n q))"

fun receive_many :: "(nat \<Rightarrow> byte list) \<Rightarrow> nat \<Rightarrow> byte list \<Rightarrow> pentity \<Rightarrow>
    (val option list \<times> byte list) result" where
  "receive_many junk 0 q pe = Inr ([], q)"
| "receive_many junk (Suc k) q pe =
     bind_r (receive (queue_peek q) junk False pe) (\<lambda>(v, d, pe, n).
     bind_r (receive_many junk k (drop n q) pe) (\<lambda>(vs, q). Inr (v # vs, q)))"

lemma tcp_queue_peek: "tcp_queue q (queue_peek q)"
  by (simp add: tcp_queue_def queue_peek_def)

lemma receive_many_queue:
  assumes "\<forall>v \<in> set vs. value_ok v" and "heap_block junk"
    and "length (concat (map encode vs) @ q) + 2048 \<le> int_max"
  shows "receive_many junk (length vs) (concat (map encode vs) @ q) pe = Inr (map Some vs, q)"
  using assms
proof (induction vs)
  case (Cons v vs)
  let ?q = "encode v @ (concat (map encode vs) @ q)"
  have "receive (queue_peek ?q) junk False pe = Inr (Some v, False, pe, wire_size v)"
    using Cons.prems tcp_queue_peek [of ?q] by (intro receive_front) auto
  with Cons show ?case by simp
qed simp

text \<open>C4: Packets that arrive back to back on one connection are received one by one, in the order
  they were sent, each exactly once, and what follows them stays on the socket.\<close>

theorem receive_in_order:
  assumes "\<forall>v \<in> set vs. value_ok v" and "heap_block junk"
    and "length (concat (map encode vs) @ q) + 2048 \<le> int_max"
  shows "receive_many junk (length vs) (concat (map encode vs) @ q) pe = Inr (map Some vs, q)"
  by (rule receive_many_queue [OF assms])

lemma receive_in_order_witness:
  "receive_many (\<lambda>n. replicate n 255) 2
     (encode (Value ''info'' ''hello'' []) @ encode (Value ''info'' ''keepalive'' []) @ [9])
     (new_pentity 4) =
   Inr ([Some (Value ''info'' ''hello'' []), Some (Value ''info'' ''keepalive'' [])], [9])"
proof -
  let ?vs = "[Value ''info'' ''hello'' [], Value ''info'' ''keepalive'' []]"
  have 1: "\<forall>v \<in> set ?vs. value_ok v" by (simp add: string_ok_def)
  have 2: "heap_block (\<lambda>n. replicate n 255)" by (simp add: heap_block_def)
  have 3: "length (concat (map encode ?vs) @ [9]) + 2048 \<le> int_max"
    by (simp add: int_max_def del: encode.simps)
  show ?thesis using receive_in_order [OF 1 2 3, of "new_pentity 4"]
    by (simp add: numeral_2_eq_2 del: receive_many.simps encode.simps)
qed

text \<open>C3: A packet that \<open>send\<close> reports as sent arrives: the other side receives the tree that was
  given to \<open>send\<close>.\<close>

theorem send_receive:
  assumes "wire_size v + 2048 \<le> int_max" and "heap_block junk"
    and "send_packet wr v = Inr (True, bs)" and "tcp_queue bs recv"
  shows "receive recv junk d pe = Inr (Some v, d, pe, length bs)"
proof -
  from assms(1,3) have bs: "bs = encode v"
    by (auto simp: send_packet_def send_buffer_eq Let_def)
  have "value_ok v" using assms(1) by (intro value_ok_size) (simp add: int_max_def)
  with receive_front [of v "[]" recv junk d pe] assms bs show ?thesis by simp
qed

lemma send_complete:
  assumes "wire_size v + 2048 \<le> int_max" "\<And>n l. 0 < l \<Longrightarrow> 0 < wr n l" "tcp_write wr"
  shows "send_packet wr v = Inr (True, encode v)"
proof -
  have "write_loop wr (wire_size v) 0 = wire_size v"
    using assms(2,3) by (intro write_loop_all) auto
  then show ?thesis using assms(1) by (simp add: send_packet_def send_buffer_eq)
qed

lemma send_receive_witness:
  "receive (queue_peek (encode (Value ''request'' ''devices-list'' []))) (\<lambda>n. replicate n 0)
     False (new_pentity 4) =
   Inr (Some (Value ''request'' ''devices-list'' []), False, new_pentity 4, 31)"
proof -
  let ?v = "Value ''request'' ''devices-list'' []"
  have 1: "wire_size ?v + 2048 \<le> int_max" by (simp add: int_max_def)
  have 2: "heap_block (\<lambda>n. replicate n 0)" by (simp add: heap_block_def)
  have 3: "send_packet (\<lambda>n l. int (min l 10)) ?v = Inr (True, encode ?v)"
    using 1 by (rule send_complete) (auto simp: tcp_write_def)
  show ?thesis using send_receive [OF 1 2 3 tcp_queue_peek] by (simp del: encode.simps)
qed

text \<open>When \<open>send\<close> returns false, the kernel took a part of the packet that is not all of it: the
  peer is left with a cut off packet on its stream, which \<open>deserialize\<close> reads over.\<close>

theorem send_failure_truncates:
  assumes "wire_size v + 2048 \<le> int_max" and "tcp_write wr"
    and "send_packet wr v = Inr (False, bs)"
  shows "length bs < wire_size v \<and> bs = take (length bs) (encode v) \<and>
    deserialize bs = Inl OutOfBounds"
proof -
  define n where "n = write_loop wr (wire_size v) 0"
  have le: "n \<le> wire_size v" using write_loop_le [OF assms(2), of 0] by (simp add: n_def)
  from assms(1,3) have bs: "bs = take n (encode v)" and "n \<noteq> wire_size v"
    by (auto simp: send_packet_def send_buffer_eq Let_def n_def)
  with le have n: "n < wire_size v" "length bs = n" by auto
  have "encode v = bs @ drop n (encode v)" using bs by simp
  moreover have "drop n (encode v) \<noteq> []" using n by simp
  moreover have "value_ok v" using assms(1) by (intro value_ok_size) (simp add: int_max_def)
  ultimately obtain e where e: "deserialize bs = Inl e"
    using tree.dec_strict_prefix [of v bs "drop n (encode v)"] by auto
  with deserialize_error(1) [OF e] bs n show ?thesis by simp
qed

lemma send_failure_truncates_witness:
  "deserialize (take 10 (encode (Value ''info'' ''keepalive'' []))) = Inl OutOfBounds"
proof -
  let ?v = "Value ''info'' ''keepalive'' []" and ?wr = "\<lambda>n l. if n = 0 then 10 else - 1 :: int"
  let ?wr' = "\<lambda>n (l :: nat). min (int l) (if n = (0 :: nat) then 10 else - 1)"
  have 1: "wire_size ?v + 2048 \<le> int_max" by (simp add: int_max_def)
  have 2: "tcp_write ?wr'" by (simp add: tcp_write_def)
  have "write_loop ?wr' 25 0 = 10"
    by (simp add: write_loop.simps [of _ 25 0] write_loop.simps [of _ 25 10])
  then have 3: "send_packet ?wr' ?v = Inr (False, take 10 (encode ?v))"
    using 1 by (simp add: send_packet_def send_buffer_eq del: encode.simps)
  from send_failure_truncates [OF 1 2 3] show ?thesis by simp
qed

lemma receive_small:
  assumes "tcp_queue q recv" "q \<noteq> []" "length q < 2048" "heap_block junk"
  shows "receive recv junk d pe =
    bind_r (deserialize (q @ drop (length q) (junk 2048))) (\<lambda>(v, rest).
      Inr (Some v, d, pe, 2048 - length rest))"
proof -
  have "peek_loop recv 0 = Inr (2048, Received q)"
    using assms(1-3) by (simp add: peek_loop.simps [of recv 0] tcp_queue_def int_max_def Let_def)
  with assms(2-4) show ?thesis by (simp add: receive_def Let_def heap_block_def)
qed

text \<open>\<open>receive\<close> does not wait for the rest of a packet. When the last byte of the content has not
  arrived yet, it returns a tree nobody sent: its last character is whatever the heap held, so every
  character is possible; and it takes the whole length of the packet off the stream.\<close>

theorem receive_partial_packet:
  assumes "c \<noteq> []" and "length k + length c + 12 \<le> 2048"
    and "q = enc_string k @ u32_bytes (of_nat (length c)) @ bytes_of (butlast c)"
    and "tcp_queue q recv"
  shows "(\<exists>r. r \<noteq> [] \<and> encode (Value k c []) = q @ r) \<and>
    (\<exists>junk. heap_block junk \<and>
      receive recv junk d pe =
        Inr (Some (Value k (butlast c @ [x]) []), d, pe, wire_size (Value k c [])))"
proof (intro conjI)
  let ?v = "Value k (butlast c @ [x]) []"
  let ?t = "byte_of_char x # u32_bytes 0"
  have lc: "length (butlast c @ [x]) = length c" using assms(1) by simp
  have "bytes_of c = bytes_of (butlast c) @ [byte_of_char (last c)]"
    using append_butlast_last_id [OF assms(1)] by (metis bytes_of_def list.map(1,2) map_append)
  with assms(3) show "\<exists>r. r \<noteq> [] \<and> encode (Value k c []) = q @ r"
    by (intro exI [of _ "byte_of_char (last c) # u32_bytes 0"]) (simp add: enc_string_def)
  have enc: "encode ?v = q @ ?t"
    using assms(3) by (simp add: enc_string_def bytes_of_def Suc_diff_1 assms(1))
  have lq: "length q + 5 = wire_size (Value k c [])"
    using arg_cong [OF enc, of length] lc by (simp del: encode.simps)
  define junk where "junk = (\<lambda>n. take n (replicate (length q) 0 @ ?t @ replicate n 0))"
  have hb: "heap_block junk" by (auto simp: heap_block_def junk_def min_def)
  have q: "q \<noteq> []" "length q < 2048" using assms(2) lq by auto
  have "drop (length q) (junk 2048) = ?t @ replicate (2048 - wire_size (Value k c [])) 0"
    using lq assms(2) by (simp add: junk_def drop_take take_Cons' min_def)
  then have "q @ drop (length q) (junk 2048) =
      encode ?v @ replicate (2048 - wire_size (Value k c [])) 0"
    using enc by simp
  moreover have "value_ok ?v" using assms(2) lc by (simp add: string_ok_def)
  ultimately have "receive recv junk d pe = Inr (Some ?v, d, pe, wire_size (Value k c []))"
    using receive_small [OF assms(4) q hb, of d pe] assms(2) by (simp add: tree.dec_enc del: encode.simps value_ok.simps)
  with hb show "\<exists>junk. heap_block junk \<and>
      receive recv junk d pe = Inr (Some ?v, d, pe, wire_size (Value k c []))" by blast
qed

lemma receive_partial_packet_witness:
  "\<exists>junk. heap_block junk \<and>
     receive (queue_peek (enc_string ''request'' @ u32_bytes 2 @ bytes_of ''o'')) junk False
       (new_pentity 4) =
     Inr (Some (Value ''request'' ''oh'' []), False, new_pentity 4, 21)"
proof -
  have 1: "''ok'' \<noteq> []" by simp
  have 2: "length ''request'' + length ''ok'' + 12 \<le> 2048" by simp
  have 3: "enc_string ''request'' @ u32_bytes 2 @ bytes_of ''o'' =
      enc_string ''request'' @ u32_bytes (of_nat (length ''ok'')) @ bytes_of (butlast ''ok'')"
    by simp
  show ?thesis
    using receive_partial_packet [OF 1 2 3 tcp_queue_peek, of False "new_pentity 4" "CHR ''h''"]
    by simp
qed

end
