(* ===== verification/Frames.thy ===== *)
theory Frames
  imports Packet
begin

text \<open>
  The parts of \<open>macdetectd/src/Device.cpp\<close>, \<open>Wire.cpp\<close> and \<open>Network.cpp\<close> that build and read packets:
  the text form of a MAC address (written three times in the code, in two ways), the two checksums,
  the Ethernet frame and the ping packet. \<open>inet_ntoa\<close>, \<open>inet_aton\<close> and \<open>ether_aton\<close> are functions of
  the C library; they are modelled on the strings the code hands to them.
\<close>

section \<open>MAC addresses as text\<close>

definition hex_digit :: "nat \<Rightarrow> char" where
  "hex_digit n = ''0123456789abcdef'' ! n"

definition hex_hi :: "byte \<Rightarrow> char" where
  "hex_hi b = hex_digit (unat b div 16)"

definition hex_lo :: "byte \<Rightarrow> char" where
  "hex_lo b = hex_digit (unat b mod 16)"

text \<open>\<open>Network::mac\<close>: a stringstream with \<open>hex\<close>, width 2 and fill character 0.\<close>

definition network_mac :: "byte list \<Rightarrow> string" where
  "network_mac ucMAC =
     concat (map (\<lambda>nI. [hex_hi (ucMAC ! nI), hex_lo (ucMAC ! nI)] @
                       (if nI < 5 then '':'' else [])) [0..<6])"

text \<open>
  \<open>Device::mac\<close> and \<open>Wire::createSocket\<close>: \<open>sprintf\<close> into a buffer of 17 characters. Each call writes
  two digits and the terminating zero; the separator then overwrites the zero. The writes are kept
  with their indices.
\<close>

fun mac_writes :: "nat \<Rightarrow> nat \<Rightarrow> byte list \<Rightarrow> (nat \<times> char) list" where
  "mac_writes nI nOffset [] = []"
| "mac_writes nI nOffset (b # bs) =
     [(nI + nOffset, hex_hi b), (nI + nOffset + 1, hex_lo b), (nI + nOffset + 2, CHR 0x00)] @
     (let nOffset = nOffset + 1 in
      if nI < 5 then
        let nOffset = nOffset + 1 in (nI + nOffset, CHR '':'') # mac_writes (nI + 1) nOffset bs
      else mac_writes (nI + 1) nOffset bs)"

definition device_mac :: "string \<Rightarrow> byte list \<Rightarrow> string" where
  "device_mac carrBuffer sa_data =
     fold (\<lambda>(i, c) buf. buf[i := c]) (mac_writes 0 0 (take 6 sa_data)) carrBuffer"

lemma six_bytes: "length bs = 6 \<Longrightarrow> \<exists>a b c d e f. bs = [a, b, c, d, e, f]"
  by (auto simp: numeral_eq_Suc length_Suc_conv)

lemma list17: "length s = 17 \<Longrightarrow>
  \<exists>a b c d e f g h i j k l m n p q r. s = [a, b, c, d, e, f, g, h, i, j, k, l, m, n, p, q, r]"
  by (auto simp: numeral_eq_Suc length_Suc_conv)

lemma upt6: "[0..<6] = [0, 1, 2, 3, 4, 5 :: nat]"
  by (simp add: upt_rec)

lemma network_mac_six:
  "network_mac [a, b, c, d, e, f] =
     [hex_hi a, hex_lo a, CHR '':'', hex_hi b, hex_lo b, CHR '':'', hex_hi c, hex_lo c, CHR '':'',
      hex_hi d, hex_lo d, CHR '':'', hex_hi e, hex_lo e, CHR '':'', hex_hi f, hex_lo f]"
  by (simp add: network_mac_def upt6)

lemma length_network_mac: "length bs = 6 \<Longrightarrow> length (network_mac bs) = 17"
  by (auto dest!: six_bytes simp: network_mac_six)

text \<open>The value of a hexadecimal digit, as \<open>ether_aton\<close> reads it.\<close>

definition hex_value :: "char \<Rightarrow> nat option" where
  "hex_value c =
     (let n = of_char c :: nat in
      if 48 \<le> n \<and> n \<le> 57 then Some (n - 48)
      else if 97 \<le> n \<and> n \<le> 102 then Some (n - 87)
      else if 65 \<le> n \<and> n \<le> 70 then Some (n - 55)
      else None)"

text \<open>
  \<open>ether_aton\<close>: six groups of one or two hexadecimal digits with a colon behind each but the last;
  \<open>None\<close> is the null pointer.
\<close>

fun ether_groups :: "nat \<Rightarrow> string \<Rightarrow> byte list option" where
  "ether_groups 0 s = Some []"
| "ether_groups (Suc n) [] = None"
| "ether_groups (Suc n) (c # s) =
     (case hex_value c of
        None \<Rightarrow> None
      | Some h \<Rightarrow>
          (let (v, s) = (case s of
                           [] \<Rightarrow> (h, s)
                         | c' # s' \<Rightarrow> (case hex_value c' of None \<Rightarrow> (h, s) | Some l \<Rightarrow> (16 * h + l, s')))
           in if n = 0 then (if s = [] then Some [of_nat v] else None)
              else (case s of
                      [] \<Rightarrow> None
                    | c' # s' \<Rightarrow> if c' = CHR '':'' then map_option ((#) (of_nat v)) (ether_groups n s')
                                else None)))"

definition ether_aton :: "string \<Rightarrow> byte list option" where
  "ether_aton s = ether_groups 6 s"

lemma hex_digit_cases:
  "n < 16 \<Longrightarrow> n \<in> {0, 1, 2, 3, 4, 5, 6, 7, 8, 9, 10, 11, 12, 13, 14, 15 :: nat}"
  by (simp add: numeral_eq_Suc less_Suc_eq)

lemma hex_value_digit [simp]: "n < 16 \<Longrightarrow> hex_value (hex_digit n) = Some n"
  by (drule hex_digit_cases) (auto simp: hex_value_def hex_digit_def)

lemma unat_byte_div [simp]: "unat (b :: byte) div 16 < 16"
  using unat_byte_less [of b] by linarith

lemma hex_value_hi [simp]: "hex_value (hex_hi b) = Some (unat b div 16)"
  and hex_value_lo [simp]: "hex_value (hex_lo b) = Some (unat b mod 16)"
  by (simp_all add: hex_hi_def hex_lo_def)

lemma hex_value_colon [simp]: "hex_value (CHR '':'') = None"
  by (simp add: hex_value_def)

lemma byte_from_digits [simp]: "(of_nat (16 * (unat b div 16) + unat b mod 16) :: byte) = b"
  by (metis mult_div_mod_eq of_nat_unat ucast_id)

lemma ether_groups_digits:
  "ether_groups (Suc (Suc n)) (hex_hi b # hex_lo b # CHR '':'' # s) =
     map_option ((#) b) (ether_groups (Suc n) s)"
  "ether_groups (Suc 0) [hex_hi b, hex_lo b] = Some [b]"
  using byte_from_digits [of b] by (simp_all del: byte_from_digits of_nat_add of_nat_mult)

lemma ether_aton_network_mac: "length bs = 6 \<Longrightarrow> ether_aton (network_mac bs) = Some bs"
proof -
  have six: "6 = Suc (Suc (Suc (Suc (Suc (Suc 0)))))" by simp
  assume "length bs = 6"
  then obtain a b c d e f where "bs = [a, b, c, d, e, f]" using six_bytes by blast
  then show ?thesis
    by (simp only: network_mac_six ether_aton_def six ether_groups_digits option.map)
qed

section \<open>IPv4 addresses as text\<close>

definition dec_digit :: "nat \<Rightarrow> char" where
  "dec_digit n = ''0123456789'' ! n"

fun dec_string :: "nat \<Rightarrow> string" where
  "dec_string n = (if n < 10 then [dec_digit n] else dec_string (n div 10) @ [dec_digit (n mod 10)])"

declare dec_string.simps [simp del]

definition inet_ntoa :: "byte list \<Rightarrow> string" where
  "inet_ntoa bs =
     dec_string (unat (bs ! 0)) @ ''.'' @ dec_string (unat (bs ! 1)) @ ''.'' @
     dec_string (unat (bs ! 2)) @ ''.'' @ dec_string (unat (bs ! 3))"

fun split_at_char :: "char \<Rightarrow> string \<Rightarrow> string list" where
  "split_at_char c [] = [[]]"
| "split_at_char c (x # xs) =
     (if x = c then [] # split_at_char c xs
      else (case split_at_char c xs of [] \<Rightarrow> [[x]] | s # ss \<Rightarrow> (x # s) # ss))"

definition dec_value :: "char \<Rightarrow> nat option" where
  "dec_value c = (let n = of_char c :: nat in if 48 \<le> n \<and> n \<le> 57 then Some (n - 48) else None)"

definition dec_parse :: "string \<Rightarrow> nat option" where
  "dec_parse s =
     (if s = [] then None
      else fold (\<lambda>c acc. Option.bind acc (\<lambda>n. map_option (\<lambda>d. 10 * n + d) (dec_value c))) s (Some 0))"

text \<open>\<open>inet_aton\<close> on the dotted quads that \<open>inet_ntoa\<close> makes; \<open>None\<close> is the return value 0.\<close>

definition inet_aton :: "string \<Rightarrow> byte list option" where
  "inet_aton s =
     (case map dec_parse (split_at_char (CHR ''.'') s) of
        [Some a, Some b, Some c, Some d] \<Rightarrow>
          if a < 256 \<and> b < 256 \<and> c < 256 \<and> d < 256
          then Some [of_nat a, of_nat b, of_nat c, of_nat d] else None
      | _ \<Rightarrow> None)"

lemma dec_digit_cases: "n < 10 \<Longrightarrow> n \<in> {0, 1, 2, 3, 4, 5, 6, 7, 8, 9 :: nat}"
  by (simp add: numeral_eq_Suc less_Suc_eq)

lemma dec_value_digit [simp]: "n < 10 \<Longrightarrow> dec_value (dec_digit n) = Some n"
  by (drule dec_digit_cases) (auto simp: dec_value_def dec_digit_def)

lemma dec_digit_dot [simp]: "n < 10 \<Longrightarrow> dec_digit n \<noteq> CHR ''.''"
  by (drule dec_digit_cases) (auto simp: dec_digit_def)

lemma dec_string_nonempty [simp]: "dec_string n \<noteq> []"
  by (subst dec_string.simps) simp

lemma dec_string_dots: "CHR ''.'' \<notin> set (dec_string n)"
proof (induction n rule: dec_string.induct)
  case (1 n)
  moreover have "dec_digit (n mod 10) \<noteq> CHR ''.''" by simp
  ultimately show ?case
    by (cases "n < 10") (auto simp: dec_string.simps [of n] dest: dec_digit_dot simp del: dec_digit_dot)
qed

lemma fold_dec_string:
  "fold (\<lambda>c acc. Option.bind acc (\<lambda>n. map_option (\<lambda>d. 10 * n + d) (dec_value c)))
     (dec_string n) (Some 0) = Some n"
proof (induction n rule: dec_string.induct)
  case (1 n)
  show ?case
  proof (cases "n < 10")
    case True
    then show ?thesis by (simp add: dec_string.simps [of n])
  next
    case False
    with 1 show ?thesis by (simp add: dec_string.simps [of n])
  qed
qed

lemma dec_parse_string [simp]: "dec_parse (dec_string n) = Some n"
  by (simp add: dec_parse_def fold_dec_string)

lemma split_at_char_nonempty [simp]: "split_at_char c s \<noteq> []"
  by (induction s) (auto split: list.splits)

lemma split_at_char_append: "c \<notin> set s \<Longrightarrow> split_at_char c (s @ c # t) = s # split_at_char c t"
  by (induction s) auto

lemma split_at_char_none: "c \<notin> set s \<Longrightarrow> split_at_char c s = [s]"
  by (induction s) auto

lemma four_bytes: "length bs = 4 \<Longrightarrow> \<exists>a b c d. bs = [a, b, c, d]"
  by (auto simp: numeral_eq_Suc length_Suc_conv)

lemma inet_aton_ntoa: "length bs = 4 \<Longrightarrow> inet_aton (inet_ntoa bs) = Some bs"
  by (auto dest!: four_bytes
      simp: inet_ntoa_def inet_aton_def split_at_char_append split_at_char_none dec_string_dots)

section \<open>Checksums\<close>

definition be16 :: "u16 \<Rightarrow> byte list" where
  "be16 w = [of_nat (unat w div 256), of_nat (unat w)]"

definition le16 :: "u16 \<Rightarrow> byte list" where
  "le16 w = [of_nat (unat w), of_nat (unat w div 256)]"

definition be32 :: "u32 \<Rightarrow> byte list" where
  "be32 w = rev (u32_bytes w)"

text \<open>
  \<open>Device::ipHeaderChecksum\<close>: an accumulator of 32 bits starting at \<open>0xffff\<close>, the words in network
  order (an odd last byte is the high half of a word), and an end-around carry after each addition.
\<close>

definition ip_add :: "u32 \<Rightarrow> nat \<Rightarrow> u32" where
  "ip_add acc w = (let acc = acc + of_nat w in if acc > 65535 then acc - 65535 else acc)"

fun ip_acc :: "byte list \<Rightarrow> u32 \<Rightarrow> u32" where
  "ip_acc (b0 # b1 # bs) acc = ip_acc bs (ip_add acc (256 * unat b0 + unat b1))"
| "ip_acc [b0] acc = ip_add acc (256 * unat b0)"
| "ip_acc [] acc = acc"

definition ipHeaderChecksum :: "byte list \<Rightarrow> u16" where
  "ipHeaderChecksum vdData = ucast (not (ip_acc vdData 65535))"

text \<open>
  \<open>Device::icmpHeaderChecksum\<close>: an \<open>int\<close> sum of the words in host order, folded twice; an odd last
  byte is the low half of a word.
\<close>

fun icmp_sum :: "byte list \<Rightarrow> nat" where
  "icmp_sum (b0 # b1 # bs) = (unat b0 + 256 * unat b1) + icmp_sum bs"
| "icmp_sum [b0] = unat b0"
| "icmp_sum [] = 0"

definition icmpHeaderChecksum :: "byte list \<Rightarrow> u16" where
  "icmpHeaderChecksum usData =
     (let sum = icmp_sum usData;
          sum = sum div 65536 + sum mod 65536;
          sum = sum + sum div 65536
      in not (of_nat sum))"

text \<open>The sum of the words in network order, as a reference.\<close>

fun sum16 :: "byte list \<Rightarrow> nat" where
  "sum16 (b0 # b1 # bs) = 256 * unat b0 + unat b1 + sum16 bs"
| "sum16 [b0] = 256 * unat b0"
| "sum16 [] = 0"

lemma byte_le: "unat (b :: byte) \<le> 255"
  using unat_byte_less [of b] by linarith

lemma ip_add_unat:
  assumes "unat acc \<le> 65535" "w \<le> 65535"
  shows "unat (ip_add acc w) = (if unat acc + w > 65535 then unat acc + w - 65535 else unat acc + w)"
proof -
  have "unat (acc + of_nat w) = (unat acc + unat (of_nat w :: u32)) mod 4294967296"
    by (simp add: unat_word_ariths)
  then have s: "unat (acc + of_nat w) = unat acc + w" using assms by (simp add: unat_u32_id)
  have gt: "acc + of_nat w > 65535 \<longleftrightarrow> unat acc + w > 65535"
    using s by (simp add: word_less_nat_alt)
  show ?thesis
  proof (cases "unat acc + w > 65535")
    case True
    then have "(65535 :: u32) \<le> acc + of_nat w" using gt by simp
    then have "unat (acc + of_nat w - 65535) = unat acc + w - 65535"
      using s by (simp add: unat_sub)
    with True gt show ?thesis by (simp add: ip_add_def Let_def)
  next
    case False
    with gt s show ?thesis by (simp add: ip_add_def Let_def)
  qed
qed

lemma ip_acc_inv:
  assumes "1 \<le> unat acc" "unat acc \<le> 65535"
  shows "1 \<le> unat (ip_acc bs acc) \<and> unat (ip_acc bs acc) \<le> 65535 \<and>
    unat (ip_acc bs acc) mod 65535 = (unat acc + sum16 bs) mod 65535"
  using assms
proof (induction bs acc rule: ip_acc.induct)
  case (1 b0 b1 bs acc)
  define w where "w = 256 * unat b0 + unat b1"
  have w: "w \<le> 65535" using byte_le [of b0] byte_le [of b1] by (simp add: w_def)
  note a = ip_add_unat [OF "1.prems"(2) w]
  have "1 \<le> unat (ip_add acc w)" "unat (ip_add acc w) \<le> 65535" using "1.prems" w a by auto
  note IH = "1.IH" [folded w_def, OF this]
  have "(unat (ip_add acc w) + sum16 bs) mod 65535 = (unat acc + w + sum16 bs) mod 65535"
    unfolding a by (auto simp: mod_simps le_mod_geq)
  with IH show ?case by (simp add: w_def add.assoc)
next
  case (2 b0 acc)
  have w: "256 * unat b0 \<le> 65535" using byte_le [of b0] by simp
  note a = ip_add_unat [OF "2.prems"(2) w]
  from "2.prems" w show ?case by (auto simp: a le_mod_geq)
qed simp

lemma sum16_append: "even (length xs) \<Longrightarrow> sum16 (xs @ ys) = sum16 xs + sum16 ys"
  by (induction xs rule: sum16.induct) auto

lemma icmp_sum_append: "even (length xs) \<Longrightarrow> icmp_sum (xs @ ys) = icmp_sum xs + icmp_sum ys"
  by (induction xs rule: icmp_sum.induct) auto

lemma unat_not_u32: "unat (not (x :: u32)) = 4294967295 - unat x"
proof -
  have "not x = - 1 - x" by (simp add: not_eq_complement)
  moreover have "unat (- 1 - x) = unat (- 1 :: u32) - unat x" by (simp add: unat_sub)
  moreover have "unat (- 1 :: u32) = 4294967295" by (simp add: unsigned_minus_1_eq_mask mask_eq_exp_minus_1)
  ultimately show ?thesis by simp
qed

lemma unat_not_u16: "unat (not (x :: u16)) = 65535 - unat x"
proof -
  have "not x = - 1 - x" by (simp add: not_eq_complement)
  moreover have "unat (- 1 - x) = unat (- 1 :: u16) - unat x" by (simp add: unat_sub)
  moreover have "unat (- 1 :: u16) = 65535" by (simp add: unsigned_minus_1_eq_mask mask_eq_exp_minus_1)
  ultimately show ?thesis by simp
qed

lemma unat_ipHeaderChecksum:
  assumes "unat (ip_acc bs 65535) \<le> 65535"
  shows "unat (ipHeaderChecksum bs) = 65535 - unat (ip_acc bs 65535)"
proof -
  let ?n = "unat (ip_acc bs 65535)"
  have "unat (ipHeaderChecksum bs) = (4294967295 - ?n) mod 65536"
    by (simp add: ipHeaderChecksum_def unat_not_u32 unsigned_ucast_eq take_bit_eq_mod)
  also have "4294967295 - ?n = (65535 - ?n) + 65535 * 65536" using assms by simp
  also have "((65535 - ?n) + 65535 * 65536) mod 65536 = (65535 - ?n) mod 65536"
    by (rule mod_mult_self1)
  also have "\<dots> = 65535 - ?n" by simp
  finally show ?thesis .
qed

lemma unat_u16_less [simp]: "unat (w :: u16) < 65536"
  using unsigned_less [where w = w and 'a = nat] by simp

lemma sum16_be16 [simp]: "sum16 (be16 w) = unat w"
proof -
  have "unat w div 256 < 256" using unat_u16_less [of w] by (simp add: div_less_iff_less_mult)
  then show ?thesis by (simp add: be16_def del: of_nat_unat)
qed

lemma icmp_sum_le16 [simp]: "icmp_sum (le16 w) = unat w"
proof -
  have "unat w div 256 < 256" using unat_u16_less [of w] by (simp add: div_less_iff_less_mult)
  then show ?thesis by (simp add: le16_def del: of_nat_unat)
qed

text \<open>C39: The checksum that \<open>ipHeaderChecksum\<close> computes over a header whose checksum field is zero makes
  the header valid: with the checksum in its place the ones' complement sum of all words is \<open>0xffff\<close>,
  which is what a receiver checks.\<close>

theorem ip_checksum_valid:
  assumes "even (length pre)"
  shows "ip_acc (pre @ be16 (ipHeaderChecksum (pre @ [0, 0] @ post)) @ post) 65535 = 65535"
proof -
  let ?h = "pre @ [0, 0] @ post"
  let ?c = "ipHeaderChecksum ?h"
  let ?a = "unat (ip_acc ?h 65535)" and ?b = "unat (ip_acc (pre @ be16 ?c @ post) 65535)"
  have "length (be16 ?c) = 2" by (simp add: be16_def)
  then have s: "sum16 (pre @ be16 ?c @ post) = sum16 ?h + unat ?c"
    using assms by (simp add: sum16_append)
  note ha = ip_acc_inv [of 65535 ?h, simplified]
  note hb = ip_acc_inv [of 65535 "pre @ be16 ?c @ post", unfolded s, simplified]
  have c: "unat ?c = 65535 - ?a" using ha by (intro unat_ipHeaderChecksum) simp
  have "?b mod 65535 = (sum16 ?h mod 65535 + unat ?c) mod 65535" using hb by (simp add: mod_simps)
  also have "sum16 ?h mod 65535 = ?a mod 65535" using ha by simp
  also have "(?a mod 65535 + unat ?c) mod 65535 = (?a + (65535 - ?a)) mod 65535"
    by (simp only: c mod_simps)
  also have "\<dots> = 0" using ha by simp
  finally have "?b mod 65535 = 0" .
  with hb have "?b = 65535" by (auto simp: mod_eq_0_iff_dvd elim!: dvdE)
  then show ?thesis by (simp add: word_unat_eq_iff)
qed

lemma ip_checksum_valid_witness:
  "ip_acc ([69, 0, 0, 84] @ be16 (ipHeaderChecksum ([69, 0, 0, 84] @ [0, 0] @ [10, 0])) @ [10, 0])
     65535 = 65535"
  by (rule ip_checksum_valid) simp

definition fold16 :: "nat \<Rightarrow> nat" where
  "fold16 s = (let f = s div 65536 + s mod 65536 in (f + f div 65536) mod 65536)"

lemma fold16_less: "fold16 s < 65536"
  by (simp add: fold16_def Let_def)

lemma fold16_laws:
  fixes s :: nat
  assumes "s < 2147483648"
  shows "fold16 s mod 65535 = s mod 65535" and "fold16 s = 0 \<longleftrightarrow> s = 0"
proof -
  define f where "f = s div 65536 + s mod 65536"
  have fold: "fold16 s = (f + f div 65536) mod 65536" by (simp add: fold16_def f_def Let_def)
  have q: "s div 65536 < 32768" using assms(1) by (simp add: div_less_iff_less_mult)
  have s: "s = s div 65536 * 65535 + f" using div_mult_mod_eq [of s 65536] by (simp add: f_def)
  have f: "f < 98304" using q mod_less_divisor [of 65536 s] by (simp add: f_def)
  have sf: "s mod 65535 = f mod 65535"
    using s by (metis add.commute mod_mult_self1)
  show "fold16 s mod 65535 = s mod 65535"
  proof (cases "f < 65536")
    case True
    then show ?thesis by (simp add: sf fold)
  next
    case False
    then have "f div 65536 = 1" using f by simp
    with False f show ?thesis by (simp add: sf fold le_mod_geq)
  qed
  have "f = 0 \<longleftrightarrow> s = 0"
  proof
    assume "f = 0"
    then have "s div 65536 = 0" "s mod 65536 = 0" by (simp_all add: f_def)
    then show "s = 0" using div_mult_mod_eq [of s 65536] by simp
  qed (simp add: f_def)
  moreover have "(f + f div 65536) mod 65536 = 0 \<longleftrightarrow> f = 0"
  proof (cases "f < 65536")
    case False
    then have "f div 65536 = 1" using f by simp
    with False f show ?thesis by (simp add: le_mod_geq)
  qed simp
  ultimately show "fold16 s = 0 \<longleftrightarrow> s = 0" by (simp add: fold)
qed

lemma eq_65535: "x \<noteq> 0 \<Longrightarrow> x < 65536 \<Longrightarrow> x mod 65535 = 0 \<Longrightarrow> x = 65535" for x :: nat
  by (auto simp: mod_eq_0_iff_dvd elim!: dvdE)

lemma unat_icmpHeaderChecksum: "unat (icmpHeaderChecksum bs) = 65535 - fold16 (icmp_sum bs)"
  by (simp add: icmpHeaderChecksum_def fold16_def Let_def unat_not_u16 unat_of_nat del: of_nat_add)

text \<open>The checksum that \<open>icmpHeaderChecksum\<close> computes over an ICMP message whose checksum field is
  zero makes the message valid: computed again with the field filled in, it is 0. The bound is far
  above the 20 bytes the code passes; below it the sum stays in the range of \<open>int\<close>.\<close>

theorem icmp_checksum_valid:
  assumes "even (length pre)" and "icmp_sum (pre @ [0, 0] @ post) < 2147400000"
  shows "icmpHeaderChecksum (pre @ le16 (icmpHeaderChecksum (pre @ [0, 0] @ post)) @ post) = 0"
proof -
  define m where "m = pre @ [0, 0] @ post"
  define c where "c = icmpHeaderChecksum m"
  define s where "s = icmp_sum m"
  have "length (le16 c) = 2" by (simp add: le16_def)
  then have sum: "icmp_sum (pre @ le16 c @ post) = s + unat c"
    using assms(1) by (simp add: icmp_sum_append s_def m_def)
  have c: "unat c = 65535 - fold16 s" by (simp add: unat_icmpHeaderChecksum c_def s_def)
  have s: "s < 2147483648" using assms(2) by (simp add: s_def m_def)
  have sc: "s + unat c < 2147483648"
    using assms(2) unat_u16_less [of c] unfolding s_def m_def by linarith
  have "fold16 (s + unat c) mod 65535 = (fold16 s mod 65535 + unat c) mod 65535"
    using fold16_laws(1) [OF sc] fold16_laws(1) [OF s] by (simp add: mod_simps)
  also have "\<dots> = (fold16 s + (65535 - fold16 s)) mod 65535" by (simp only: c mod_simps)
  also have "\<dots> = 0" using fold16_less [of s] by simp
  finally have z: "fold16 (s + unat c) mod 65535 = 0" .
  have "s + unat c \<noteq> 0" using fold16_laws(2) [OF s] c by auto
  then have "fold16 (s + unat c) \<noteq> 0" using fold16_laws(2) [OF sc] by simp
  then have "fold16 (s + unat c) = 65535" using fold16_less z by (rule eq_65535)
  then have "unat (icmpHeaderChecksum (pre @ le16 c @ post)) = 0"
    unfolding unat_icmpHeaderChecksum sum by simp
  then show ?thesis unfolding c_def m_def by (simp only: unat_eq_zero)
qed

lemma icmp_checksum_valid_witness:
  "icmpHeaderChecksum ([8, 0] @ le16 (icmpHeaderChecksum ([8, 0] @ [0, 0] @ [1, 2, 57, 48])) @
     [1, 2, 57, 48]) = 0"
  by (rule icmp_checksum_valid) simp_all

section \<open>Ethernet, IP and ICMP packets\<close>

text \<open>\<open>Wire::wrapInEthernetFrame\<close>: \<open>memcpy\<close> from a null pointer when an address does not parse.\<close>

definition wrapInEthernetFrame :: "string \<Rightarrow> string \<Rightarrow> u16 \<Rightarrow> byte list \<Rightarrow> byte list result" where
  "wrapInEthernetFrame strSourceMAC strDestinationMAC usEtherType vdPayload =
     (case (ether_aton strSourceMAC, ether_aton strDestinationMAC) of
        (Some eaSource, Some eaDestination) \<Rightarrow>
          Inr (eaDestination @ eaSource @ be16 usEtherType @ vdPayload)
      | _ \<Rightarrow> Inl NullDeref)"

text \<open>
  The IP header of \<open>Device::sendPing\<close>: \<open>ihl\<close> is a field of four bits, so the 21 assigned to it is 5;
  \<open>frag_off\<close> is assigned \<open>0x0040\<close> in host order; the two checksum bytes are a parameter.
\<close>

definition ip_header :: "byte list \<Rightarrow> byte list \<Rightarrow> byte list \<Rightarrow> byte list" where
  "ip_header check saddr daddr =
     [of_nat (4 * 16 + 21 mod 16), 0] @ be16 84 @ [0, 0] @ le16 64 @ [64, 1] @ check @ saddr @ daddr"

text \<open>The first 20 bytes of the ICMP message: type, code, checksum, id, sequence and three times.\<close>

definition icmp_packet :: "byte list \<Rightarrow> u16 \<Rightarrow> u32 \<Rightarrow> byte list" where
  "icmp_packet cksum pid tsorig =
     [8, 0] @ cksum @ le16 pid @ le16 12345 @ be32 tsorig @ be32 0 @ be32 0"

definition ping_packet :: "byte list \<Rightarrow> byte list \<Rightarrow> u16 \<Rightarrow> u32 \<Rightarrow> byte list" where
  "ping_packet saddr daddr pid tsorig =
     ip_header (be16 (ipHeaderChecksum (ip_header [0, 0] saddr daddr))) saddr daddr @
     icmp_packet (le16 (icmpHeaderChecksum (icmp_packet [0, 0] pid tsorig))) pid tsorig"

text \<open>
  What \<open>Network::detectNetworkActivity\<close> reads from a frame: \<open>h_source\<close>, \<open>h_proto\<close> in host order and
  the sender of the IP header behind the Ethernet header.
\<close>

definition frame_source :: "byte list \<Rightarrow> byte list" where
  "frame_source buf = take 6 (drop 6 buf)"

definition frame_proto :: "byte list \<Rightarrow> nat" where
  "frame_proto buf = 256 * unat (buf ! 12) + unat (buf ! 13)"

definition frame_saddr :: "byte list \<Rightarrow> byte list" where
  "frame_saddr buf = take 4 (drop (14 + 12) buf)"

lemma ip_header_valid:
  "ip_acc (ip_header (be16 (ipHeaderChecksum (ip_header [0, 0] saddr daddr))) saddr daddr) 65535 =
     65535"
  using ip_checksum_valid [of "[of_nat (4 * 16 + 21 mod 16), 0] @ be16 84 @ [0, 0] @ le16 64 @ [64, 1]"
      "saddr @ daddr"]
  by (simp add: ip_header_def be16_def le16_def)

text \<open>The two routines that turn a MAC address into text agree, so that comparing the address of a
  device (written by \<open>sprintf\<close> into an uninitialised buffer) with the source of a frame (written to a
  stream) compares the addresses; and reading the text back gives the address.\<close>

theorem mac_text_agrees:
  assumes "length sa_data = 6" and "length carrBuffer = 17"
  shows "device_mac carrBuffer sa_data = network_mac sa_data \<and>
    ether_aton (network_mac sa_data) = Some sa_data"
proof -
  from six_bytes [OF assms(1)] list17 [OF assms(2)] have "device_mac carrBuffer sa_data = network_mac sa_data"
    by (auto simp: device_mac_def network_mac_six)
  with ether_aton_network_mac [OF assms(1)] show ?thesis by simp
qed

lemma mac_text_agrees_witness:
  "device_mac (replicate 17 CHR ''?'') [0, 205, 254, 1, 2, 255] = ''00:cd:fe:01:02:ff''"
proof -
  have 1: "length [0, 205, 254, 1, 2, 255 :: byte] = 6" by simp
  have 2: "length (replicate 17 CHR ''?'') = 17" by simp
  have "network_mac [0, 205, 254, 1, 2, 255] = ''00:cd:fe:01:02:ff''"
    by (simp add: network_mac_six hex_hi_def hex_lo_def hex_digit_def)
  with mac_text_agrees [OF 1 2] show ?thesis by simp
qed

text \<open>Formatting the address of a device with \<open>sprintf\<close> writes exactly one character behind the
  buffer of 17: the terminating zero of the last byte, at index 17.\<close>

theorem mac_buffer_overrun:
  assumes "length sa_data = 6"
  shows "filter (\<lambda>(i, c). 17 \<le> i) (mac_writes 0 0 sa_data) = [(17, CHR 0x00)]"
  using six_bytes [OF assms] by auto

lemma mac_buffer_overrun_witness:
  "filter (\<lambda>(i, c). 17 \<le> i) (mac_writes 0 0 [0, 205, 254, 1, 2, 255]) = [(17, CHR 0x00)]"
  by (rule mac_buffer_overrun) simp

end
