(* ===== verification/Devices.thy ===== *)
theory Devices
  imports Frames
begin

text \<open>
  \<open>macdetectd/src/Device.cpp\<close>: a network interface under observation. What the code asks the
  operating system for is the record \<open>net_env\<close>, one for each cycle of the daemon: the answers of the
  \<open>ioctl\<close> calls by interface name, the clock by the number of its reading, the frame waiting on each
  raw socket, and the two library services without a model here, reverse name lookup and
  \<open>std::regex\<close>. Times are real numbers where the code has \<open>double\<close>: rounding is not modelled.
\<close>

datatype HardwareType = Loopback | Wired | Wireless

record device =
  m_strDeviceName :: string
  m_hwtType :: HardwareType
  m_bUp :: bool
  m_bRunning :: bool
  m_strMAC :: string
  m_strIP :: string
  m_strBroadcastIP :: string
  m_dPingBroadcastLastSent :: time

record net_env =
  clock :: "nat \<Rightarrow> time"                          \<comment> \<open>\<open>clock_gettime\<close>, by reading\<close>
  ifconf :: "string list option"                 \<comment> \<open>\<open>SIOCGIFCONF\<close>; \<open>None\<close> when it fails\<close>
  hwaddr :: "string \<Rightarrow> byte list"                 \<comment> \<open>\<open>SIOCGIFHWADDR\<close>\<close>
  flag_up :: "string \<Rightarrow> bool"                     \<comment> \<open>\<open>IFF_UP\<close> of \<open>SIOCGIFFLAGS\<close>\<close>
  flag_running :: "string \<Rightarrow> bool"                \<comment> \<open>\<open>IFF_RUNNING\<close>\<close>
  flag_loopback :: "string \<Rightarrow> bool"               \<comment> \<open>\<open>IFF_LOOPBACK\<close>\<close>
  has_wireless_name :: "string \<Rightarrow> bool"           \<comment> \<open>\<open>SIOCGIWNAME\<close> succeeds\<close>
  if_addr :: "string \<Rightarrow> byte list"                \<comment> \<open>\<open>SIOCGIFADDR\<close>\<close>
  if_brdaddr :: "string \<Rightarrow> byte list"             \<comment> \<open>\<open>SIOCGIFBRDADDR\<close>\<close>
  frame_in :: "string \<Rightarrow> nat \<Rightarrow> recv_res"         \<comment> \<open>\<open>recvfrom\<close> on the raw socket\<close>
  hostname_of :: "string \<Rightarrow> string option"        \<comment> \<open>\<open>gethostbyaddr\<close>\<close>
  regex_match :: "string \<Rightarrow> string \<Rightarrow> bool option" \<comment> \<open>pattern, text; \<open>None\<close> when the pattern is malformed\<close>
  getpid :: u16
  icmp_time :: u32                               \<comment> \<open>milliseconds since midnight\<close>
  format_junk :: string                          \<comment> \<open>17 characters of stack\<close>

definition new_device :: "string \<Rightarrow> HardwareType \<Rightarrow> device" where
  "new_device strDeviceName hwtType =
     \<lparr>m_strDeviceName = strDeviceName, m_hwtType = hwtType, m_bUp = False, m_bRunning = False,
      m_strMAC = [], m_strIP = [], m_strBroadcastIP = [], m_dPingBroadcastLastSent = 0\<rparr>"

text \<open>\<open>mac()\<close> asks the system once and keeps the answer in the object.\<close>

definition mac_of :: "net_env \<Rightarrow> device \<Rightarrow> string \<times> device" where
  "mac_of env dv =
     (if m_strMAC dv = [] then
        let strDeviceMAC = device_mac (format_junk env) (hwaddr env (m_strDeviceName dv)) in
        (strDeviceMAC, dv\<lparr>m_strMAC := strDeviceMAC\<rparr>)
      else (m_strMAC dv, dv))"

definition setIP :: "string \<Rightarrow> device \<Rightarrow> device" where
  "setIP strIP dv = dv\<lparr>m_strIP := strIP\<rparr>"

definition setBroadcastIP :: "string \<Rightarrow> device \<Rightarrow> device" where
  "setBroadcastIP strIP dv = dv\<lparr>m_strBroadcastIP := strIP\<rparr>"

definition setUp :: "bool \<Rightarrow> device \<Rightarrow> device" where
  "setUp b dv = dv\<lparr>m_bUp := b\<rparr>"

definition setRunning :: "bool \<Rightarrow> device \<Rightarrow> device" where
  "setRunning b dv = dv\<lparr>m_bRunning := b\<rparr>"

text \<open>\<open>read\<close>: one frame of at most \<open>ETH_FRAME_LEN\<close> bytes, in a zeroed buffer of that size.\<close>

definition ETH_FRAME_LEN :: nat where
  "ETH_FRAME_LEN = 1514"

definition read_frame :: "net_env \<Rightarrow> device \<Rightarrow> byte list \<times> int" where
  "read_frame env dv = bufferedRead (frame_in env (m_strDeviceName dv)) ETH_FRAME_LEN"

text \<open>
  \<open>sendPing\<close>: the frame handed to the raw socket, if any; addresses that do not parse leave
  \<open>in_addr\<close> uninitialised. The \<open>memcpy\<close> of the ICMP message copies \<open>sizeof(struct icmp)\<close>, 28 bytes,
  where the code leaves room for 20; the frame holds the first 20 of them.
\<close>

definition sendPing :: "net_env \<Rightarrow> string \<Rightarrow> string \<Rightarrow> device \<Rightarrow> (byte list option \<times> device) result" where
  "sendPing env strDestinationIP strDestinationMAC dv =
     (if m_strIP dv \<noteq> [] \<and> m_strBroadcastIP dv \<noteq> [] then
        (case (inet_aton (m_strIP dv), inet_aton strDestinationIP) of
           (Some saddr, Some daddr) \<Rightarrow>
             (let (strMAC, dv) = mac_of env dv in
              bind_r (wrapInEthernetFrame strMAC strDestinationMAC 2048
                        (ping_packet saddr daddr (getpid env) (icmp_time env)))
                (\<lambda>frame. Inr (Some frame, dv)))
         | _ \<Rightarrow> Inl Uninitialised)
      else Inr (None, dv))"

definition sendPingBroadcast ::
  "net_env \<Rightarrow> time \<Rightarrow> time \<Rightarrow> device \<Rightarrow> (byte list option \<times> device) result" where
  "sendPingBroadcast env dTime dInterval dv =
     (if dTime \<ge> m_dPingBroadcastLastSent dv + dInterval then
        sendPing env ''255.255.255.255'' ''ff:ff:ff:ff:ff:ff''
          (dv\<lparr>m_dPingBroadcastLastSent := dTime\<rparr>)
      else Inr (None, dv))"

section \<open>Lemmas\<close>

text \<open>What the environment is known to return: addresses of their length, a stack buffer of its size.\<close>

definition env_ok :: "net_env \<Rightarrow> bool" where
  "env_ok env \<longleftrightarrow>
     (\<forall>d. length (hwaddr env d) = 6 \<and> length (if_addr env d) = 4 \<and> length (if_brdaddr env d) = 4) \<and>
     length (format_junk env) = 17 \<and> (\<forall>n. 0 \<le> clock env n) \<and>
     (\<forall>d n bs. frame_in env d n = Received bs \<longrightarrow> length bs \<le> n)"

text \<open>
  The texts a device caches are what the system said: no address yet or a dotted quad, no MAC yet or
  the text of six bytes.
\<close>

definition ip_text :: "string \<Rightarrow> bool" where
  "ip_text s \<longleftrightarrow> s = [] \<or> inet_aton s \<noteq> None"

definition mac_text :: "string \<Rightarrow> bool" where
  "mac_text s \<longleftrightarrow> s = [] \<or> (\<exists>bs. length bs = 6 \<and> s = network_mac bs)"

definition device_ok :: "device \<Rightarrow> bool" where
  "device_ok dv \<longleftrightarrow> ip_text (m_strIP dv) \<and> ip_text (m_strBroadcastIP dv) \<and> mac_text (m_strMAC dv)"

lemma device_ok_new [simp]: "device_ok (new_device d hw)"
  by (simp add: device_ok_def new_device_def ip_text_def mac_text_def)

lemma device_mac_env: "env_ok env \<Longrightarrow> device_mac (format_junk env) (hwaddr env d) = network_mac (hwaddr env d)"
  using six_bytes [of "hwaddr env d"] list17 [of "format_junk env"]
  by (auto simp: env_ok_def device_mac_def network_mac_six)

lemma mac_of_name [simp]: "m_strDeviceName (snd (mac_of env dv)) = m_strDeviceName dv"
  by (simp add: mac_of_def Let_def)

lemma mac_of_ok:
  assumes "env_ok env" "device_ok dv"
  shows "device_ok (snd (mac_of env dv)) \<and> (\<exists>bs. length bs = 6 \<and> fst (mac_of env dv) = network_mac bs)"
  using assms device_mac_env [OF assms(1), of "m_strDeviceName dv"]
  by (auto simp: mac_of_def device_ok_def mac_text_def Let_def env_ok_def)

lemma mac_of_idem: "env_ok env \<Longrightarrow> mac_of env (snd (mac_of env dv)) = (fst (mac_of env dv), snd (mac_of env dv))"
  by (simp add: mac_of_def Let_def)

lemma inet_aton_broadcast: "inet_aton ''255.255.255.255'' = Some [255, 255, 255, 255]"
  by (simp add: inet_aton_def dec_parse_def dec_value_def)

lemma ether_aton_broadcast: "ether_aton ''ff:ff:ff:ff:ff:ff'' = Some [255, 255, 255, 255, 255, 255]"
  by (simp add: ether_aton_def numeral_eq_Suc hex_value_def)

lemma ip_text_ntoa: "length bs = 4 \<Longrightarrow> ip_text (inet_ntoa bs)"
  by (simp add: ip_text_def inet_aton_ntoa)

text \<open>A ping is sent without a fault, and the device stays well formed.\<close>

lemma sendPing_ok:
  assumes "env_ok env" "device_ok dv"
  shows "\<exists>out dv'. sendPing env ''255.255.255.255'' ''ff:ff:ff:ff:ff:ff'' dv = Inr (out, dv') \<and>
    device_ok dv' \<and> m_strDeviceName dv' = m_strDeviceName dv"
proof (cases "m_strIP dv \<noteq> [] \<and> m_strBroadcastIP dv \<noteq> []")
  case True
  with assms(2) obtain saddr where s: "inet_aton (m_strIP dv) = Some saddr"
    by (auto simp: device_ok_def ip_text_def)
  obtain mac dv' where m: "mac_of env dv = (mac, dv')" by (cases "mac_of env dv")
  with mac_of_ok [OF assms] obtain bs where bs: "length bs = 6" "mac = network_mac bs" "device_ok dv'"
    by auto
  from m have "m_strDeviceName dv' = m_strDeviceName dv" using mac_of_name [of env dv] by simp
  with True s m bs show ?thesis
    by (simp add: sendPing_def inet_aton_broadcast wrapInEthernetFrame_def ether_aton_broadcast
        ether_aton_network_mac)
next
  case False
  with assms show ?thesis by (auto simp: sendPing_def)
qed

lemma sendPingBroadcast_ok:
  assumes "env_ok env" "device_ok dv"
  shows "\<exists>out dv'. sendPingBroadcast env t i dv = Inr (out, dv') \<and>
    device_ok dv' \<and> m_strDeviceName dv' = m_strDeviceName dv"
proof (cases "t \<ge> m_dPingBroadcastLastSent dv + i")
  case True
  have "device_ok (dv\<lparr>m_dPingBroadcastLastSent := t\<rparr>)" using assms(2) by (simp add: device_ok_def)
  from sendPing_ok [OF assms(1) this] True show ?thesis by (simp add: sendPingBroadcast_def)
next
  case False
  with assms show ?thesis by (simp add: sendPingBroadcast_def)
qed

end
