(* ===== verification/Events.thy ===== *)
theory Events
  imports Prelude
begin

text \<open>
  \<open>macdetectd/src/Event.cpp\<close>: the events that the network schedules and the daemon turns into
  messages. \<open>DeviceEvent\<close> and its subclass \<open>MACEvent\<close> are the two classes the code creates. The two
  state flags are not initialised by the constructor: \<open>None\<close> until a setter is called.
\<close>

datatype EventType =
    DeviceAdded | DeviceRemoved | DeviceStateChanged | MACAddressDiscovered
  | MACAddressDisappeared | DeviceEvidenceChanged | MACEvidenceChanged

record dev_event =
  ev_type :: EventType
  ev_deviceName :: string
  ev_stateChangeUp :: bool
  ev_stateChangeRunning :: bool
  ev_evidenceField :: string
  ev_evidenceValue :: string
  ev_evidenceValueFormer :: string
  ev_up :: "bool option"
  ev_running :: "bool option"

datatype event = DeviceEvent dev_event | MACEvent dev_event string

fun event_base :: "event \<Rightarrow> dev_event" where
  "event_base (DeviceEvent e) = e"
| "event_base (MACEvent e mac) = e"

definition new_base :: "EventType \<Rightarrow> string \<Rightarrow> dev_event" where
  "new_base tpType strDeviceName =
     \<lparr>ev_type = tpType, ev_deviceName = strDeviceName, ev_stateChangeUp = False,
      ev_stateChangeRunning = False, ev_evidenceField = [], ev_evidenceValue = [],
      ev_evidenceValueFormer = [], ev_up = None, ev_running = None\<rparr>"

definition new_device_event :: "EventType \<Rightarrow> string \<Rightarrow> event" where
  "new_device_event tpType strDeviceName = DeviceEvent (new_base tpType strDeviceName)"

definition new_mac_event :: "EventType \<Rightarrow> string \<Rightarrow> string \<Rightarrow> event" where
  "new_mac_event tpType strDeviceName strMAC = MACEvent (new_base tpType strDeviceName) strMAC"

fun map_base :: "(dev_event \<Rightarrow> dev_event) \<Rightarrow> event \<Rightarrow> event" where
  "map_base f (DeviceEvent e) = DeviceEvent (f e)"
| "map_base f (MACEvent e mac) = MACEvent (f e) mac"

definition event_type :: "event \<Rightarrow> EventType" where
  "event_type e = ev_type (event_base e)"

definition event_deviceName :: "event \<Rightarrow> string" where
  "event_deviceName e = ev_deviceName (event_base e)"

definition setStateChangeUp :: "bool \<Rightarrow> event \<Rightarrow> event" where
  "setStateChangeUp b = map_base (\<lambda>e. e\<lparr>ev_stateChangeUp := b\<rparr>)"

definition setStateChangeRunning :: "bool \<Rightarrow> event \<Rightarrow> event" where
  "setStateChangeRunning b = map_base (\<lambda>e. e\<lparr>ev_stateChangeRunning := b\<rparr>)"

definition event_setUp :: "bool \<Rightarrow> event \<Rightarrow> event" where
  "event_setUp b = map_base (\<lambda>e. e\<lparr>ev_up := Some b\<rparr>)"

definition event_setRunning :: "bool \<Rightarrow> event \<Rightarrow> event" where
  "event_setRunning b = map_base (\<lambda>e. e\<lparr>ev_running := Some b\<rparr>)"

definition setEvidence :: "string \<Rightarrow> string \<Rightarrow> string \<Rightarrow> event \<Rightarrow> event" where
  "setEvidence strField strValue strValueFormer =
     map_base (\<lambda>e. e\<lparr>ev_evidenceField := strField, ev_evidenceValue := strValue,
                      ev_evidenceValueFormer := strValueFormer\<rparr>)"

definition setEvidenceField :: "string \<Rightarrow> event \<Rightarrow> event" where
  "setEvidenceField strField = map_base (\<lambda>e. e\<lparr>ev_evidenceField := strField\<rparr>)"

definition setEvidenceValue :: "string \<Rightarrow> event \<Rightarrow> event" where
  "setEvidenceValue strValue = map_base (\<lambda>e. e\<lparr>ev_evidenceValue := strValue\<rparr>)"

definition setEvidenceValueFormer :: "string \<Rightarrow> event \<Rightarrow> event" where
  "setEvidenceValueFormer strValue = map_base (\<lambda>e. e\<lparr>ev_evidenceValueFormer := strValue\<rparr>)"

text \<open>\<open>std::dynamic_pointer_cast\<close> to \<open>MACEvent\<close>; the cast to \<open>DeviceEvent\<close> is \<open>event_base\<close>.\<close>

fun as_mac_event :: "event \<Rightarrow> (dev_event \<times> string) option" where
  "as_mac_event (DeviceEvent e) = None"
| "as_mac_event (MACEvent e mac) = Some (e, mac)"

fun mac_type :: "EventType \<Rightarrow> bool" where
  "mac_type MACAddressDiscovered = True"
| "mac_type MACAddressDisappeared = True"
| "mac_type MACEvidenceChanged = True"
| "mac_type _ = False"

text \<open>
  What the daemon relies on when it casts: an event of a MAC type is a \<open>MACEvent\<close>, and a state change
  that is flagged has its new state set.
\<close>

definition event_ok :: "event \<Rightarrow> bool" where
  "event_ok e \<longleftrightarrow>
     (mac_type (event_type e) \<longrightarrow> as_mac_event e \<noteq> None) \<and>
     (ev_stateChangeUp (event_base e) \<longrightarrow> ev_up (event_base e) \<noteq> None) \<and>
     (ev_stateChangeRunning (event_base e) \<longrightarrow> ev_running (event_base e) \<noteq> None)"

lemmas event_defs =
  new_device_event_def new_mac_event_def new_base_def event_type_def event_deviceName_def
  setStateChangeUp_def setStateChangeRunning_def event_setUp_def event_setRunning_def
  setEvidence_def event_ok_def

lemma setEvidence_parts:
  "setEvidence f v w e = setEvidenceValueFormer w (setEvidenceValue v (setEvidenceField f e))"
  by (cases e) (simp_all add: event_defs setEvidenceField_def setEvidenceValue_def setEvidenceValueFormer_def)

lemma event_ok_new [simp]:
  "\<not> mac_type tp \<Longrightarrow> event_ok (new_device_event tp d)"
  "event_ok (new_mac_event tp d m)"
  "event_ok (setEvidence f v w e) = event_ok e"
  by (cases e; simp add: event_defs)+

lemma event_ok_state [simp]:
  "\<not> mac_type tp \<Longrightarrow> event_ok (event_setUp b (setStateChangeUp c (new_device_event tp d)))"
  "\<not> mac_type tp \<Longrightarrow> event_ok (event_setRunning b (setStateChangeRunning c (new_device_event tp d)))"
  by (simp_all add: event_defs)

lemma event_type_new [simp]:
  "event_type (new_device_event tp d) = tp" "event_type (new_mac_event tp d m) = tp"
  "event_deviceName (new_device_event tp d) = d" "event_deviceName (new_mac_event tp d m) = d"
  "event_type (setEvidence f v w e) = event_type e"
  "event_deviceName (setEvidence f v w e) = event_deviceName e"
  by (cases e; simp add: event_defs)+

end
