(* ===== verification/Vendors.thy ===== *)
theory Vendors
  imports Prelude
begin

text \<open>
  \<open>macdetectd/src/Data.cpp\<close>: the table that gives the vendor for the first three bytes of a MAC address,
  read from \<open>oui.txt\<close>. Files are a parameter: the content of a path, \<open>None\<close> when it cannot be opened.
\<close>

record vendor =
  bValid :: bool
  strVendor :: string

type_synonym vendors = "(string \<times> vendor) list"

definition blank_or_quote :: string where
  "blank_or_quote = [CHR 0x20, CHR 0x0A, CHR 0x0D, CHR 0x09, CHR 0x22]"

definition to_upper :: "char \<Rightarrow> char" where
  "to_upper c =
     (let n = of_char c :: nat in if 97 \<le> n \<and> n \<le> 122 then char_of (n - 32) else c)"

definition oui_key :: "string \<Rightarrow> string result" where
  "oui_key strMAC =
     bind_r (substr strMAC 0 2) (\<lambda>a.
     bind_r (substr strMAC 3 2) (\<lambda>b.
     bind_r (substr strMAC 6 2) (\<lambda>c. Inr (map to_upper (a @ b @ c)))))"

definition vendorForMAC :: "string \<Rightarrow> vendors \<Rightarrow> vendor result" where
  "vendorForMAC strMAC m_mapVendorsCache =
     bind_r (oui_key strMAC) (\<lambda>strMAC.
       Inr (case smap_get strMAC m_mapVendorsCache of
              Some v \<Rightarrow> v
            | None \<Rightarrow> \<lparr>bValid = False, strVendor = []\<rparr>))"

definition parse_vendor_line :: "string \<Rightarrow> (string \<times> string) result" where
  "parse_vendor_line strLine =
     bind_r (substr strLine 0 6) (\<lambda>strMAC.
     bind_r (substr_from strLine 7) (\<lambda>strVendor.
       let strMAC = erase_trailing blank_or_quote strMAC;
           strVendor = erase_trailing blank_or_quote strVendor in
       bind_r (substr_from strVendor 1) (\<lambda>strVendor. Inr (strMAC, strVendor))))"

definition add_vendor_line :: "string \<Rightarrow> vendors \<Rightarrow> vendors result" where
  "add_vendor_line strLine m =
     bind_r (parse_vendor_line strLine) (\<lambda>(strMAC, strVendor).
       Inr (smap_set strMAC \<lparr>bValid = True, strVendor = strVendor\<rparr> m))"

definition tryReadVendors :: "(string \<Rightarrow> string option) \<Rightarrow> string \<Rightarrow> vendors \<Rightarrow> (bool \<times> vendors) result" where
  "tryReadVendors files strPath m =
     (case files strPath of
        None \<Rightarrow> Inr (False, m)
      | Some content \<Rightarrow> bind_r (fold_r add_vendor_line (get_lines content) m) (\<lambda>m. Inr (True, m)))"

fun try_locations :: "(string \<Rightarrow> string option) \<Rightarrow> string list \<Rightarrow> vendors \<Rightarrow> (bool \<times> vendors) result" where
  "try_locations files [] m = Inr (False, m)"
| "try_locations files (strLocation # ls) m =
     bind_r (tryReadVendors files (strLocation @ ''/oui.txt'') m) (\<lambda>(ok, m).
       if ok then Inr (True, m) else try_locations files ls m)"

text \<open>\<open>executablePath\<close>: the link \<open>/proc/self/exe\<close>, \<open>None\<close> when it cannot be read, without its last part.\<close>

definition executablePath :: "string option \<Rightarrow> string" where
  "executablePath exe =
     (case exe of
        None \<Rightarrow> []
      | Some strPath \<Rightarrow>
          (case find_last (\<lambda>c. c = CHR ''/'') strPath of None \<Rightarrow> strPath | Some i \<Rightarrow> take i strPath))"

definition dataPath :: "string option \<Rightarrow> string" where
  "dataPath exe = executablePath exe @ ''/../data''"

definition readVendors ::
  "string option \<Rightarrow> (string \<Rightarrow> string option) \<Rightarrow> string \<Rightarrow> vendors \<Rightarrow> (bool \<times> vendors) result" where
  "readVendors exe files strFilepath m =
     try_locations files
       (if strFilepath = [] then
          [dataPath exe, ''/usr/local/share/macdetect/data'', ''/usr/share/macdetect/data'']
        else [strFilepath]) m"

section \<open>Lemmas\<close>

lemma oui_key_eq:
  "oui_key s = (if 6 \<le> length s
                then Inr (map to_upper (take 2 s @ take 2 (drop 3 s) @ take 2 (drop 6 s)))
                else Inl OutOfRange)"
  by (auto simp: oui_key_def substr_def)

lemma vendorForMAC_Inr: "6 \<le> length s \<Longrightarrow> \<exists>v. vendorForMAC s m = Inr v"
  by (simp add: vendorForMAC_def oui_key_eq)

definition vendor_entry :: "string \<times> string \<Rightarrow> string \<times> vendor" where
  "vendor_entry = map_prod id (\<lambda>v. \<lparr>bValid = True, strVendor = v\<rparr>)"

lemma map_of_vendor_entry:
  "map_of (map vendor_entry xs) k = map_option (\<lambda>v. \<lparr>bValid = True, strVendor = v\<rparr>) (map_of xs k)"
  by (induction xs) (auto simp: vendor_entry_def)

lemma fold_vendor_lines:
  assumes "\<forall>l \<in> set ls. parse_vendor_line l = Inr (entry l)"
  shows "fold_r add_vendor_line ls m =
    Inr (fold (\<lambda>(k, v). smap_set k v) (map (\<lambda>l. vendor_entry (entry l)) ls) m)"
  using assms
  by (induction ls arbitrary: m)
     (auto simp: add_vendor_line_def vendor_entry_def case_prod_beta)



lemma fold_r_fault:
  "\<exists>x \<in> set xs. \<forall>s. f x s = Inl e \<Longrightarrow> \<forall>x \<in> set xs. \<forall>s e'. f x s = Inl e' \<longrightarrow> e' = e \<Longrightarrow>
     fold_r f xs s = Inl e"
proof (induction xs arbitrary: s)
  case (Cons x xs)
  show ?case
  proof (cases "f x s")
    case (Inl e')
    with Cons.prems(2) have "e' = e" by simp
    with Inl show ?thesis by simp
  next
    case (Inr s')
    from Cons.prems(1) obtain y where y: "y \<in> set (x # xs)" "\<forall>s. f y s = Inl e" by blast
    with Inr have "y \<in> set xs" by fastforce
    with y(2) have "\<exists>x \<in> set xs. \<forall>s. f x s = Inl e" by blast
    moreover have "\<forall>x \<in> set xs. \<forall>s e'. f x s = Inl e' \<longrightarrow> e' = e" using Cons.prems(2) by simp
    ultimately show ?thesis using Cons.IH Inr by simp
  qed
qed simp

lemma substr_errors:
  "substr s a b = Inl e \<Longrightarrow> e = OutOfRange" "substr_from s a = Inl e \<Longrightarrow> e = OutOfRange"
  by (auto simp: substr_def substr_from_def split: if_splits)

lemma add_vendor_line_error: "add_vendor_line l m = Inl e \<Longrightarrow> e = OutOfRange"
  by (auto simp: add_vendor_line_def parse_vendor_line_def Let_def bind_r_Inl_iff
      dest: substr_errors)

text \<open>One line of \<open>oui.txt\<close> with fewer than seven characters, an empty line for instance, is enough
  for the exception \<open>std::out_of_range\<close> to leave \<open>tryReadVendors\<close>, and with it the constructor of the
  network.\<close>

theorem short_vendor_line_throws:
  assumes "files strPath = Some content" and "l \<in> set (get_lines content)" and "length l < 7"
  shows "tryReadVendors files strPath m = Inl OutOfRange"
proof -
  have "add_vendor_line l m = Inl OutOfRange" for m
    using assms(3) by (simp add: add_vendor_line_def parse_vendor_line_def substr_def substr_from_def)
  with assms(2) have "fold_r add_vendor_line (get_lines content) m = Inl OutOfRange"
    by (intro fold_r_fault) (auto dest: add_vendor_line_error)
  with assms(1) show ?thesis by (simp add: tryReadVendors_def)
qed

lemma short_vendor_line_throws_witness:
  "tryReadVendors (\<lambda>p. Some (''00CDFE,'' @ [CHR 0x22] @ ''Apple'' @ [CHR 0x22, CHR 0x0A, CHR 0x0A]))
     ''/d/oui.txt'' [] = Inl OutOfRange"
proof -
  let ?c = "''00CDFE,'' @ [CHR 0x22] @ ''Apple'' @ [CHR 0x22, CHR 0x0A, CHR 0x0A]"
  have 1: "(\<lambda>p. Some ?c) ''/d/oui.txt'' = Some ?c" by simp
  have 2: "[] \<in> set (get_lines ?c)" by simp
  have 3: "length ([] :: string) < 7" by simp
  show ?thesis by (rule short_vendor_line_throws [where files = "\<lambda>p. Some ?c", OF 1 2 3])
qed

end
