(* ===== verification/Network.thy ===== *)
theory Network
  imports Devices Events Vendors
begin

text \<open>
  \<open>macdetectd/src/Network.cpp\<close>: which interfaces are observed, which MAC addresses were seen on them
  and what is known about each. The state is the record \<open>network\<close>, with the names of the members; the
  operations are in the order of the source. Two fields are not in the code: \<open>nw_readings\<close> counts the
  readings of the clock, so that each call of \<open>time()\<close> has its own value, and \<open>nw_wire\<close> collects the
  frames written to the raw sockets.

  Devices are objects behind shared pointers that only the list of the network and the loop running
  over it hold; a device is found by its name, so the list holds the devices themselves.
\<close>

datatype WhiteBlackListMode = Whitelist | Blacklist

record macentity =
  me_strMAC :: string
  me_strDeviceName :: string
  me_strHostName :: string
  me_strIP :: string
  me_dFirstSeen :: time
  me_dLastSeen :: time
  me_dLastUpdate :: time

type_synonym evidence = "(string \<times> (string \<times> string) list) list"

record network =
  m_nSocketFDControl :: int
  m_bAutoManageDevices :: bool
  m_lstDevices :: "device list"
  m_lstSystemDeviceNames :: "string list"
  m_lstEvents :: "event list"
  m_lstMACSeen :: "macentity list"
  m_wbmDevices :: WhiteBlackListMode
  m_lstDeviceWhiteBlackList :: "string list"
  m_dMaxMACAge :: time
  m_dUpdateInterval :: time
  m_dPingBroadcastInterval :: time
  m_dHostnamesLastChecked :: time
  m_dHostnameCheckInterval :: time
  m_bShouldRun :: bool
  m_bIgnoreDeviceMACs :: bool
  m_dtData :: vendors
  m_mapMACEvidence :: evidence
  nw_readings :: nat
  nw_wire :: "(string \<times> byte list) list"

text \<open>
  The constructor does not initialise \<open>m_bAutoManageDevices\<close> (its content is a parameter); it reads the
  vendor table, whose absence it ignores.
\<close>

definition new_network :: "int \<Rightarrow> bool \<Rightarrow> string option \<Rightarrow> (string \<Rightarrow> string option) \<Rightarrow> network result" where
  "new_network fd auto exe files =
     bind_r (readVendors exe files [] []) (\<lambda>(ok, vendors).
       Inr \<lparr>m_nSocketFDControl = fd, m_bAutoManageDevices = auto, m_lstDevices = [],
            m_lstSystemDeviceNames = [], m_lstEvents = [], m_lstMACSeen = [],
            m_wbmDevices = Blacklist, m_lstDeviceWhiteBlackList = [], m_dMaxMACAge = 300,
            m_dUpdateInterval = 10, m_dPingBroadcastInterval = 10, m_dHostnamesLastChecked = 0,
            m_dHostnameCheckInterval = 15, m_bShouldRun = True, m_bIgnoreDeviceMACs = True,
            m_dtData = vendors, m_mapMACEvidence = [], nw_readings = 0, nw_wire = []\<rparr>)"

definition read_time :: "net_env \<Rightarrow> network \<Rightarrow> time \<times> network" where
  "read_time env nw = (clock env (nw_readings nw), nw\<lparr>nw_readings := Suc (nw_readings nw)\<rparr>)"

definition scheduleEvent :: "event \<Rightarrow> network \<Rightarrow> network" where
  "scheduleEvent evSchedule nw = nw\<lparr>m_lstEvents := m_lstEvents nw @ [evSchedule]\<rparr>"

text \<open>\<open>operator[]\<close> inserts an empty entry for an address nobody has evidence for.\<close>

definition macEvidence :: "string \<Rightarrow> network \<Rightarrow> (string \<times> string) list \<times> network" where
  "macEvidence strMAC nw =
     (let (m, ev) = smap_at [] strMAC (m_mapMACEvidence nw) in (m, nw\<lparr>m_mapMACEvidence := ev\<rparr>))"

definition setMaxMACAge :: "time \<Rightarrow> network \<Rightarrow> network" where
  "setMaxMACAge d nw = nw\<lparr>m_dMaxMACAge := d\<rparr>"

definition setMACMaxAge :: "time \<Rightarrow> network \<Rightarrow> network" where
  "setMACMaxAge dMaxAge nw = nw\<lparr>m_dMaxMACAge := dMaxAge\<rparr>"

definition setUpdateInterval :: "time \<Rightarrow> network \<Rightarrow> network" where
  "setUpdateInterval d nw = nw\<lparr>m_dUpdateInterval := d\<rparr>"

definition setPingBroadcastInterval :: "time \<Rightarrow> network \<Rightarrow> network" where
  "setPingBroadcastInterval d nw = nw\<lparr>m_dPingBroadcastInterval := d\<rparr>"

definition setIgnoreDeviceMACs :: "bool \<Rightarrow> network \<Rightarrow> network" where
  "setIgnoreDeviceMACs b nw = nw\<lparr>m_bIgnoreDeviceMACs := b\<rparr>"

definition clearDeviceWhiteBlacklist :: "network \<Rightarrow> network" where
  "clearDeviceWhiteBlacklist nw = nw\<lparr>m_lstDeviceWhiteBlackList := []\<rparr>"

definition setDeviceWhiteBlacklistMode :: "WhiteBlackListMode \<Rightarrow> network \<Rightarrow> network" where
  "setDeviceWhiteBlacklistMode wbmSet nw = nw\<lparr>m_wbmDevices := wbmSet\<rparr>"

definition setAutoManageDevices :: "bool \<Rightarrow> network \<Rightarrow> network" where
  "setAutoManageDevices b nw = nw\<lparr>m_bAutoManageDevices := b\<rparr>"

definition shutdown :: "network \<Rightarrow> network" where
  "shutdown nw = nw\<lparr>m_bShouldRun := False\<rparr>"

section \<open>Which devices are observed\<close>

fun device_in_list :: "net_env \<Rightarrow> string \<Rightarrow> string list \<Rightarrow> bool \<Rightarrow> bool result" where
  "device_in_list env strDeviceName [] bDeviceInList = Inr bDeviceInList"
| "device_in_list env strDeviceName (strPattern # ps) bDeviceInList =
     (case regex_match env strPattern strDeviceName of
        None \<Rightarrow> Inl RegexError
      | Some matches \<Rightarrow>
          device_in_list env strDeviceName ps (if matches then True else bDeviceInList))"

definition deviceAllowed :: "net_env \<Rightarrow> string \<Rightarrow> network \<Rightarrow> bool result" where
  "deviceAllowed env strDeviceName nw =
     bind_r (device_in_list env strDeviceName (m_lstDeviceWhiteBlackList nw) False)
       (\<lambda>bDeviceInList.
         Inr ((m_wbmDevices nw = Whitelist \<and> bDeviceInList) \<or>
              (m_wbmDevices nw = Blacklist \<and> \<not> bDeviceInList)))"

definition knownDevice :: "string \<Rightarrow> network \<Rightarrow> device option" where
  "knownDevice strDeviceName nw =
     find (\<lambda>dv. m_strDeviceName dv = strDeviceName) (m_lstDevices nw)"

definition systemDeviceNameExists :: "string \<Rightarrow> network \<Rightarrow> bool" where
  "systemDeviceNameExists strDeviceName nw \<longleftrightarrow> strDeviceName \<in> set (m_lstSystemDeviceNames nw)"

text \<open>The request buffer holds 100 interfaces.\<close>

definition systemDeviceNames :: "net_env \<Rightarrow> network \<Rightarrow> string list" where
  "systemDeviceNames env nw =
     (if m_nSocketFDControl nw \<ge> 0 then
        (case ifconf env of None \<Rightarrow> [] | Some names \<Rightarrow> take 100 names)
      else [])"

text \<open>The result variable has no value when the device is neither known nor in the system.\<close>

definition deviceHardwareType :: "net_env \<Rightarrow> string \<Rightarrow> network \<Rightarrow> HardwareType result" where
  "deviceHardwareType env strDeviceName nw =
     (case knownDevice strDeviceName nw of
        Some dvDevice \<Rightarrow> Inr (m_hwtType dvDevice)
      | None \<Rightarrow>
          if strDeviceName \<in> set (systemDeviceNames env nw) then
            Inr (if flag_loopback env strDeviceName then Loopback
                 else if \<not> has_wireless_name env strDeviceName then Wired
                 else Wireless)
          else Inl Uninitialised)"

definition addDevice :: "net_env \<Rightarrow> string \<Rightarrow> network \<Rightarrow> (bool \<times> network) result" where
  "addDevice env strDeviceName nw =
     bind_r (deviceAllowed env strDeviceName nw) (\<lambda>allowed.
       if allowed \<and> knownDevice strDeviceName nw = None \<and>
          systemDeviceNameExists strDeviceName nw
       then
         bind_r (deviceHardwareType env strDeviceName nw) (\<lambda>hwt.
           let (strMAC, dvNew) = mac_of env (new_device strDeviceName hwt);
               nw = nw\<lparr>m_lstDevices := m_lstDevices nw @ [dvNew]\<rparr>;
               nw = scheduleEvent (new_device_event DeviceAdded strDeviceName) nw;
               nw = scheduleEvent (setEvidence ''mac'' strMAC []
                      (new_device_event DeviceEvidenceChanged strDeviceName)) nw
           in Inr (True, nw))
       else Inr (False, nw))"

definition removeMAC :: "string \<Rightarrow> string \<Rightarrow> network \<Rightarrow> network" where
  "removeMAC strDeviceName strMAC nw =
     (case erase_first (\<lambda>e. me_strDeviceName e = strDeviceName \<and> me_strMAC e = strMAC)
             (m_lstMACSeen nw) of
        None \<Rightarrow> nw
      | Some (e, es) \<Rightarrow>
          scheduleEvent (new_mac_event MACAddressDisappeared strDeviceName strMAC)
            (nw\<lparr>m_lstMACSeen := es\<rparr>))"

lemma removeMAC_seen:
  "m_lstMACSeen (removeMAC d m nw) =
     (case erase_first (\<lambda>e. me_strDeviceName e = d \<and> me_strMAC e = m) (m_lstMACSeen nw) of
        None \<Rightarrow> m_lstMACSeen nw | Some (e, es) \<Rightarrow> es)"
  by (auto simp: removeMAC_def scheduleEvent_def split: option.splits)

lemma removeMAC_shrinks:
  assumes "find (\<lambda>e. me_strDeviceName e = d) (m_lstMACSeen nw) = Some e"
  shows "length (m_lstMACSeen (removeMAC d (me_strMAC e) nw)) < length (m_lstMACSeen nw)"
proof (cases "erase_first (\<lambda>e'. me_strDeviceName e' = d \<and> me_strMAC e' = me_strMAC e) (m_lstMACSeen nw)")
  case None
  with assms show ?thesis by (auto simp: erase_first_None_iff find_Some_iff)
next
  case (Some p)
  then show ?thesis by (cases p) (auto simp: removeMAC_seen dest: erase_first_length)
qed

text \<open>The loop of \<open>removeDevice\<close> over the addresses seen on the device.\<close>

function remove_macs :: "string \<Rightarrow> network \<Rightarrow> network" where
  "remove_macs strDeviceName nw =
     (case find (\<lambda>e. me_strDeviceName e = strDeviceName) (m_lstMACSeen nw) of
        None \<Rightarrow> nw
      | Some e \<Rightarrow> remove_macs strDeviceName (removeMAC strDeviceName (me_strMAC e) nw))"
  by pat_completeness auto
termination
  by (relation "measure (\<lambda>(d, nw). length (m_lstMACSeen nw))") (auto intro: removeMAC_shrinks)

declare remove_macs.simps [simp del]

text \<open>\<open>bResult\<close> is never set.\<close>

definition removeDevice :: "string \<Rightarrow> network \<Rightarrow> bool \<times> network" where
  "removeDevice strDeviceName nw =
     (let nw = (case erase_first (\<lambda>dv. m_strDeviceName dv = strDeviceName) (m_lstDevices nw) of
                  None \<Rightarrow> nw
                | Some (dv, dvs) \<Rightarrow> nw\<lparr>m_lstDevices := dvs\<rparr>);
          nw = scheduleEvent (new_device_event DeviceRemoved strDeviceName) nw
      in (False, remove_macs strDeviceName nw))"

definition addDeviceWhiteBlacklistEntry :: "net_env \<Rightarrow> string \<Rightarrow> network \<Rightarrow> network result" where
  "addDeviceWhiteBlacklistEntry env strPattern nw =
     (let nw = nw\<lparr>m_lstDeviceWhiteBlackList := m_lstDeviceWhiteBlackList nw @ [strPattern]\<rparr> in
      bind_r (fold_r (\<lambda>dv lst.
                bind_r (deviceAllowed env (m_strDeviceName dv) nw) (\<lambda>allowed.
                  Inr (if allowed then lst else lst @ [m_strDeviceName dv])))
              (m_lstDevices nw) [])
        (\<lambda>lstRemoveDevices. Inr (fold (\<lambda>d nw. snd (removeDevice d nw)) lstRemoveDevices nw)))"

section \<open>Which addresses are recorded\<close>

text \<open>The loop over the devices asks each for its address, which the device then keeps.\<close>

fun find_device_mac :: "net_env \<Rightarrow> string \<Rightarrow> device list \<Rightarrow> bool \<times> device list" where
  "find_device_mac env strMAC [] = (False, [])"
| "find_device_mac env strMAC (dv # dvs) =
     (let (m, dv) = mac_of env dv in
      if m = strMAC then (True, dv # dvs)
      else let (b, dvs) = find_device_mac env strMAC dvs in (b, dv # dvs))"

definition macAllowed :: "net_env \<Rightarrow> string \<Rightarrow> network \<Rightarrow> bool \<times> network" where
  "macAllowed env strMAC nw =
     (if strMAC \<noteq> ''00:00:00:00:00:00'' \<and> strMAC \<noteq> ''ff:ff:ff:ff:ff:ff'' then
        if m_bIgnoreDeviceMACs nw then
          let (b, dvs) = find_device_mac env strMAC (m_lstDevices nw) in
          (\<not> b, nw\<lparr>m_lstDevices := dvs\<rparr>)
        else (True, nw)
      else (False, nw))"

definition ipAllowed :: "string \<Rightarrow> bool" where
  "ipAllowed strIP \<longleftrightarrow> strIP \<noteq> ''255.255.255.255'' \<and> take 3 strIP \<noteq> ''224''"

definition is_entry :: "string \<Rightarrow> string \<Rightarrow> macentity \<Rightarrow> bool" where
  "is_entry strMAC strDeviceName e \<longleftrightarrow> me_strMAC e = strMAC \<and> me_strDeviceName e = strDeviceName"

definition macLastSeen :: "string \<Rightarrow> string \<Rightarrow> network \<Rightarrow> time" where
  "macLastSeen strMAC strDeviceName nw =
     (case find (is_entry strMAC strDeviceName) (m_lstMACSeen nw) of
        None \<Rightarrow> - 1
      | Some e \<Rightarrow> me_dLastSeen e)"

text \<open>The loop over the entries reads the clock anew for each entry it updates.\<close>

fun touch_seen :: "net_env \<Rightarrow> string \<Rightarrow> string \<Rightarrow> macentity list \<Rightarrow> nat \<Rightarrow> macentity list \<times> nat \<times> bool" where
  "touch_seen env m d [] n = ([], n, False)"
| "touch_seen env m d (e # es) n =
     (if is_entry m d e then
        let (es, n', b) = touch_seen env m d es (Suc n) in
        (e\<lparr>me_dLastSeen := clock env n\<rparr> # es, n', True)
      else let (es, n', b) = touch_seen env m d es n in (e # es, n', b))"

definition addMAC :: "net_env \<Rightarrow> string \<Rightarrow> string \<Rightarrow> network \<Rightarrow> bool \<times> network" where
  "addMAC env strMACAddress strDeviceName nw =
     (let (allowed, nw) = macAllowed env strMACAddress nw in
      if allowed then
        let nw = (if macLastSeen strMACAddress strDeviceName nw = - 1
                  then scheduleEvent (new_mac_event MACAddressDiscovered strDeviceName strMACAddress) nw
                  else nw);
            (es, n, bWasPresent) =
              touch_seen env strMACAddress strDeviceName (m_lstMACSeen nw) (nw_readings nw);
            nw = nw\<lparr>m_lstMACSeen := es, nw_readings := n\<rparr>
        in
          if \<not> bWasPresent then
            let (dTime, nw) = read_time env nw in
            (True, nw\<lparr>m_lstMACSeen := m_lstMACSeen nw @
                        [\<lparr>me_strMAC = strMACAddress, me_strDeviceName = strDeviceName,
                          me_strHostName = [], me_strIP = [], me_dFirstSeen = dTime,
                          me_dLastSeen = dTime, me_dLastUpdate = 0\<rparr>]\<rparr>)
          else (False, nw)
      else (False, nw))"

definition updateMACEvidence ::
  "net_env \<Rightarrow> string \<Rightarrow> string \<Rightarrow> string \<Rightarrow> string \<Rightarrow> network \<Rightarrow> network" where
  "updateMACEvidence env strDeviceName strMACAddress strKey strContent nw =
     (let (allowed, nw) = macAllowed env strMACAddress nw in
      if allowed then
        let (inner, outer) = smap_at [] strMACAddress (m_mapMACEvidence nw);
            (former, inner) = smap_at [] strKey inner
        in
          if former \<noteq> strContent then
            scheduleEvent
              (setEvidence strKey strContent former
                 (new_mac_event MACEvidenceChanged strDeviceName strMACAddress))
              (nw\<lparr>m_mapMACEvidence := smap_set strMACAddress (smap_set strKey strContent inner) outer\<rparr>)
          else nw\<lparr>m_mapMACEvidence := smap_set strMACAddress inner outer\<rparr>
      else nw)"

definition deviceForMAC :: "string \<Rightarrow> network \<Rightarrow> string" where
  "deviceForMAC strMAC nw =
     (case find (\<lambda>e. me_strMAC e = strMAC) (m_lstMACSeen nw) of
        None \<Rightarrow> []
      | Some e \<Rightarrow> me_strDeviceName e)"

text \<open>
  The loop iterates over the live map, but an entry is only changed when the loop is at it, and no key
  is added: the iteration sees the entries as they were at its start.
\<close>

definition check_hostname :: "net_env \<Rightarrow> string \<times> (string \<times> string) list \<Rightarrow> network \<Rightarrow> network" where
  "check_hostname env prEntry nw =
     (case (smap_get ''ip'' (snd prEntry), smap_get ''hostname'' (snd prEntry)) of
        (Some ip, None) \<Rightarrow>
          (case hostname_of env ip of
             None \<Rightarrow> nw
           | Some he \<Rightarrow>
               updateMACEvidence env (deviceForMAC (fst prEntry) nw) (fst prEntry) ''hostname'' he nw)
      | _ \<Rightarrow> nw)"

definition checkHostnames :: "net_env \<Rightarrow> network \<Rightarrow> network" where
  "checkHostnames env nw = fold (check_hostname env) (m_mapMACEvidence nw) nw"

text \<open>
  \<open>nLengthRead >= sizeof(struct ethhdr)\<close> compares an \<open>int\<close> with a \<open>size_t\<close>: the \<open>int\<close> is converted to
  64 unsigned bits.
\<close>

definition length_covers_header :: "int \<Rightarrow> bool" where
  "length_covers_header nLengthRead \<longleftrightarrow> (of_int nLengthRead :: u64) \<ge> 14"

definition detect_device :: "net_env \<Rightarrow> device \<Rightarrow> network \<Rightarrow> network" where
  "detect_device env dvDevice nw =
     (let (ucBuffer, nLengthRead) = read_frame env dvDevice in
      if length_covers_header nLengthRead then
        let strMAC = network_mac (frame_source ucBuffer);
            nw = snd (addMAC env strMAC (m_strDeviceName dvDevice) nw)
        in
          if frame_proto ucBuffer = 2048 then
            let strSenderIP = inet_ntoa (frame_saddr ucBuffer) in
            if ipAllowed strSenderIP then
              updateMACEvidence env (m_strDeviceName dvDevice) strMAC ''ip'' strSenderIP nw
            else nw
          else nw
      else nw)"

definition detectNetworkActivity :: "net_env \<Rightarrow> network \<Rightarrow> network" where
  "detectNetworkActivity env nw =
     (let nw = fold (detect_device env) (m_lstDevices nw) nw;
          (dTime, nw) = read_time env nw
      in
        if dTime - m_dHostnamesLastChecked nw > m_dHostnameCheckInterval nw
        then (checkHostnames env nw)\<lparr>m_dHostnamesLastChecked := dTime\<rparr>
        else nw)"
end
