(* ===== verification/Network_Cycle.thy ===== *)
theory Network_Cycle
  imports Network
begin

text \<open>
  \<open>Network::cycle\<close> with the loops it contains, and \<open>Network::maintainDeviceStatus\<close>. The loops of
  \<open>cycle\<close> are one definition each, in the order they run: clearing the events of the last cycle,
  detection, adding and removing devices, maintenance of the device status, expiry of addresses,
  the update stamps and the broadcast pings.
\<close>

text \<open>
  The status of one device, and the events it causes. The name is cut to 15 characters for the first
  request only.
\<close>

definition maintainDeviceStatus :: "net_env \<Rightarrow> int \<Rightarrow> device \<Rightarrow> device \<times> event list" where
  "maintainDeviceStatus env fd dv =
     (if fd \<ge> 0 then
        let name = m_strDeviceName dv;
            bUp = flag_up env (take 15 name);
            bRunning = flag_running env (take 15 name);
            evUp = (if m_bUp dv \<noteq> bUp
                    then [event_setUp bUp (setStateChangeUp True (new_device_event DeviceStateChanged name))]
                    else []);
            evRunning = (if m_bRunning dv \<noteq> bRunning
                    then [event_setRunning bRunning
                            (setStateChangeRunning True (new_device_event DeviceStateChanged name))]
                    else []);
            dv = setRunning bRunning (setUp bUp dv);
            strIP = inet_ntoa (if_addr env name);
            evIP = (if strIP \<noteq> m_strIP dv
                    then [setEvidence ''ip'' strIP (m_strIP dv) (new_device_event DeviceEvidenceChanged name)]
                    else []);
            dv = (if strIP \<noteq> m_strIP dv then setIP strIP dv else dv);
            strBrd = inet_ntoa (if_brdaddr env name);
            evBrd = (if strBrd \<noteq> m_strBroadcastIP dv
                    then [setEvidence ''broadcast-ip'' strBrd (m_strBroadcastIP dv)
                            (new_device_event DeviceEvidenceChanged name)]
                    else []);
            dv = (if strBrd \<noteq> m_strBroadcastIP dv then setBroadcastIP strBrd dv else dv)
        in (dv, evUp @ evRunning @ evIP @ evBrd)
      else (dv, []))"

fun maintain_all :: "net_env \<Rightarrow> int \<Rightarrow> device list \<Rightarrow> device list \<times> event list" where
  "maintain_all env fd [] = ([], [])"
| "maintain_all env fd (dv # dvs) =
     (let (dv, es) = maintainDeviceStatus env fd dv;
          (dvs, es') = maintain_all env fd dvs
      in (dv # dvs, es @ es'))"

definition maintain_devices :: "net_env \<Rightarrow> network \<Rightarrow> network" where
  "maintain_devices env nw =
     (let (dvs, es) = maintain_all env (m_nSocketFDControl nw) (m_lstDevices nw) in
      nw\<lparr>m_lstDevices := dvs, m_lstEvents := m_lstEvents nw @ es\<rparr>)"

definition manage_devices :: "net_env \<Rightarrow> network \<Rightarrow> network result" where
  "manage_devices env nw =
     (if m_bAutoManageDevices nw then
        let lstAddedDevices = filter (\<lambda>d. knownDevice d nw = None) (m_lstSystemDeviceNames nw);
            lstRemovedDevices = filter (\<lambda>d. d \<notin> set (m_lstSystemDeviceNames nw))
                                  (map m_strDeviceName (m_lstDevices nw));
            nw = fold (\<lambda>d nw. snd (removeDevice d nw)) lstRemovedDevices nw
        in fold_r (\<lambda>d nw. bind_r (addDevice env d nw) (\<lambda>(b, nw). Inr nw)) lstAddedDevices nw
      else Inr nw)"

definition expire_macs :: "time \<Rightarrow> network \<Rightarrow> network" where
  "expire_macs dTime nw =
     (let (seen, nw) =
        erase_loop (\<lambda>e. dTime - me_dLastSeen e > m_dMaxMACAge nw)
          (\<lambda>e. scheduleEvent (new_mac_event MACAddressDisappeared (me_strDeviceName e) (me_strMAC e)))
          (m_lstMACSeen nw) nw
      in nw\<lparr>m_lstMACSeen := seen\<rparr>)"

definition stamp_updates :: "time \<Rightarrow> network \<Rightarrow> network" where
  "stamp_updates dTime nw =
     nw\<lparr>m_lstMACSeen := map (\<lambda>e. if me_strHostName e = [] \<and>
                                   dTime - me_dLastUpdate e > m_dUpdateInterval nw
                                then e\<lparr>me_dLastUpdate := dTime\<rparr> else e) (m_lstMACSeen nw)\<rparr>"

fun ping_all :: "net_env \<Rightarrow> time \<Rightarrow> time \<Rightarrow> device list \<Rightarrow>
    (device list \<times> (string \<times> byte list) list) result" where
  "ping_all env dTime dInterval [] = Inr ([], [])"
| "ping_all env dTime dInterval (dv # dvs) =
     bind_r (sendPingBroadcast env dTime dInterval dv) (\<lambda>(out, dv).
     bind_r (ping_all env dTime dInterval dvs) (\<lambda>(dvs, outs).
       Inr (dv # dvs,
            (case out of None \<Rightarrow> outs | Some frame \<Rightarrow> (m_strDeviceName dv, frame) # outs))))"

definition ping_devices :: "net_env \<Rightarrow> time \<Rightarrow> network \<Rightarrow> network result" where
  "ping_devices env dTime nw =
     bind_r (ping_all env dTime (m_dPingBroadcastInterval nw) (m_lstDevices nw)) (\<lambda>(dvs, outs).
       Inr (nw\<lparr>m_lstDevices := dvs, nw_wire := nw_wire nw @ outs\<rparr>))"

definition cycle :: "net_env \<Rightarrow> network \<Rightarrow> (bool \<times> network) result" where
  "cycle env nw =
     (let (dTime, nw) = read_time env nw;
          nw = nw\<lparr>m_lstEvents := []\<rparr>;
          nw = detectNetworkActivity env nw;
          nw = nw\<lparr>m_lstSystemDeviceNames := systemDeviceNames env nw\<rparr>
      in
        bind_r (manage_devices env nw) (\<lambda>nw.
          let nw = maintain_devices env nw;
              nw = expire_macs dTime nw;
              nw = stamp_updates dTime nw
          in bind_r (ping_devices env dTime nw) (\<lambda>nw. Inr (m_bShouldRun nw, nw))))"

text \<open>The vendor of an address, and the address with its first bytes replaced by the vendor.\<close>

definition network_vendorForMAC :: "string \<Rightarrow> network \<Rightarrow> string result" where
  "network_vendorForMAC strMAC nw =
     bind_r (vendorForMAC strMAC (m_dtData nw)) (\<lambda>v. Inr (strVendor v))"

definition readableMACIdentifier :: "string \<Rightarrow> bool \<Rightarrow> network \<Rightarrow> string result" where
  "readableMACIdentifier strMAC bDefaultToMAC nw =
     bind_r (vendorForMAC strMAC (m_dtData nw)) (\<lambda>v.
       if \<not> bValid v then Inr (if bDefaultToMAC then strMAC else [])
       else bind_r (substr_from strMAC 8) (\<lambda>rest.
              Inr ([CHR 0x22] @ strVendor v @ [CHR 0x22] @ rest)))"

section \<open>What the events tell\<close>

text \<open>
  The abstract state of the network, as a client that follows the events knows it: the names of the
  observed devices and the addresses seen, each with its device.
\<close>

type_synonym view = "string set \<times> (string \<times> string) set"

definition seen_pairs :: "macentity list \<Rightarrow> (string \<times> string) list" where
  "seen_pairs es = map (\<lambda>e. (me_strMAC e, me_strDeviceName e)) es"

definition view_of :: "network \<Rightarrow> view" where
  "view_of nw = (m_strDeviceName ` set (m_lstDevices nw), set (seen_pairs (m_lstMACSeen nw)))"

fun apply_event :: "event \<Rightarrow> view \<Rightarrow> view" where
  "apply_event (DeviceEvent e) (ds, ms) =
     (case ev_type e of
        DeviceAdded \<Rightarrow> (insert (ev_deviceName e) ds, ms)
      | DeviceRemoved \<Rightarrow> (ds - {ev_deviceName e}, ms)
      | _ \<Rightarrow> (ds, ms))"
| "apply_event (MACEvent e mac) (ds, ms) =
     (case ev_type e of
        DeviceAdded \<Rightarrow> (insert (ev_deviceName e) ds, ms)
      | DeviceRemoved \<Rightarrow> (ds - {ev_deviceName e}, ms)
      | MACAddressDiscovered \<Rightarrow> (ds, insert (mac, ev_deviceName e) ms)
      | MACAddressDisappeared \<Rightarrow> (ds, ms - {(mac, ev_deviceName e)})
      | _ \<Rightarrow> (ds, ms))"

definition replay :: "event list \<Rightarrow> view \<Rightarrow> view" where
  "replay es v = fold apply_event es v"

text \<open>The invariant of the network.\<close>

definition evidence_ok :: "evidence \<Rightarrow> bool" where
  "evidence_ok m \<longleftrightarrow> smap_ok m \<and> (\<forall>(k, inner) \<in> set m. smap_ok inner)"

definition mac_recorded_ok :: "string \<Rightarrow> bool" where
  "mac_recorded_ok m \<longleftrightarrow>
     (\<exists>bs. length bs = 6 \<and> m = network_mac bs) \<and>
     m \<noteq> ''00:00:00:00:00:00'' \<and> m \<noteq> ''ff:ff:ff:ff:ff:ff''"

definition net_inv :: "network \<Rightarrow> bool" where
  "net_inv nw \<longleftrightarrow>
     distinct (map m_strDeviceName (m_lstDevices nw)) \<and>
     (\<forall>dv \<in> set (m_lstDevices nw). device_ok dv) \<and>
     distinct (seen_pairs (m_lstMACSeen nw)) \<and>
     (\<forall>e \<in> set (m_lstMACSeen nw).
        mac_recorded_ok (me_strMAC e) \<and> 0 \<le> me_dLastSeen e \<and>
        me_strDeviceName e \<in> m_strDeviceName ` set (m_lstDevices nw)) \<and>
     (\<forall>ev \<in> set (m_lstEvents nw). event_ok ev) \<and>
     evidence_ok (m_mapMACEvidence nw)"

end
