(* ===== verification/Network_Laws.thy ===== *)
theory Network_Laws
  imports Network_Cycle
begin

text \<open>
  How the operations of the network change its state: every operation keeps the invariant, and the
  events it schedules tell exactly what it changed. \<open>evolves\<close> says both of two states; it is reflexive
  and transitive, so the loops of the code follow from their steps.
\<close>

section \<open>The relation between states\<close>

definition config :: "network \<Rightarrow> int \<times> bool \<times> WhiteBlackListMode \<times> string list \<times> time \<times> time \<times> time \<times> time \<times> bool \<times> bool \<times> vendors" where
  "config nw = (m_nSocketFDControl nw, m_bAutoManageDevices nw, m_wbmDevices nw,
     m_lstDeviceWhiteBlackList nw, m_dMaxMACAge nw, m_dUpdateInterval nw,
     m_dPingBroadcastInterval nw, m_dHostnameCheckInterval nw, m_bShouldRun nw,
     m_bIgnoreDeviceMACs nw, m_dtData nw)"

definition device_names :: "network \<Rightarrow> string list" where
  "device_names nw = map m_strDeviceName (m_lstDevices nw)"

definition explains :: "network \<Rightarrow> network \<Rightarrow> bool" where
  "explains nw nw' \<longleftrightarrow>
     (\<exists>es. m_lstEvents nw' = m_lstEvents nw @ es \<and> replay es (view_of nw) = view_of nw')"

definition evolves :: "network \<Rightarrow> network \<Rightarrow> bool" where
  "evolves nw nw' \<longleftrightarrow>
     config nw' = config nw \<and> (net_inv nw \<longrightarrow> net_inv nw' \<and> explains nw nw')"

lemma replay_simps [simp]:
  "replay [] v = v" "replay (e # es) v = replay es (apply_event e v)"
  "replay (es @ fs) v = replay fs (replay es v)"
  by (simp_all add: replay_def)

lemma explains_refl [simp]: "explains nw nw"
  unfolding explains_def by (intro exI [of _ "[]"]) simp

lemma explains_trans: "explains a b \<Longrightarrow> explains b c \<Longrightarrow> explains a c"
proof -
  assume "explains a b" "explains b c"
  then obtain es fs where "m_lstEvents b = m_lstEvents a @ es" "replay es (view_of a) = view_of b"
      "m_lstEvents c = m_lstEvents b @ fs" "replay fs (view_of b) = view_of c"
    unfolding explains_def by blast
  then show ?thesis unfolding explains_def by (intro exI [of _ "es @ fs"]) simp
qed

lemma evolves_refl [simp]: "evolves nw nw"
  by (simp add: evolves_def)

lemma evolves_trans: "evolves a b \<Longrightarrow> evolves b c \<Longrightarrow> evolves a c"
  by (auto simp: evolves_def intro: explains_trans)

lemma schedule_simps [simp]:
  "m_lstEvents (scheduleEvent ev nw) = m_lstEvents nw @ [ev]"
  "m_lstDevices (scheduleEvent ev nw) = m_lstDevices nw"
  "m_lstMACSeen (scheduleEvent ev nw) = m_lstMACSeen nw"
  "m_mapMACEvidence (scheduleEvent ev nw) = m_mapMACEvidence nw"
  "nw_readings (scheduleEvent ev nw) = nw_readings nw"
  "m_lstSystemDeviceNames (scheduleEvent ev nw) = m_lstSystemDeviceNames nw"
  "m_dHostnamesLastChecked (scheduleEvent ev nw) = m_dHostnamesLastChecked nw"
  "config (scheduleEvent ev nw) = config nw"
  "view_of (scheduleEvent ev nw) = view_of nw"
  by (simp_all add: scheduleEvent_def config_def view_of_def)

lemma config_update [simp]:
  "config (nw\<lparr>m_lstDevices := x1\<rparr>) = config nw" "config (nw\<lparr>m_lstEvents := x2\<rparr>) = config nw"
  "config (nw\<lparr>m_lstMACSeen := x3\<rparr>) = config nw" "config (nw\<lparr>m_mapMACEvidence := x4\<rparr>) = config nw"
  "config (nw\<lparr>nw_readings := n\<rparr>) = config nw" "config (nw\<lparr>m_lstSystemDeviceNames := x5\<rparr>) = config nw"
  "config (nw\<lparr>m_dHostnamesLastChecked := t\<rparr>) = config nw" "config (nw\<lparr>nw_wire := w\<rparr>) = config nw"
  by (simp_all add: config_def)

lemma configD:
  "config a = config b \<Longrightarrow> m_nSocketFDControl a = m_nSocketFDControl b"
  "config a = config b \<Longrightarrow> m_bAutoManageDevices a = m_bAutoManageDevices b"
  "config a = config b \<Longrightarrow> m_wbmDevices a = m_wbmDevices b"
  "config a = config b \<Longrightarrow> m_lstDeviceWhiteBlackList a = m_lstDeviceWhiteBlackList b"
  "config a = config b \<Longrightarrow> m_dMaxMACAge a = m_dMaxMACAge b"
  "config a = config b \<Longrightarrow> m_bShouldRun a = m_bShouldRun b"
  "config a = config b \<Longrightarrow> m_bIgnoreDeviceMACs a = m_bIgnoreDeviceMACs b"
  "config a = config b \<Longrightarrow> m_dtData a = m_dtData b"
  by (simp_all add: config_def)

section \<open>Addresses\<close>

lemma find_device_mac_laws:
  "find_device_mac env m dvs = (b, dvs') \<Longrightarrow>
     map m_strDeviceName dvs' = map m_strDeviceName dvs \<and>
     (env_ok env \<longrightarrow> (\<forall>dv \<in> set dvs. device_ok dv) \<longrightarrow> (\<forall>dv \<in> set dvs'. device_ok dv)) \<and>
     (b \<longleftrightarrow> (\<exists>dv \<in> set dvs. fst (mac_of env dv) = m))"
proof (induction dvs arbitrary: b dvs')
  case (Cons dv dvs)
  obtain m' dv' where m': "mac_of env dv = (m', dv')" by (cases "mac_of env dv")
  have dv': "m_strDeviceName dv' = m_strDeviceName dv"
      "env_ok env \<Longrightarrow> device_ok dv \<Longrightarrow> device_ok dv'"
    using mac_of_name [of env dv] mac_of_ok [of env dv] m' by auto
  obtain b1 dvs1 where r: "find_device_mac env m dvs = (b1, dvs1)" by (cases "find_device_mac env m dvs")
  note IH = Cons.IH [OF r]
  show ?case
  proof (cases "m' = m")
    case True
    with Cons.prems m' dv' show ?thesis by auto
  next
    case False
    with Cons.prems m' r have e: "b = b1" "dvs' = dv' # dvs1" by simp_all
    from IH dv' m' False show ?thesis by (auto simp: e)
  qed
qed simp

text \<open>Asking whether an address is allowed changes nothing but the addresses the devices keep.\<close>

lemma macAllowed_laws:
  assumes "macAllowed env m nw = (b, nw')"
  shows "\<exists>dvs. nw' = nw\<lparr>m_lstDevices := dvs\<rparr> \<and>
    map m_strDeviceName dvs = device_names nw \<and>
    (env_ok env \<longrightarrow> (\<forall>dv \<in> set (m_lstDevices nw). device_ok dv) \<longrightarrow> (\<forall>dv \<in> set dvs. device_ok dv))"
    and "b \<longleftrightarrow> m \<noteq> ''00:00:00:00:00:00'' \<and> m \<noteq> ''ff:ff:ff:ff:ff:ff'' \<and>
      (m_bIgnoreDeviceMACs nw \<longrightarrow> (\<forall>dv \<in> set (m_lstDevices nw). fst (mac_of env dv) \<noteq> m))"
proof -
  obtain c dvs where f: "find_device_mac env m (m_lstDevices nw) = (c, dvs)"
    by (cases "find_device_mac env m (m_lstDevices nw)")
  show "\<exists>dvs. nw' = nw\<lparr>m_lstDevices := dvs\<rparr> \<and>
    map m_strDeviceName dvs = device_names nw \<and>
    (env_ok env \<longrightarrow> (\<forall>dv \<in> set (m_lstDevices nw). device_ok dv) \<longrightarrow> (\<forall>dv \<in> set dvs. device_ok dv))"
  proof (cases "m \<noteq> ''00:00:00:00:00:00'' \<and> m \<noteq> ''ff:ff:ff:ff:ff:ff'' \<and> m_bIgnoreDeviceMACs nw")
    case True
    with assms f find_device_mac_laws [OF f] show ?thesis
      by (intro exI [of _ dvs]) (auto simp: macAllowed_def device_names_def)
  next
    case False
    with assms have "nw' = nw" by (auto simp: macAllowed_def split: if_splits)
    then show ?thesis by (intro exI [of _ "m_lstDevices nw"]) (simp add: device_names_def)
  qed
  show "b \<longleftrightarrow> m \<noteq> ''00:00:00:00:00:00'' \<and> m \<noteq> ''ff:ff:ff:ff:ff:ff'' \<and>
      (m_bIgnoreDeviceMACs nw \<longrightarrow> (\<forall>dv \<in> set (m_lstDevices nw). fst (mac_of env dv) \<noteq> m))"
    using assms f find_device_mac_laws [OF f]
    by (simp add: macAllowed_def split: if_splits) blast+
qed

text \<open>Replacing the devices by others of the same names.\<close>

lemma names_set: "map m_strDeviceName dvs = device_names nw \<Longrightarrow>
    m_strDeviceName ` set dvs = m_strDeviceName ` set (m_lstDevices nw)"
  unfolding device_names_def by (metis list.set_map)

lemma evolves_devices:
  assumes "map m_strDeviceName dvs = device_names nw"
    and "(\<forall>dv \<in> set (m_lstDevices nw). device_ok dv) \<Longrightarrow> (\<forall>dv \<in> set dvs. device_ok dv)"
  shows "evolves nw (nw\<lparr>m_lstDevices := dvs\<rparr>)"
proof -
  have "view_of (nw\<lparr>m_lstDevices := dvs\<rparr>) = view_of nw"
    using names_set [OF assms(1)] by (simp add: view_of_def)
  then have "explains nw (nw\<lparr>m_lstDevices := dvs\<rparr>)"
    unfolding explains_def by (intro exI [of _ "[]"]) simp
  moreover have "net_inv nw \<Longrightarrow> net_inv (nw\<lparr>m_lstDevices := dvs\<rparr>)"
    using assms names_set [OF assms(1)] by (auto simp: net_inv_def device_names_def)
  ultimately show ?thesis by (simp add: evolves_def)
qed

lemma macAllowed_evolves:
  assumes "env_ok env" "macAllowed env m nw = (b, nw')"
  shows "evolves nw nw' \<and> device_names nw' = device_names nw"
proof -
  from macAllowed_laws(1) [OF assms(2)] obtain dvs where d: "nw' = nw\<lparr>m_lstDevices := dvs\<rparr>"
      "map m_strDeviceName dvs = device_names nw"
      "(\<forall>dv \<in> set (m_lstDevices nw). device_ok dv) \<longrightarrow> (\<forall>dv \<in> set dvs. device_ok dv)"
    using assms(1) by auto
  with evolves_devices [of dvs nw] show ?thesis by (auto simp: device_names_def)
qed

section \<open>Recording an address\<close>

lemma seen_pairs_simps [simp]:
  "seen_pairs [] = []"
  "seen_pairs (e # es) = (me_strMAC e, me_strDeviceName e) # seen_pairs es"
  "seen_pairs (es @ fs) = seen_pairs es @ seen_pairs fs"
  by (simp_all add: seen_pairs_def)

lemma touch_seen_laws:
  "touch_seen env m d es n = (es', n', b) \<Longrightarrow>
     seen_pairs es' = seen_pairs es \<and> (b \<longleftrightarrow> (m, d) \<in> set (seen_pairs es)) \<and>
     (\<forall>e' \<in> set es'. \<exists>e \<in> set es. e' = e \<or> (\<exists>k. e' = e\<lparr>me_dLastSeen := clock env k\<rparr>))"
proof (induction es arbitrary: n es' n' b)
  case (Cons e es)
  show ?case
  proof (cases "is_entry m d e")
    case True
    obtain es1 n1 b1 where r: "touch_seen env m d es (Suc n) = (es1, n1, b1)"
      by (cases "touch_seen env m d es (Suc n)") auto
    from Cons.IH [OF r] Cons.prems r True show ?thesis
      by (fastforce simp: seen_pairs_def is_entry_def)
  next
    case False
    obtain es1 n1 b1 where r: "touch_seen env m d es n = (es1, n1, b1)"
      by (cases "touch_seen env m d es n") auto
    from Cons.IH [OF r] Cons.prems r False show ?thesis
      by (fastforce simp: seen_pairs_def is_entry_def)
  qed
qed (simp add: seen_pairs_def)

lemma find_is_entry_None: "find (is_entry m d) es = None \<longleftrightarrow> (m, d) \<notin> set (seen_pairs es)"
  by (induction es) (auto simp: seen_pairs_def is_entry_def)

lemma macLastSeen_new:
  assumes "\<forall>e \<in> set (m_lstMACSeen nw). 0 \<le> me_dLastSeen e"
  shows "macLastSeen m d nw = - 1 \<longleftrightarrow> (m, d) \<notin> set (seen_pairs (m_lstMACSeen nw))"
proof (cases "find (is_entry m d) (m_lstMACSeen nw)")
  case None
  then have "(m, d) \<notin> set (seen_pairs (m_lstMACSeen nw))"
    using find_is_entry_None [of m d "m_lstMACSeen nw"] by blast
  with None show ?thesis by (simp add: macLastSeen_def)
next
  case (Some e)
  then have "e \<in> set (m_lstMACSeen nw)" by (auto simp: find_Some_iff)
  with assms have "0 \<le> me_dLastSeen e" by blast
  with Some find_is_entry_None [of m d "m_lstMACSeen nw"] show ?thesis by (simp add: macLastSeen_def)
qed

text \<open>
  What \<open>addMAC\<close> does to the entries and events: nothing for an address that is not allowed, new stamps
  for one that is there, a new entry and the event of its discovery otherwise.
\<close>

lemma addMAC_cases:
  assumes "macAllowed env m nw = (allowed, nw1)"
    and "\<forall>e \<in> set (m_lstMACSeen nw). 0 \<le> me_dLastSeen e"
  shows
    "\<not> allowed \<Longrightarrow> addMAC env m d nw = (False, nw1)"
    "allowed \<Longrightarrow> (m, d) \<in> set (seen_pairs (m_lstMACSeen nw)) \<Longrightarrow>
       \<exists>es n. addMAC env m d nw = (False, nw1\<lparr>m_lstMACSeen := es, nw_readings := n\<rparr>) \<and>
         seen_pairs es = seen_pairs (m_lstMACSeen nw) \<and>
         (\<forall>e' \<in> set es. \<exists>e \<in> set (m_lstMACSeen nw). e' = e \<or> (\<exists>k. e' = e\<lparr>me_dLastSeen := clock env k\<rparr>))"
    "allowed \<Longrightarrow> (m, d) \<notin> set (seen_pairs (m_lstMACSeen nw)) \<Longrightarrow>
       \<exists>es n t. addMAC env m d nw =
           (True, (scheduleEvent (new_mac_event MACAddressDiscovered d m) nw1)
              \<lparr>m_lstMACSeen := es @ [\<lparr>me_strMAC = m, me_strDeviceName = d, me_strHostName = [],
                 me_strIP = [], me_dFirstSeen = clock env t, me_dLastSeen = clock env t,
                 me_dLastUpdate = 0\<rparr>], nw_readings := n\<rparr>) \<and>
         seen_pairs es = seen_pairs (m_lstMACSeen nw) \<and>
         (\<forall>e' \<in> set es. \<exists>e \<in> set (m_lstMACSeen nw). e' = e \<or> (\<exists>k. e' = e\<lparr>me_dLastSeen := clock env k\<rparr>))"
proof -
  from macAllowed_laws(1) [OF assms(1)] obtain dvs where nw1: "nw1 = nw\<lparr>m_lstDevices := dvs\<rparr>" by auto
  then have seen: "m_lstMACSeen nw1 = m_lstMACSeen nw" "nw_readings nw1 = nw_readings nw" by simp_all
  have new: "macLastSeen m d nw1 = - 1 \<longleftrightarrow> (m, d) \<notin> set (seen_pairs (m_lstMACSeen nw))"
    using macLastSeen_new [of nw1 m d] assms(2) seen by simp
  obtain es n b where t: "touch_seen env m d (m_lstMACSeen nw) (nw_readings nw) = (es, n, b)"
    by (cases "touch_seen env m d (m_lstMACSeen nw) (nw_readings nw)") auto
  note tl = touch_seen_laws [OF t]
  show "\<not> allowed \<Longrightarrow> addMAC env m d nw = (False, nw1)"
    using assms(1) by (simp add: addMAC_def)
  show "\<exists>es n. addMAC env m d nw = (False, nw1\<lparr>m_lstMACSeen := es, nw_readings := n\<rparr>) \<and>
         seen_pairs es = seen_pairs (m_lstMACSeen nw) \<and>
         (\<forall>e' \<in> set es. \<exists>e \<in> set (m_lstMACSeen nw). e' = e \<or> (\<exists>k. e' = e\<lparr>me_dLastSeen := clock env k\<rparr>))"
    if "allowed" "(m, d) \<in> set (seen_pairs (m_lstMACSeen nw))"
    using that assms(1) new t tl seen
    by (intro exI [of _ es] exI [of _ n]) (simp add: addMAC_def Let_def)
  show "\<exists>es n t. addMAC env m d nw =
           (True, (scheduleEvent (new_mac_event MACAddressDiscovered d m) nw1)
              \<lparr>m_lstMACSeen := es @ [\<lparr>me_strMAC = m, me_strDeviceName = d, me_strHostName = [],
                 me_strIP = [], me_dFirstSeen = clock env t, me_dLastSeen = clock env t,
                 me_dLastUpdate = 0\<rparr>], nw_readings := n\<rparr>) \<and>
         seen_pairs es = seen_pairs (m_lstMACSeen nw) \<and>
         (\<forall>e' \<in> set es. \<exists>e \<in> set (m_lstMACSeen nw). e' = e \<or> (\<exists>k. e' = e\<lparr>me_dLastSeen := clock env k\<rparr>))"
    if "allowed" "(m, d) \<notin> set (seen_pairs (m_lstMACSeen nw))"
    using that assms(1) new t tl seen
    by (intro exI [of _ es] exI [of _ "Suc n"] exI [of _ n])
       (simp add: addMAC_def Let_def read_time_def scheduleEvent_def)
qed

lemma apply_mac_event [simp]:
  "apply_event (new_mac_event MACAddressDiscovered d m) (ds, ms) = (ds, insert (m, d) ms)"
  "apply_event (new_mac_event MACAddressDisappeared d m) (ds, ms) = (ds, ms - {(m, d)})"
  "apply_event (setEvidence f v w (new_mac_event MACEvidenceChanged d m)) vw = vw"
  "apply_event (new_device_event DeviceAdded d) (ds, ms) = (insert d ds, ms)"
  "apply_event (new_device_event DeviceRemoved d) (ds, ms) = (ds - {d}, ms)"
  "apply_event (setEvidence f v w (new_device_event DeviceEvidenceChanged d)) vw = vw"
  "apply_event (event_setUp b (setStateChangeUp c (new_device_event DeviceStateChanged d))) vw = vw"
  "apply_event (event_setRunning b (setStateChangeRunning c (new_device_event DeviceStateChanged d))) vw = vw"
  by (cases vw; simp add: event_defs)+

definition entry_ok :: "string set \<Rightarrow> macentity \<Rightarrow> bool" where
  "entry_ok ds e \<longleftrightarrow> mac_recorded_ok (me_strMAC e) \<and> 0 \<le> me_dLastSeen e \<and> me_strDeviceName e \<in> ds"

lemma touched_ok:
  assumes "env_ok env" "\<forall>e \<in> set es. entry_ok ds e"
    "\<forall>e' \<in> set es'. \<exists>e \<in> set es. e' = e \<or> (\<exists>k. e' = e\<lparr>me_dLastSeen := clock env k\<rparr>)"
  shows "\<forall>e' \<in> set es'. entry_ok ds e'"
proof
  fix e' assume "e' \<in> set es'"
  with assms(3) obtain e where "e \<in> set es" "e' = e \<or> (\<exists>k. e' = e\<lparr>me_dLastSeen := clock env k\<rparr>)" by blast
  with assms(1,2) show "entry_ok ds e'" by (auto simp: entry_ok_def env_ok_def)
qed

lemma net_inv_seen:
  assumes "net_inv nw" "m_lstDevices nw' = m_lstDevices nw"
    "m_lstEvents nw' = m_lstEvents nw @ evs" "\<forall>ev \<in> set evs. event_ok ev"
    "m_mapMACEvidence nw' = m_mapMACEvidence nw"
    "distinct (seen_pairs (m_lstMACSeen nw'))"
    "\<forall>e \<in> set (m_lstMACSeen nw'). entry_ok (m_strDeviceName ` set (m_lstDevices nw)) e"
  shows "net_inv nw'"
  using assms by (auto simp: net_inv_def entry_ok_def)

lemma net_invD:
  assumes "net_inv nw"
  shows "distinct (map m_strDeviceName (m_lstDevices nw))" "\<forall>dv \<in> set (m_lstDevices nw). device_ok dv"
    "distinct (seen_pairs (m_lstMACSeen nw))"
    "\<forall>e \<in> set (m_lstMACSeen nw). entry_ok (m_strDeviceName ` set (m_lstDevices nw)) e"
    "\<forall>ev \<in> set (m_lstEvents nw). event_ok ev" "evidence_ok (m_mapMACEvidence nw)"
  using assms by (auto simp: net_inv_def entry_ok_def)

lemma addMAC_evolves:
  assumes env: "env_ok env" and d: "d \<in> set (device_names nw)" and m: "\<exists>bs. length bs = 6 \<and> m = network_mac bs"
  shows "evolves nw (snd (addMAC env m d nw)) \<and>
    device_names (snd (addMAC env m d nw)) = device_names nw"
proof -
  obtain b nw1 where a: "macAllowed env m nw = (b, nw1)" by (cases "macAllowed env m nw")
  note l = macAllowed_evolves [OF env a]
  from macAllowed_laws(1) [OF a] obtain dvs where "nw1 = nw\<lparr>m_lstDevices := dvs\<rparr>" by auto
  then have nw1: "m_lstMACSeen nw1 = m_lstMACSeen nw" "m_lstEvents nw1 = m_lstEvents nw"
      "m_mapMACEvidence nw1 = m_mapMACEvidence nw" by simp_all
  have names: "set (device_names nw) = m_strDeviceName ` set (m_lstDevices nw1)"
    using l by (metis device_names_def list.set_map)
  have rec: "b \<Longrightarrow> mac_recorded_ok m"
    using macAllowed_laws(2) [OF a] m by (simp add: mac_recorded_ok_def)
  have cfg: "config (snd (addMAC env m d nw)) = config nw \<and>
      device_names (snd (addMAC env m d nw)) = device_names nw"
    using l a by (auto simp: addMAC_def Let_def read_time_def device_names_def evolves_def
        split: prod.splits if_splits)
  have "evolves nw1 (snd (addMAC env m d nw))"
    unfolding evolves_def
  proof (intro conjI impI)
    show "config (snd (addMAC env m d nw)) = config nw1" using cfg l by (simp add: evolves_def)
    assume inv: "net_inv nw1"
    then have ts: "\<forall>e \<in> set (m_lstMACSeen nw). 0 \<le> me_dLastSeen e" by (simp add: net_inv_def nw1)
    note c = addMAC_cases [OF a ts, of d]
    show "net_inv (snd (addMAC env m d nw))"
    proof (cases b)
      case False
      with c(1) inv show ?thesis by simp
    next
      case True
      show ?thesis
      proof (cases "(m, d) \<in> set (seen_pairs (m_lstMACSeen nw))")
        case in_seen: True
        from c(2) [OF True in_seen] obtain es n where
            es: "addMAC env m d nw = (False, nw1\<lparr>m_lstMACSeen := es, nw_readings := n\<rparr>)"
            "seen_pairs es = seen_pairs (m_lstMACSeen nw)"
            "\<forall>e' \<in> set es. \<exists>e \<in> set (m_lstMACSeen nw1). e' = e \<or> (\<exists>k. e' = e\<lparr>me_dLastSeen := clock env k\<rparr>)"
          unfolding nw1 by blast
        from touched_ok [OF env net_invD(4) [OF inv] es(3)] es(1,2) net_invD(3) [OF inv] show ?thesis
          by (intro net_inv_seen [OF inv, of _ "[]"]) (simp_all add: nw1)
      next
        case new: False
        from c(3) [OF True new] obtain es n t where
            es: "addMAC env m d nw =
              (True, (scheduleEvent (new_mac_event MACAddressDiscovered d m) nw1)
                \<lparr>m_lstMACSeen := es @ [\<lparr>me_strMAC = m, me_strDeviceName = d, me_strHostName = [],
                   me_strIP = [], me_dFirstSeen = clock env t, me_dLastSeen = clock env t,
                   me_dLastUpdate = 0\<rparr>], nw_readings := n\<rparr>)"
            "seen_pairs es = seen_pairs (m_lstMACSeen nw)"
            "\<forall>e' \<in> set es. \<exists>e \<in> set (m_lstMACSeen nw1). e' = e \<or> (\<exists>k. e' = e\<lparr>me_dLastSeen := clock env k\<rparr>)"
          unfolding nw1 by blast
        have "entry_ok (m_strDeviceName ` set (m_lstDevices nw1)) \<lparr>me_strMAC = m, me_strDeviceName = d,
            me_strHostName = [], me_strIP = [], me_dFirstSeen = clock env t, me_dLastSeen = clock env t,
            me_dLastUpdate = 0\<rparr>"
          using rec [OF True] d names env by (simp add: entry_ok_def env_ok_def)
        with touched_ok [OF env net_invD(4) [OF inv] es(3)] es(1,2) net_invD(3) [OF inv] new show ?thesis
          by (intro net_inv_seen [OF inv, of _ "[new_mac_event MACAddressDiscovered d m]"])
             (auto simp: nw1)
      qed
    qed
    show "explains nw1 (snd (addMAC env m d nw))"
    proof (cases b)
      case False
      with c(1) show ?thesis by simp
    next
      case True
      show ?thesis
      proof (cases "(m, d) \<in> set (seen_pairs (m_lstMACSeen nw))")
        case in_seen: True
        from c(2) [OF True in_seen] show ?thesis
          unfolding explains_def by (intro exI [of _ "[]"]) (auto simp: nw1 view_of_def)
      next
        case new: False
        from c(3) [OF True new] show ?thesis
          unfolding explains_def
          by (intro exI [of _ "[new_mac_event MACAddressDiscovered d m]"])
             (auto simp: nw1 view_of_def)
      qed
    qed
  qed
  with l cfg show ?thesis using evolves_trans by blast
qed

section \<open>Evidence\<close>

lemma set_smap_set: "set (smap_set k v m) \<subseteq> insert (k, v) (set m)"
  by (induction k v m rule: smap_set.induct) auto

lemma evidence_ok_set: "evidence_ok m \<Longrightarrow> smap_ok inner \<Longrightarrow> evidence_ok (smap_set k inner m)"
  using set_smap_set [of k inner m] by (auto simp: evidence_ok_def)

lemma evidence_ok_at:
  assumes "evidence_ok m" "smap_at [] k m = (inner, outer)"
  shows "smap_ok inner" "evidence_ok outer"
proof -
  show "smap_ok inner"
    using assms by (auto simp: smap_at_def evidence_ok_def split: option.splits dest!: smap_get_Some_in)
  show "evidence_ok outer"
    using assms evidence_ok_set [of m "[]" k] by (auto simp: smap_at_def split: option.splits)
qed

lemma evolves_quiet:
  assumes "config nw' = config nw" "m_lstEvents nw' = m_lstEvents nw"
    "m_lstDevices nw' = m_lstDevices nw" "m_lstMACSeen nw' = m_lstMACSeen nw"
    "evidence_ok (m_mapMACEvidence nw) \<Longrightarrow> evidence_ok (m_mapMACEvidence nw')"
  shows "evolves nw nw'"
proof -
  have "explains nw nw'"
    unfolding explains_def using assms by (intro exI [of _ "[]"]) (simp add: view_of_def)
  with assms show ?thesis by (simp add: evolves_def net_inv_def)
qed

lemma evolves_evidence_event:
  assumes "config nw' = config nw"
    "m_lstEvents nw' = m_lstEvents nw @ [setEvidence f v w (new_mac_event MACEvidenceChanged d m)]"
    "m_lstDevices nw' = m_lstDevices nw" "m_lstMACSeen nw' = m_lstMACSeen nw"
    "evidence_ok (m_mapMACEvidence nw) \<Longrightarrow> evidence_ok (m_mapMACEvidence nw')"
  shows "evolves nw nw'"
proof -
  have "explains nw nw'"
    unfolding explains_def using assms
    by (intro exI [of _ "[setEvidence f v w (new_mac_event MACEvidenceChanged d m)]"]) (simp add: view_of_def)
  with assms show ?thesis by (auto simp: evolves_def net_inv_def)
qed

lemma updateMACEvidence_evolves:
  assumes "env_ok env"
  shows "evolves nw (updateMACEvidence env d m k v nw) \<and>
    device_names (updateMACEvidence env d m k v nw) = device_names nw"
proof -
  obtain b nw1 where a: "macAllowed env m nw = (b, nw1)" by (cases "macAllowed env m nw")
  note l = macAllowed_evolves [OF assms a]
  obtain inner outer where o: "smap_at [] m (m_mapMACEvidence nw1) = (inner, outer)"
    by (cases "smap_at [] m (m_mapMACEvidence nw1)")
  obtain former inner' where i: "smap_at [] k inner = (former, inner')" by (cases "smap_at [] k inner")
  have ok: "evidence_ok (smap_set m (smap_set k v inner') outer)" "evidence_ok (smap_set m inner' outer)"
    if "evidence_ok (m_mapMACEvidence nw1)"
    using evidence_ok_at [OF that o] smap_ok_at [of inner "[]" k] i by (auto intro: evidence_ok_set)
  have "evolves nw1 (updateMACEvidence env d m k v nw)"
  proof (cases "b \<and> former \<noteq> v")
    case True
    with a o i ok show ?thesis
      by (intro evolves_evidence_event [of _ _ k v former d m]) (simp_all add: updateMACEvidence_def)
  next
    case False
    with a o i ok show ?thesis
      by (intro evolves_quiet) (simp_all add: updateMACEvidence_def)
  qed
  moreover have "device_names (updateMACEvidence env d m k v nw) = device_names nw1"
    using a o i by (simp add: updateMACEvidence_def device_names_def)
  ultimately show ?thesis using l evolves_trans by metis
qed

section \<open>Detection\<close>

text \<open>The loops of the detection, as instances of the loop contract.\<close>

definition follows :: "network \<Rightarrow> network \<Rightarrow> bool" where
  "follows nw nw' \<longleftrightarrow> evolves nw nw' \<and> device_names nw' = device_names nw"

lemma follows_refl [simp]: "follows nw nw"
  by (simp add: follows_def)

lemma follows_trans: "follows a b \<Longrightarrow> follows b c \<Longrightarrow> follows a c"
  by (auto simp: follows_def intro: evolves_trans)

lemma check_hostname_follows: "env_ok env \<Longrightarrow> follows nw (check_hostname env p nw)"
  using updateMACEvidence_evolves
  by (auto simp: check_hostname_def follows_def split: option.splits)

interpretation hostnames: preserving "\<lambda>p. env_ok env" "follows nw0" "check_hostname env" for env nw0
  by unfold_locales (rule follows_trans [OF _ check_hostname_follows])

lemma checkHostnames_follows: "env_ok env \<Longrightarrow> follows nw (checkHostnames env nw)"
  unfolding checkHostnames_def by (rule hostnames.fold_inv) auto

lemma frame_source_length: "length bs \<ge> 14 \<Longrightarrow> length (frame_source bs) = 6"
  by (simp add: frame_source_def)

lemma read_frame_length:
  assumes "env_ok env" "read_frame env dv = (bs, n)"
  shows "length bs = ETH_FRAME_LEN"
  using assms
  by (cases "frame_in env (m_strDeviceName dv) ETH_FRAME_LEN")
     (auto simp: read_frame_def bufferedRead_def env_ok_def Let_def)


lemma detect_device_follows:
  assumes "env_ok env" "m_strDeviceName dv \<in> set (device_names nw)"
  shows "follows nw (detect_device env dv nw)"
proof -
  obtain bs n where r: "read_frame env dv = (bs, n)" by (cases "read_frame env dv")
  have "length (frame_source bs) = 6"
    using read_frame_length [OF assms(1) r] by (simp add: frame_source_def ETH_FRAME_LEN_def)
  then have a: "follows nw (snd (addMAC env (network_mac (frame_source bs)) (m_strDeviceName dv) nw))"
    using addMAC_evolves [OF assms] by (auto simp: follows_def)
  have u: "follows nw1 (updateMACEvidence env d m k v nw1)" for nw1 d m k v
    using updateMACEvidence_evolves [OF assms(1)] by (simp add: follows_def)
  show ?thesis
    using a follows_trans [OF a u] by (simp add: detect_device_def r Let_def)
qed

interpretation detecting: preserving
    "\<lambda>dv. env_ok env \<and> m_strDeviceName dv \<in> set (device_names nw0)" "follows nw0" "detect_device env"
  for env nw0
proof unfold_locales
  fix dv :: device and nw :: network
  assume "env_ok env \<and> m_strDeviceName dv \<in> set (device_names nw0)" "follows nw0 nw"
  then have "env_ok env" "follows nw0 nw" "m_strDeviceName dv \<in> set (device_names nw)"
    by (auto simp: follows_def)
  then show "follows nw0 (detect_device env dv nw)"
    using follows_trans detect_device_follows by blast
qed

lemma detectNetworkActivity_follows:
  assumes "env_ok env"
  shows "follows nw (detectNetworkActivity env nw)"
proof -
  let ?nw1 = "fold (detect_device env) (m_lstDevices nw) nw"
  have f: "follows nw ?nw1"
    using assms by (intro detecting.fold_inv) (auto simp: device_names_def)
  have r: "follows a (a\<lparr>nw_readings := k\<rparr>)" "follows a (a\<lparr>m_dHostnamesLastChecked := t\<rparr>)" for a k t
    by (auto simp: follows_def device_names_def intro: evolves_quiet)
  have "follows nw (checkHostnames env (?nw1\<lparr>nw_readings := k\<rparr>)\<lparr>m_dHostnamesLastChecked := t\<rparr>)" for k t
    using follows_trans [OF f follows_trans [OF r(1) follows_trans [OF checkHostnames_follows [OF assms] r(2)]]] .
  with follows_trans [OF f r(1)] show ?thesis
    by (simp add: detectNetworkActivity_def read_time_def Let_def)
qed

end
