(* ===== verification/Network_Manage.thy ===== *)
theory Network_Manage
  imports Network_Laws
begin

text \<open>
  The second half of \<open>Network::cycle\<close>: adding and removing devices, the device status, the expiry of
  addresses, the update stamps and the pings; then the cycle as a whole.
\<close>

section \<open>Removing a device\<close>

lemma find_split:
  "find P xs = Some e \<Longrightarrow> \<exists>us vs. xs = us @ e # vs \<and> P e \<and> (\<forall>u \<in> set us. \<not> P u)"
proof (induction xs)
  case (Cons x xs)
  show ?case
  proof (cases "P x")
    case True
    with Cons.prems have "x # xs = [] @ e # xs \<and> P e \<and> (\<forall>u \<in> set []. \<not> P u)" by simp
    then show ?thesis by blast
  next
    case False
    with Cons obtain us vs where "xs = us @ e # vs" "P e" "\<forall>u \<in> set us. \<not> P u" by auto
    with False show ?thesis by (intro exI [of _ "x # us"] exI [of _ vs]) auto
  qed
qed simp

lemma erase_first_split:
  "\<forall>u \<in> set us. \<not> P u \<Longrightarrow> P e \<Longrightarrow> erase_first P (us @ e # vs) = Some (e, us @ vs)"
  by (induction us) auto

definition vanish :: "macentity \<Rightarrow> event" where
  "vanish e = new_mac_event MACAddressDisappeared (me_strDeviceName e) (me_strMAC e)"

lemma vanish_ok [simp]: "event_ok (vanish e)"
  by (simp add: vanish_def)

lemma replay_vanish:
  "replay (map vanish es) (ds, ms) = (ds, ms - set (seen_pairs es))"
  by (induction es arbitrary: ms) (auto simp: vanish_def)

text \<open>All entries of the device go, each with one event, in the order of the list.\<close>

lemma remove_macs_eq:
  "remove_macs d nw =
     nw\<lparr>m_lstMACSeen := filter (\<lambda>e. me_strDeviceName e \<noteq> d) (m_lstMACSeen nw),
        m_lstEvents := m_lstEvents nw @ map vanish (filter (\<lambda>e. me_strDeviceName e = d) (m_lstMACSeen nw))\<rparr>"
proof (induction d nw rule: remove_macs.induct)
  case (1 d nw)
  show ?case
  proof (cases "find (\<lambda>e. me_strDeviceName e = d) (m_lstMACSeen nw)")
    case None
    then have n: "\<forall>e \<in> set (m_lstMACSeen nw). me_strDeviceName e \<noteq> d" by (auto simp: find_None_iff)
    then have "filter (\<lambda>e. me_strDeviceName e = d) (m_lstMACSeen nw) = []"
      by (auto simp: filter_empty_conv)
    with None n show ?thesis by (simp add: remove_macs.simps [of d nw])
  next
    case (Some e)
    from find_split [OF Some] obtain us vs where
        s: "m_lstMACSeen nw = us @ e # vs" "me_strDeviceName e = d" "\<forall>u \<in> set us. me_strDeviceName u \<noteq> d"
      by auto
    have r: "removeMAC d (me_strMAC e) nw = scheduleEvent (vanish e) (nw\<lparr>m_lstMACSeen := us @ vs\<rparr>)"
      using erase_first_split [of us "\<lambda>e'. me_strDeviceName e' = d \<and> me_strMAC e' = me_strMAC e" e vs] s
      by (simp add: removeMAC_def vanish_def)
    have us: "filter (\<lambda>e. me_strDeviceName e = d) us = []" using s by (simp add: filter_empty_conv)
    show ?thesis
      using "1.IH" [OF Some] Some s us
      by (simp add: remove_macs.simps [of d nw] r scheduleEvent_def)
  qed
qed

lemma erase_first_distinct:
  assumes "distinct (map f xs)"
  shows "(case erase_first (\<lambda>x. f x = k) xs of None \<Rightarrow> xs | Some (y, ys) \<Rightarrow> ys) = filter (\<lambda>x. f x \<noteq> k) xs"
proof (cases "erase_first (\<lambda>x. f x = k) xs")
  case None
  then have "\<forall>x \<in> set xs. f x \<noteq> k" by (simp add: erase_first_None_iff)
  with None show ?thesis by simp
next
  case (Some p)
  then obtain y ys where p: "p = (y, ys)" by (cases p)
  with Some obtain us vs where "xs = us @ y # vs" "ys = us @ vs" "f y = k" "\<forall>u \<in> set us. f u \<noteq> k"
    by (auto dest!: erase_first_SomeD)
  moreover from this assms have "\<forall>v \<in> set vs. f v \<noteq> k" by (metis distinct.simps(2) distinct_append list.simps(9) map_append image_eqI list.set_map)
  ultimately show ?thesis using Some p by simp
qed

lemma removeDevice_eq:
  assumes "distinct (device_names nw)"
  shows "snd (removeDevice d nw) =
     nw\<lparr>m_lstDevices := filter (\<lambda>dv. m_strDeviceName dv \<noteq> d) (m_lstDevices nw),
        m_lstMACSeen := filter (\<lambda>e. me_strDeviceName e \<noteq> d) (m_lstMACSeen nw),
        m_lstEvents := m_lstEvents nw @ new_device_event DeviceRemoved d #
          map vanish (filter (\<lambda>e. me_strDeviceName e = d) (m_lstMACSeen nw))\<rparr>"
proof -
  have "(case erase_first (\<lambda>dv. m_strDeviceName dv = d) (m_lstDevices nw) of
           None \<Rightarrow> nw | Some (dv, dvs) \<Rightarrow> nw\<lparr>m_lstDevices := dvs\<rparr>) =
        nw\<lparr>m_lstDevices := filter (\<lambda>dv. m_strDeviceName dv \<noteq> d) (m_lstDevices nw)\<rparr>"
    using erase_first_distinct [of m_strDeviceName "m_lstDevices nw" d] assms
    by (auto simp: device_names_def split: option.splits)
  then show ?thesis
    by (simp add: removeDevice_def remove_macs_eq scheduleEvent_def)
qed

lemma config_removeDevice: "config (snd (removeDevice d nw)) = config nw"
  by (simp add: removeDevice_def remove_macs_eq scheduleEvent_def config_def split: option.splits)

lemma seen_pairs_filter: "set (seen_pairs (filter P es)) = {(me_strMAC e, me_strDeviceName e) |e. e \<in> set es \<and> P e}"
  by (auto simp: seen_pairs_def)

lemma distinct_seen_pairs_filter: "distinct (seen_pairs es) \<Longrightarrow> distinct (seen_pairs (filter P es))"
  by (simp add: seen_pairs_def distinct_map_filter)

lemma seen_pairs_diff:
  "set (seen_pairs es) - set (seen_pairs (filter (\<lambda>e. Q (me_strMAC e) (me_strDeviceName e)) es)) =
     set (seen_pairs (filter (\<lambda>e. \<not> Q (me_strMAC e) (me_strDeviceName e)) es))"
  by (auto simp: seen_pairs_def)

lemma removeDevice_evolves: "evolves nw (snd (removeDevice d nw))"
  unfolding evolves_def
proof (intro conjI impI config_removeDevice)
  assume inv: "net_inv nw"
  let ?gone = "filter (\<lambda>e. me_strDeviceName e = d) (m_lstMACSeen nw)"
  have eq: "snd (removeDevice d nw) =
     nw\<lparr>m_lstDevices := filter (\<lambda>dv. m_strDeviceName dv \<noteq> d) (m_lstDevices nw),
        m_lstMACSeen := filter (\<lambda>e. me_strDeviceName e \<noteq> d) (m_lstMACSeen nw),
        m_lstEvents := m_lstEvents nw @ new_device_event DeviceRemoved d # map vanish ?gone\<rparr>"
    using inv by (intro removeDevice_eq) (simp add: net_inv_def device_names_def)
  show "net_inv (snd (removeDevice d nw))"
    using inv distinct_seen_pairs_filter [of "m_lstMACSeen nw"]
    by (auto simp: eq net_inv_def distinct_map_filter)
  show "explains nw (snd (removeDevice d nw))"
    unfolding explains_def
  proof (intro exI [of _ "new_device_event DeviceRemoved d # map vanish ?gone"] conjI)
    have "set (seen_pairs (m_lstMACSeen nw)) - set (seen_pairs ?gone) =
        set (seen_pairs (filter (\<lambda>e. me_strDeviceName e \<noteq> d) (m_lstMACSeen nw)))"
      by (rule seen_pairs_diff [of _ "\<lambda>m d'. d' = d", simplified])
    then show "replay (new_device_event DeviceRemoved d # map vanish ?gone) (view_of nw) =
        view_of (snd (removeDevice d nw))"
      by (auto simp: eq view_of_def replay_vanish)
  qed (simp add: eq)
qed

interpretation removing: preserving "\<lambda>d. True" "evolves nw0" "\<lambda>d nw. snd (removeDevice d nw)" for nw0
  by unfold_locales (rule evolves_trans [OF _ removeDevice_evolves])

section \<open>Adding a device\<close>

text \<open>No pattern of the list is malformed.\<close>

definition patterns_ok :: "net_env \<Rightarrow> network \<Rightarrow> bool" where
  "patterns_ok env nw \<longleftrightarrow>
     (\<forall>p \<in> set (m_lstDeviceWhiteBlackList nw). \<forall>d. regex_match env p d \<noteq> None)"

definition is_listed :: "net_env \<Rightarrow> network \<Rightarrow> string \<Rightarrow> bool" where
  "is_listed env nw d \<longleftrightarrow>
     (\<exists>p \<in> set (m_lstDeviceWhiteBlackList nw). regex_match env p d = Some True)"

definition may_observe :: "net_env \<Rightarrow> network \<Rightarrow> string \<Rightarrow> bool" where
  "may_observe env nw d \<longleftrightarrow>
     (case m_wbmDevices nw of Whitelist \<Rightarrow> is_listed env nw d | Blacklist \<Rightarrow> \<not> is_listed env nw d)"

lemma device_in_list_eq:
  "\<forall>p \<in> set ps. regex_match env p d \<noteq> None \<Longrightarrow>
     device_in_list env d ps b = Inr (b \<or> (\<exists>p \<in> set ps. regex_match env p d = Some True))"
  by (induction ps arbitrary: b) (auto split: option.splits)

lemma deviceAllowed_eq:
  "patterns_ok env nw \<Longrightarrow> deviceAllowed env d nw = Inr (may_observe env nw d)"
  using device_in_list_eq [of "m_lstDeviceWhiteBlackList nw" env d False]
  by (cases "m_wbmDevices nw") (auto simp: deviceAllowed_def patterns_ok_def may_observe_def is_listed_def)

lemma patterns_ok_config: "config nw' = config nw \<Longrightarrow> patterns_ok env nw' = patterns_ok env nw"
  by (simp add: patterns_ok_def config_def)

lemma may_observe_config: "config nw' = config nw \<Longrightarrow> may_observe env nw' = may_observe env nw"
  by (simp add: may_observe_def is_listed_def config_def fun_eq_iff split: WhiteBlackListMode.split)

lemma systemDeviceNames_config: "config nw' = config nw \<Longrightarrow> systemDeviceNames env nw' = systemDeviceNames env nw"
  by (simp add: systemDeviceNames_def config_def)

lemma knownDevice_None_iff: "knownDevice d nw = None \<longleftrightarrow> d \<notin> set (device_names nw)"
  by (auto simp: knownDevice_def find_None_iff device_names_def)

lemma deviceHardwareType_total:
  "d \<in> set (systemDeviceNames env nw) \<Longrightarrow> \<exists>hw. deviceHardwareType env d nw = Inr hw"
  by (auto simp: deviceHardwareType_def split: option.splits)

lemma new_device_name [simp]: "m_strDeviceName (new_device d hw) = d"
  by (simp add: new_device_def)

text \<open>A device that is added is new, and two events tell so.\<close>

lemma addDevice_Some:
  assumes "addDevice env d nw = Inr (True, nw')"
  shows "\<exists>dv mac. m_strDeviceName dv = d \<and> (env_ok env \<longrightarrow> device_ok dv) \<and> d \<notin> set (device_names nw) \<and>
    nw' = nw\<lparr>m_lstDevices := m_lstDevices nw @ [dv],
      m_lstEvents := m_lstEvents nw @ [new_device_event DeviceAdded d,
        setEvidence ''mac'' mac [] (new_device_event DeviceEvidenceChanged d)]\<rparr>"
proof -
  from assms obtain hw where a: "deviceAllowed env d nw = Inr True" "knownDevice d nw = None"
      "systemDeviceNameExists d nw" "deviceHardwareType env d nw = Inr hw"
    unfolding addDevice_def by (fastforce simp: bind_r_Inr_iff split: if_splits)
  obtain mac dv where m: "mac_of env (new_device d hw) = (mac, dv)" by (cases "mac_of env (new_device d hw)")
  have "m_strDeviceName dv = d" "env_ok env \<Longrightarrow> device_ok dv"
    using mac_of_name [of env "new_device d hw"] mac_of_ok [of env "new_device d hw"] m
    by auto
  with a m assms show ?thesis
    by (intro exI [of _ dv] exI [of _ mac])
       (simp add: addDevice_def scheduleEvent_def knownDevice_None_iff)
qed

lemma addDevice_False: "addDevice env d nw = Inr (False, nw') \<Longrightarrow> nw' = nw"
  by (auto simp: addDevice_def bind_r_Inr_iff Let_def split: if_splits prod.splits)

lemma addDevice_evolves:
  assumes "env_ok env" "addDevice env d nw = Inr (b, nw')"
  shows "evolves nw nw'"
proof (cases b)
  case False
  with assms addDevice_False show ?thesis by fastforce
next
  case True
  with assms(2) have "addDevice env d nw = Inr (True, nw')" by simp
  from addDevice_Some [OF this] assms(1) obtain dv mac where dv: "m_strDeviceName dv = d" "device_ok dv"
      "d \<notin> set (device_names nw)" and nw': "nw' = nw\<lparr>m_lstDevices := m_lstDevices nw @ [dv],
      m_lstEvents := m_lstEvents nw @ [new_device_event DeviceAdded d,
        setEvidence ''mac'' mac [] (new_device_event DeviceEvidenceChanged d)]\<rparr>"
    by blast
  have "explains nw nw'"
    unfolding explains_def
    by (intro exI [of _ "[new_device_event DeviceAdded d,
        setEvidence ''mac'' mac [] (new_device_event DeviceEvidenceChanged d)]"])
       (auto simp: nw' view_of_def dv)
  moreover have "net_inv nw \<Longrightarrow> net_inv nw'"
    using dv by (auto simp: nw' net_inv_def device_names_def)
  ultimately show ?thesis by (auto simp: nw' evolves_def config_def)
qed

lemma addDevice_total:
  assumes "patterns_ok env nw" "m_lstSystemDeviceNames nw = systemDeviceNames env nw"
  shows "\<exists>b nw'. addDevice env d nw = Inr (b, nw') \<and>
    m_lstSystemDeviceNames nw' = m_lstSystemDeviceNames nw \<and>
    set (device_names nw') = set (device_names nw) \<union>
      (if may_observe env nw d \<and> d \<in> set (systemDeviceNames env nw) then {d} else {})"
proof (cases "may_observe env nw d \<and> knownDevice d nw = None \<and> systemDeviceNameExists d nw")
  case True
  with assms have "d \<in> set (systemDeviceNames env nw)" by (simp add: systemDeviceNameExists_def)
  from deviceHardwareType_total [OF this] obtain hw where "deviceHardwareType env d nw = Inr hw" ..
  moreover obtain mac dv where m: "mac_of env (new_device d hw) = (mac, dv)"
    by (cases "mac_of env (new_device d hw)")
  moreover have "m_strDeviceName dv = d"
    using mac_of_name [of env "new_device d hw"] m by simp
  ultimately show ?thesis
    using True assms deviceAllowed_eq [OF assms(1), of d]
    by (auto simp: addDevice_def Let_def device_names_def systemDeviceNameExists_def)
next
  case False
  with assms deviceAllowed_eq [OF assms(1), of d] show ?thesis
    by (auto simp: addDevice_def knownDevice_None_iff systemDeviceNameExists_def)
qed

definition add_step :: "net_env \<Rightarrow> string \<Rightarrow> network \<Rightarrow> network result" where
  "add_step env d nw = bind_r (addDevice env d nw) (\<lambda>(b, nw). Inr nw)"

interpretation adding: preserving_r "\<lambda>d. env_ok env" "evolves nw0" "add_step env" for env nw0
  by unfold_locales (auto simp: add_step_def bind_r_Inr_iff intro: evolves_trans addDevice_evolves)

definition addable :: "net_env \<Rightarrow> network \<Rightarrow> bool" where
  "addable env nw \<longleftrightarrow> env_ok env \<and> patterns_ok env nw \<and> m_lstSystemDeviceNames nw = systemDeviceNames env nw"

lemma add_step_total:
  assumes "addable env nw"
  shows "\<exists>nw'. add_step env d nw = Inr nw' \<and> addable env nw' \<and> config nw' = config nw \<and>
    set (device_names nw') = set (device_names nw) \<union>
      (if may_observe env nw d \<and> d \<in> set (systemDeviceNames env nw) then {d} else {})"
proof -
  from assms addDevice_total [of env nw d] obtain b nw' where
      a: "addDevice env d nw = Inr (b, nw')" "m_lstSystemDeviceNames nw' = m_lstSystemDeviceNames nw"
      "set (device_names nw') = set (device_names nw) \<union>
        (if may_observe env nw d \<and> d \<in> set (systemDeviceNames env nw) then {d} else {})"
    unfolding addable_def by blast
  have cfg: "config nw' = config nw"
    using addDevice_evolves [OF _ a(1)] assms by (simp add: addable_def evolves_def)
  have "addable env nw'"
    using assms a(2) unfolding addable_def patterns_ok_config [OF cfg] systemDeviceNames_config [OF cfg] by simp
  moreover have "add_step env d nw = Inr nw'" by (simp add: add_step_def a(1))
  ultimately show ?thesis using cfg a(3) by blast
qed

interpretation adding_total: preserving_total "\<lambda>d. True" "addable env" "add_step env" for env
proof unfold_locales
  fix d nw nw' assume "addable env nw" "add_step env d nw = Inr nw'"
  with add_step_total [of env nw d] show "addable env nw'" by auto
next
  fix d nw assume "addable env nw"
  with add_step_total [of env nw d] show "\<exists>nw'. add_step env d nw = Inr nw'" by auto
qed

section \<open>Managing the devices\<close>

lemma manage_devices_eq:
  "manage_devices env nw =
     (if m_bAutoManageDevices nw
      then fold_r (add_step env) (filter (\<lambda>d. knownDevice d nw = None) (m_lstSystemDeviceNames nw))
             (fold (\<lambda>d nw. snd (removeDevice d nw))
                (filter (\<lambda>d. d \<notin> set (m_lstSystemDeviceNames nw)) (device_names nw)) nw)
      else Inr nw)"
proof -
  have "add_step env = (\<lambda>d nw. bind_r (addDevice env d nw) (\<lambda>(b, nw). Inr nw))"
    by (intro ext) (simp add: add_step_def)
  then show ?thesis by (simp add: manage_devices_def device_names_def Let_def)
qed

lemma manage_evolves:
  assumes "env_ok env" "manage_devices env nw = Inr nw'"
  shows "evolves nw nw'"
proof (cases "m_bAutoManageDevices nw")
  case True
  let ?rem = "filter (\<lambda>d. d \<notin> set (m_lstSystemDeviceNames nw)) (device_names nw)"
  from True assms(2) show ?thesis
    using adding.fold_r_inv [OF removing.fold_inv [OF evolves_refl, of ?rem nw], of _ env nw'] assms(1)
    by (simp add: manage_devices_eq)
next
  case False
  with assms show ?thesis by (simp add: manage_devices_def)
qed

lemma removeDevice_names:
  "distinct (device_names nw) \<Longrightarrow> device_names (snd (removeDevice d nw)) = filter (\<lambda>x. x \<noteq> d) (device_names nw)"
  by (simp add: removeDevice_eq device_names_def filter_map o_def)

lemma removeDevice_system [simp]:
  "m_lstSystemDeviceNames (snd (removeDevice d nw)) = m_lstSystemDeviceNames nw"
  by (simp add: removeDevice_def remove_macs_eq split: option.splits)

lemma fold_removeDevice:
  "distinct (device_names nw) \<Longrightarrow>
     device_names (fold (\<lambda>d nw. snd (removeDevice d nw)) ds nw) = filter (\<lambda>x. x \<notin> set ds) (device_names nw) \<and>
     m_lstSystemDeviceNames (fold (\<lambda>d nw. snd (removeDevice d nw)) ds nw) = m_lstSystemDeviceNames nw \<and>
     config (fold (\<lambda>d nw. snd (removeDevice d nw)) ds nw) = config nw"
proof (induction ds arbitrary: nw)
  case (Cons d ds)
  have "distinct (device_names (snd (removeDevice d nw)))" using Cons.prems by (simp add: removeDevice_names)
  from Cons.IH [OF this] show ?case
    by (auto simp: removeDevice_names [OF Cons.prems] config_removeDevice intro: filter_cong)
qed simp

lemma fold_add_step:
  assumes "addable env nw"
  shows "\<exists>nw'. fold_r (add_step env) ds nw = Inr nw' \<and> addable env nw' \<and> config nw' = config nw \<and>
    set (device_names nw') = set (device_names nw) \<union>
      {d \<in> set ds. may_observe env nw d \<and> d \<in> set (systemDeviceNames env nw)}"
  using assms
proof (induction ds arbitrary: nw)
  case (Cons d ds)
  from add_step_total [OF Cons.prems, of d] obtain nw1 where
      1: "add_step env d nw = Inr nw1" "addable env nw1" "config nw1 = config nw"
      "set (device_names nw1) = set (device_names nw) \<union>
        (if may_observe env nw d \<and> d \<in> set (systemDeviceNames env nw) then {d} else {})" by blast
  note same = may_observe_config [OF 1(3), of env] systemDeviceNames_config [OF 1(3), of env]
  from Cons.IH [OF 1(2)] obtain nw' where
      "fold_r (add_step env) ds nw1 = Inr nw'" "addable env nw'" "config nw' = config nw1"
      "set (device_names nw') = set (device_names nw1) \<union>
        {d \<in> set ds. may_observe env nw d \<and> d \<in> set (systemDeviceNames env nw)}"
    unfolding same by blast
  with 1 show ?case by (intro exI [of _ nw']) auto
qed simp

text \<open>
  What the automatic management achieves: the observed devices that are still in the system stay, and
  of the others exactly those the lists allow are observed.
\<close>

lemma manage_total:
  assumes "addable env nw" "distinct (device_names nw)"
  shows "\<exists>nw'. manage_devices env nw = Inr nw' \<and> addable env nw' \<and> config nw' = config nw \<and>
    (m_bAutoManageDevices nw \<longrightarrow>
       set (device_names nw') = {d \<in> set (systemDeviceNames env nw).
         d \<in> set (device_names nw) \<or> may_observe env nw d})"
proof (cases "m_bAutoManageDevices nw")
  case True
  let ?rem = "filter (\<lambda>d. d \<notin> set (m_lstSystemDeviceNames nw)) (device_names nw)"
  let ?add = "filter (\<lambda>d. knownDevice d nw = None) (m_lstSystemDeviceNames nw)"
  let ?nw1 = "fold (\<lambda>d nw. snd (removeDevice d nw)) ?rem nw"
  note r = fold_removeDevice [OF assms(2), of ?rem]
  then have cfg: "config ?nw1 = config nw" by blast
  note same = may_observe_config [OF cfg, of env] systemDeviceNames_config [OF cfg, of env]
  have "addable env ?nw1"
    using assms(1) r patterns_ok_config [OF cfg] same by (simp add: addable_def)
  from fold_add_step [OF this, of ?add] obtain nw' where
      "fold_r (add_step env) ?add ?nw1 = Inr nw'" "addable env nw'" "config nw' = config ?nw1"
      "set (device_names nw') = set (device_names ?nw1) \<union>
        {d \<in> set ?add. may_observe env nw d \<and> d \<in> set (systemDeviceNames env nw)}"
    unfolding same by blast
  with True r assms(1) show ?thesis
    by (intro exI [of _ nw']) (auto simp: manage_devices_eq addable_def knownDevice_None_iff)
next
  case False
  with assms show ?thesis by (simp add: manage_devices_def)
qed

section \<open>Status, expiry, stamps and pings\<close>

definition quiet :: "event \<Rightarrow> bool" where
  "quiet ev \<longleftrightarrow> (\<forall>vw. apply_event ev vw = vw)"

lemma replay_quiet: "\<forall>ev \<in> set es. quiet ev \<Longrightarrow> replay es vw = vw"
proof (induction es)
  case (Cons ev es)
  then have "apply_event ev vw = vw" by (simp only: quiet_def list.set insert_iff simp_thms)
  with Cons show ?case by simp
qed simp

lemma quiet_status [simp]:
  "quiet (setEvidence f v w (new_device_event DeviceEvidenceChanged d))"
  "quiet (event_setUp b (setStateChangeUp c (new_device_event DeviceStateChanged d)))"
  "quiet (event_setRunning b (setStateChangeRunning c (new_device_event DeviceStateChanged d)))"
  by (simp_all add: quiet_def)

lemma ball_opt [simp]: "(\<forall>x \<in> set (if c then [a] else []). P x) \<longleftrightarrow> (c \<longrightarrow> P a)"
  by simp

lemma maintainDeviceStatus_laws:
  assumes "env_ok env" "maintainDeviceStatus env fd dv = (dv', es)"
  shows "m_strDeviceName dv' = m_strDeviceName dv" "device_ok dv \<Longrightarrow> device_ok dv'"
    "\<forall>ev \<in> set es. event_ok ev \<and> quiet ev"
proof -
  have ip: "ip_text (inet_ntoa (if_addr env d))" "ip_text (inet_ntoa (if_brdaddr env d))" for d
    using assms(1) by (auto simp: env_ok_def intro: ip_text_ntoa)
  show "m_strDeviceName dv' = m_strDeviceName dv"
    using assms(2) by (auto simp: maintainDeviceStatus_def Let_def setUp_def setRunning_def setIP_def
        setBroadcastIP_def split: if_splits)
  show "device_ok dv \<Longrightarrow> device_ok dv'"
    using assms(2) ip by (auto simp: maintainDeviceStatus_def Let_def setUp_def setRunning_def setIP_def
        setBroadcastIP_def device_ok_def split: if_splits)
  show "\<forall>ev \<in> set es. event_ok ev \<and> quiet ev"
    using assms(2) by (cases "fd \<ge> 0") (auto simp: maintainDeviceStatus_def Let_def ball_Un simp del: list.set(2))
qed

lemma maintain_all_laws:
  assumes "env_ok env"
  shows "maintain_all env fd dvs = (dvs', es) \<Longrightarrow>
    map m_strDeviceName dvs' = map m_strDeviceName dvs \<and>
    ((\<forall>dv \<in> set dvs. device_ok dv) \<longrightarrow> (\<forall>dv \<in> set dvs'. device_ok dv)) \<and>
    (\<forall>ev \<in> set es. event_ok ev \<and> quiet ev)"
proof (induction dvs arbitrary: dvs' es)
  case (Cons dv dvs)
  obtain dv1 es1 where 1: "maintainDeviceStatus env fd dv = (dv1, es1)"
    by (cases "maintainDeviceStatus env fd dv")
  obtain dvs2 es2 where 2: "maintain_all env fd dvs = (dvs2, es2)" by (cases "maintain_all env fd dvs")
  from Cons.prems 1 2 have e: "dvs' = dv1 # dvs2" "es = es1 @ es2" by simp_all
  note laws = maintainDeviceStatus_laws [OF assms 1]
  from Cons.IH [OF 2] show ?case unfolding e set_append
    using laws by (simp add: ball_Un)
qed simp

lemma maintain_follows:
  assumes "env_ok env"
  shows "follows nw (maintain_devices env nw)"
proof -
  obtain dvs es where m: "maintain_all env (m_nSocketFDControl nw) (m_lstDevices nw) = (dvs, es)"
    by (cases "maintain_all env (m_nSocketFDControl nw) (m_lstDevices nw)")
  note l = maintain_all_laws [OF assms m]
  then have names: "map m_strDeviceName dvs = device_names nw" by (simp add: device_names_def)
  have e: "maintain_devices env nw = nw\<lparr>m_lstDevices := dvs, m_lstEvents := m_lstEvents nw @ es\<rparr>"
    by (simp add: maintain_devices_def m)
  have "view_of (maintain_devices env nw) = view_of nw"
    using names_set [OF names] by (simp add: e view_of_def)
  then have "explains nw (maintain_devices env nw)"
    unfolding explains_def using l by (intro exI [of _ es]) (simp add: e replay_quiet)
  moreover have "net_inv nw \<Longrightarrow> net_inv (maintain_devices env nw)"
    using l names names_set [OF names] by (auto simp: e net_inv_def device_names_def)
  ultimately show ?thesis
    using names by (simp add: follows_def evolves_def e config_def device_names_def)
qed

lemma fold_schedule: "fold (\<lambda>e. scheduleEvent (f e)) es nw = nw\<lparr>m_lstEvents := m_lstEvents nw @ map f es\<rparr>"
  by (induction es arbitrary: nw) (simp_all add: scheduleEvent_def)

definition expired :: "time \<Rightarrow> network \<Rightarrow> macentity \<Rightarrow> bool" where
  "expired t nw e \<longleftrightarrow> t - me_dLastSeen e > m_dMaxMACAge nw"

lemma expire_macs_eq:
  "expire_macs t nw =
     nw\<lparr>m_lstMACSeen := filter (\<lambda>e. \<not> expired t nw e) (m_lstMACSeen nw),
        m_lstEvents := m_lstEvents nw @ map vanish (filter (expired t nw) (m_lstMACSeen nw))\<rparr>"
  by (simp add: expire_macs_def erase_loop_eq fold_schedule expired_def [abs_def] vanish_def [abs_def])

lemma seen_pairs_filter_diff:
  "distinct (seen_pairs es) \<Longrightarrow>
     set (seen_pairs es) - set (seen_pairs (filter P es)) = set (seen_pairs (filter (\<lambda>e. \<not> P e) es))"
  by (induction es) (auto simp: seen_pairs_def)

lemma expire_follows: "follows nw (expire_macs t nw)"
proof -
  have "explains nw (expire_macs t nw)" if "net_inv nw"
    unfolding explains_def
    using seen_pairs_filter_diff [OF net_invD(3) [OF that], of "expired t nw"]
    by (intro exI [of _ "map vanish (filter (expired t nw) (m_lstMACSeen nw))"])
       (simp add: expire_macs_eq view_of_def replay_vanish)
  moreover have "net_inv nw \<Longrightarrow> net_inv (expire_macs t nw)"
    using distinct_seen_pairs_filter [of "m_lstMACSeen nw"] by (auto simp: expire_macs_eq net_inv_def)
  ultimately show ?thesis
    by (simp add: follows_def evolves_def expire_macs_eq config_def device_names_def)
qed

lemma stamp_follows: "follows nw (stamp_updates t nw)"
proof -
  have p: "seen_pairs (m_lstMACSeen (stamp_updates t nw)) = seen_pairs (m_lstMACSeen nw)"
    by (simp add: stamp_updates_def seen_pairs_def)
  then have "explains nw (stamp_updates t nw)"
    unfolding explains_def by (intro exI [of _ "[]"]) (simp add: stamp_updates_def view_of_def)
  moreover have "net_inv (stamp_updates t nw)" if inv: "net_inv nw"
  proof (rule net_inv_seen [OF inv, of _ "[]"])
    show "\<forall>e \<in> set (m_lstMACSeen (stamp_updates t nw)). entry_ok (m_strDeviceName ` set (m_lstDevices nw)) e"
      using net_invD(4) [OF inv] by (auto simp: stamp_updates_def entry_ok_def)
    show "distinct (seen_pairs (m_lstMACSeen (stamp_updates t nw)))" unfolding p by (rule net_invD(3) [OF inv])
  qed (simp_all add: stamp_updates_def)
  ultimately show ?thesis
    by (simp add: follows_def evolves_def stamp_updates_def config_def device_names_def)
qed

lemma ping_all_ok:
  assumes "env_ok env"
  shows "\<forall>dv \<in> set dvs. device_ok dv \<Longrightarrow>
    \<exists>dvs' outs. ping_all env t i dvs = Inr (dvs', outs) \<and> (\<forall>dv \<in> set dvs'. device_ok dv) \<and>
      map m_strDeviceName dvs' = map m_strDeviceName dvs"
proof (induction dvs)
  case (Cons dv dvs)
  then obtain dvs' outs where "ping_all env t i dvs = Inr (dvs', outs)" "\<forall>dv \<in> set dvs'. device_ok dv"
      "map m_strDeviceName dvs' = map m_strDeviceName dvs" by auto
  moreover from sendPingBroadcast_ok [OF assms, of dv t i] Cons.prems obtain out dv' where
      "sendPingBroadcast env t i dv = Inr (out, dv')" "device_ok dv'" "m_strDeviceName dv' = m_strDeviceName dv"
    by auto
  ultimately show ?case by simp
qed simp

lemma ping_total:
  assumes "env_ok env" "\<forall>dv \<in> set (m_lstDevices nw). device_ok dv"
  shows "\<exists>nw'. ping_devices env t nw = Inr nw' \<and> follows nw nw' \<and> m_lstMACSeen nw' = m_lstMACSeen nw \<and>
    m_lstEvents nw' = m_lstEvents nw"
proof -
  from ping_all_ok [OF assms, of t "m_dPingBroadcastInterval nw"] obtain dvs outs where
      p: "ping_all env t (m_dPingBroadcastInterval nw) (m_lstDevices nw) = Inr (dvs, outs)"
      "\<forall>dv \<in> set dvs. device_ok dv" "map m_strDeviceName dvs = device_names nw"
    by (auto simp: device_names_def)
  have "evolves nw (nw\<lparr>m_lstDevices := dvs\<rparr>)" using p by (intro evolves_devices) auto
  moreover have "evolves (nw\<lparr>m_lstDevices := dvs\<rparr>) (nw\<lparr>m_lstDevices := dvs, nw_wire := nw_wire nw @ outs\<rparr>)"
    by (rule evolves_quiet) simp_all
  ultimately have "evolves nw (nw\<lparr>m_lstDevices := dvs, nw_wire := nw_wire nw @ outs\<rparr>)"
    by (rule evolves_trans)
  with p show ?thesis by (simp add: ping_devices_def follows_def device_names_def)
qed

section \<open>The cycle\<close>

lemma followsD:
  assumes "follows nw nw'"
  shows "evolves nw nw'" "config nw' = config nw" "device_names nw' = device_names nw"
    "net_inv nw \<Longrightarrow> net_inv nw'" "net_inv nw \<Longrightarrow> explains nw nw'"
  using assms by (auto simp: follows_def evolves_def)

text \<open>The state between the two halves of the cycle, and the second half after the management.\<close>

definition detected :: "net_env \<Rightarrow> network \<Rightarrow> network" where
  "detected env nw =
     (let nw = detectNetworkActivity env (nw\<lparr>nw_readings := Suc (nw_readings nw), m_lstEvents := []\<rparr>)
      in nw\<lparr>m_lstSystemDeviceNames := systemDeviceNames env nw\<rparr>)"

definition settled :: "net_env \<Rightarrow> time \<Rightarrow> network \<Rightarrow> network" where
  "settled env t nw = stamp_updates t (expire_macs t (maintain_devices env nw))"

lemma detected_laws:
  assumes "env_ok env"
  shows "config (detected env nw) = config nw" "device_names (detected env nw) = device_names nw"
    "net_inv nw \<Longrightarrow> net_inv (detected env nw)"
    "net_inv nw \<Longrightarrow> replay (m_lstEvents (detected env nw)) (view_of nw) = view_of (detected env nw)"
    "m_lstSystemDeviceNames (detected env nw) = systemDeviceNames env (detected env nw)"
proof -
  let ?nw0 = "nw\<lparr>nw_readings := Suc (nw_readings nw), m_lstEvents := []\<rparr>"
  let ?nw1 = "detectNetworkActivity env ?nw0"
  note f = followsD [OF detectNetworkActivity_follows [OF assms, of ?nw0]]
  have q: "follows ?nw1 (detected env nw)"
    by (auto simp: follows_def detected_def Let_def device_names_def intro: evolves_quiet)
  show c: "config (detected env nw) = config nw" using f(2) by (simp add: detected_def Let_def)
  show "device_names (detected env nw) = device_names nw"
    using f(3) by (simp add: detected_def Let_def device_names_def)
  show "m_lstSystemDeviceNames (detected env nw) = systemDeviceNames env (detected env nw)"
    by (simp add: detected_def Let_def systemDeviceNames_def)
  assume inv: "net_inv nw"
  then have inv0: "net_inv ?nw0" by (simp add: net_inv_def)
  show "net_inv (detected env nw)" using f(4) [OF inv0] followsD(4) [OF q] by blast
  have "explains ?nw0 (detected env nw)"
    using explains_trans [OF f(5) [OF inv0] followsD(5) [OF q f(4) [OF inv0]]] .
  then show "replay (m_lstEvents (detected env nw)) (view_of nw) = view_of (detected env nw)"
    by (auto simp: explains_def view_of_def)
qed

lemma settled_follows: "env_ok env \<Longrightarrow> follows nw (settled env t nw)"
  unfolding settled_def
  using follows_trans [OF follows_trans [OF maintain_follows expire_follows] stamp_follows] .

lemma cycle_eq:
  "cycle env nw =
     bind_r (manage_devices env (detected env nw)) (\<lambda>nw1.
     bind_r (ping_devices env (clock env (nw_readings nw)) (settled env (clock env (nw_readings nw)) nw1))
       (\<lambda>nw. Inr (m_bShouldRun nw, nw)))"
  by (simp add: cycle_def detected_def settled_def read_time_def Let_def)

lemma cycle_SomeD:
  assumes "env_ok env" "net_inv nw" "cycle env nw = Inr (r, nw')"
  shows "\<exists>nw1 nw2. manage_devices env (detected env nw) = Inr nw1 \<and>
    nw2 = settled env (clock env (nw_readings nw)) nw1 \<and> net_inv nw1 \<and>
    explains (detected env nw) nw1 \<and> follows nw1 nw2 \<and> follows nw2 nw' \<and>
    m_lstMACSeen nw' = m_lstMACSeen nw2 \<and> config nw1 = config nw \<and> r = m_bShouldRun nw'"
proof -
  from assms(3) obtain nw1 where nw1: "manage_devices env (detected env nw) = Inr nw1"
      "bind_r (ping_devices env (clock env (nw_readings nw)) (settled env (clock env (nw_readings nw)) nw1))
         (\<lambda>nw. Inr (m_bShouldRun nw, nw)) = Inr (r, nw')"
    unfolding cycle_eq bind_r_Inr_iff by blast
  let ?nw2 = "settled env (clock env (nw_readings nw)) nw1"
  note e = manage_evolves [OF assms(1) nw1(1)]
  note d = detected_laws [OF assms(1), of nw]
  from e d(3) [OF assms(2)] have inv1: "net_inv nw1" "explains (detected env nw) nw1"
      "config nw1 = config nw" using d(1) by (auto simp: evolves_def)
  note s = settled_follows [OF assms(1), of nw1 "clock env (nw_readings nw)"]
  have "\<forall>dv \<in> set (m_lstDevices ?nw2). device_ok dv"
    using followsD(4) [OF s inv1(1)] by (rule net_invD(2))
  from ping_total [OF assms(1) this, of "clock env (nw_readings nw)"] nw1(2) have "follows ?nw2 nw'" "m_lstMACSeen nw' = m_lstMACSeen ?nw2"
      "r = m_bShouldRun nw'" by (auto simp: bind_r_Inr_iff)
  with nw1 inv1 s show ?thesis by blast
qed
end
