(* ===== verification/Network_Props.thy ===== *)
theory Network_Props
  imports Network_Manage
begin

text \<open>
  What \<open>Network.cpp\<close> guarantees: its invariant in every state it can reach, events that explain the
  state, a cycle that does not fault, the devices and addresses it observes.
\<close>

section \<open>A sample environment\<close>

text \<open>
  One wired interface and the loopback interface; \<open>eth0\<close> has received an IPv4 packet of 192.168.0.7 from
  02:00:00:00:00:07. The pattern language is equality.
\<close>

definition sample_frame :: "byte list" where
  "sample_frame = [2, 0, 0, 0, 0, 1,  2, 0, 0, 0, 0, 7,  8, 0] @ replicate 12 0 @ [192, 168, 0, 7] @ replicate 4 0"

definition sample_env :: net_env where
  "sample_env = \<lparr>clock = (\<lambda>n. 1000), ifconf = Some [''lo'', ''eth0''],
     hwaddr = (\<lambda>d. if d = ''eth0'' then [2, 0, 0, 0, 0, 1] else [0, 0, 0, 0, 0, 0]),
     flag_up = (\<lambda>d. True), flag_running = (\<lambda>d. d = ''eth0''), flag_loopback = (\<lambda>d. d = ''lo''),
     has_wireless_name = (\<lambda>d. False),
     if_addr = (\<lambda>d. [192, 168, 0, 1]), if_brdaddr = (\<lambda>d. [192, 168, 0, 255]),
     frame_in = (\<lambda>d n. if d = ''eth0'' then Received (take n sample_frame) else RecvError True),
     hostname_of = (\<lambda>ip. None), regex_match = (\<lambda>p s. Some (p = s)),
     getpid = 4711, icmp_time = 0, format_junk = replicate 17 (CHR 0x41)\<rparr>"

lemma sample_env_ok [simp]: "env_ok sample_env"
  by (simp add: env_ok_def sample_env_def)

definition sample_device :: "string \<Rightarrow> device" where
  "sample_device d = (new_device d Wired)\<lparr>m_dPingBroadcastLastSent := 995\<rparr>"

definition sample_net :: network where
  "sample_net = \<lparr>m_nSocketFDControl = 3, m_bAutoManageDevices = True,
     m_lstDevices = [sample_device ''eth0'', sample_device ''eth1''],
     m_lstSystemDeviceNames = [], m_lstEvents = [],
     m_lstMACSeen = [\<lparr>me_strMAC = ''02:00:00:00:00:05'', me_strDeviceName = ''eth0'', me_strHostName = [],
       me_strIP = [], me_dFirstSeen = 5, me_dLastSeen = 5, me_dLastUpdate = 0\<rparr>],
     m_wbmDevices = Blacklist, m_lstDeviceWhiteBlackList = [''lo''], m_dMaxMACAge = 300,
     m_dUpdateInterval = 10, m_dPingBroadcastInterval = 10, m_dHostnamesLastChecked = 1000,
     m_dHostnameCheckInterval = 15, m_bShouldRun = True, m_bIgnoreDeviceMACs = True,
     m_dtData = [], m_mapMACEvidence = [], nw_readings = 0, nw_wire = []\<rparr>"

lemma sample_mac: "network_mac [2, 0, 0, 0, 0, 5] = ''02:00:00:00:00:05''"
  by code_simp

lemma sample_net_inv [simp]: "net_inv sample_net"
proof -
  have "mac_recorded_ok ''02:00:00:00:00:05''"
    using sample_mac unfolding mac_recorded_ok_def by (intro conjI exI [of _ "[2, 0, 0, 0, 0, 5]"]) auto
  then show ?thesis
    by (simp add: net_inv_def sample_net_def sample_device_def evidence_ok_def new_device_def device_ok_def
        ip_text_def mac_text_def)
qed

section \<open>The cycle\<close>

lemma cycle_runs:
  assumes "env_ok env" "net_inv nw" "patterns_ok env nw"
  shows "\<exists>nw'. cycle env nw = Inr (m_bShouldRun nw, nw') \<and>
    (m_bAutoManageDevices nw \<longrightarrow>
       set (device_names nw') = {d \<in> set (systemDeviceNames env nw).
         d \<in> set (device_names nw) \<or> may_observe env nw d})"
proof -
  let ?t = "clock env (nw_readings nw)"
  note d = detected_laws [OF assms(1), of nw]
  have inv: "net_inv (detected env nw)" by (rule d(3) [OF assms(2)])
  have "addable env (detected env nw)"
    using assms d(5) by (simp add: addable_def patterns_ok_config [OF d(1)])
  moreover have "distinct (device_names (detected env nw))"
    using inv by (simp add: net_inv_def device_names_def)
  ultimately obtain nw1 where m: "manage_devices env (detected env nw) = Inr nw1" "addable env nw1"
      "config nw1 = config nw" "m_bAutoManageDevices nw \<longrightarrow>
       set (device_names nw1) = {d \<in> set (systemDeviceNames env nw).
         d \<in> set (device_names nw) \<or> may_observe env nw d}"
    using manage_total [of env "detected env nw"] configD(2) [OF d(1)]
    by (auto simp: d(1,2) systemDeviceNames_config [OF d(1)] may_observe_config [OF d(1)])
  let ?nw2 = "settled env ?t nw1"
  note s = settled_follows [OF assms(1), of nw1 ?t]
  have "net_inv nw1" using manage_evolves [OF assms(1) m(1)] inv by (simp add: evolves_def)
  from followsD(4) [OF s this] have "\<forall>dv \<in> set (m_lstDevices ?nw2). device_ok dv" by (rule net_invD(2))
  from ping_total [OF assms(1) this] obtain nw' where p: "ping_devices env ?t ?nw2 = Inr nw'" "follows ?nw2 nw'"
    by blast
  have "config nw' = config nw" "device_names nw' = device_names nw1"
    using followsD(2,3) [OF p(2)] followsD(2,3) [OF s] m(3) by simp_all
  with m p show ?thesis by (auto simp: cycle_eq dest: configD(6))
qed

text \<open>A cycle does not fault: from a state that satisfies the invariant, with well-formed patterns
  and an operating system that answers with addresses of their length, \<open>Network::cycle\<close> returns, and
  it returns \<open>m_bShouldRun\<close>.\<close>

theorem cycle_total:
  assumes "env_ok env" "net_inv nw" "patterns_ok env nw"
  shows "\<exists>nw'. cycle env nw = Inr (m_bShouldRun nw, nw')"
  using cycle_runs [OF assms] by blast

lemma sample_patterns [simp]: "patterns_ok sample_env sample_net"
  by (simp add: patterns_ok_def sample_env_def)

theorem cycle_total_witness:
  "env_ok sample_env \<and> net_inv sample_net \<and> patterns_ok sample_env sample_net \<and>
   (\<exists>nw'. cycle sample_env sample_net = Inr (True, nw'))"
proof -
  have "m_bShouldRun sample_net" by (simp add: sample_net_def)
  with cycle_total [of sample_env sample_net] show ?thesis by simp
qed

lemma cycle_explains:
  assumes "env_ok env" "net_inv nw" "cycle env nw = Inr (r, nw')"
  shows "replay (m_lstEvents nw') (view_of nw) = view_of nw'"
proof -
  from cycle_SomeD [OF assms] obtain nw1 nw2 where c: "net_inv nw1" "explains (detected env nw) nw1"
      "follows nw1 nw2" "follows nw2 nw'" by blast
  have "explains (detected env nw) nw'"
    using c followsD(4,5) explains_trans by meson
  with detected_laws(4) [OF assms(1,2)] show ?thesis by (auto simp: explains_def)
qed

text \<open>The events of a cycle explain what it did. Replayed on the device names and seen addresses from
  before the cycle, in the order they were scheduled, they give the device names and seen addresses
  after it: a client that follows the events knows the state of the network.\<close>

theorem cycle_events_explain:
  assumes "env_ok env" "net_inv nw" "cycle env nw = Inr (r, nw')"
  shows "replay (m_lstEvents nw') (view_of nw) = view_of nw'"
  by (rule cycle_explains [OF assms])

lemma sample_run:
  "\<exists>nw'. cycle sample_env sample_net = Inr (True, nw') \<and> set (device_names nw') = {''eth0''}"
proof -
  have "set (systemDeviceNames sample_env sample_net) = {''lo'', ''eth0''}"
    "device_names sample_net = [''eth0'', ''eth1'']"
    by (simp_all add: systemDeviceNames_def sample_env_def sample_net_def device_names_def
        sample_device_def new_device_def)
  moreover have "may_observe sample_env sample_net d \<longleftrightarrow> d \<noteq> ''lo''" for d
    by (auto simp: may_observe_def is_listed_def sample_env_def sample_net_def)
  moreover have "m_bShouldRun sample_net" "m_bAutoManageDevices sample_net" by (simp_all add: sample_net_def)
  ultimately show ?thesis
    using cycle_runs [of sample_env sample_net] by (auto intro: set_eqI)
qed

lemma sample_view: "view_of sample_net = ({''eth0'', ''eth1''}, {(''02:00:00:00:00:05'', ''eth0'')})"
  by (simp add: view_of_def sample_net_def sample_device_def new_device_def)

theorem cycle_events_explain_witness:
  "\<exists>nw'. cycle sample_env sample_net = Inr (True, nw') \<and>
     fst (replay (m_lstEvents nw') ({''eth0'', ''eth1''}, {(''02:00:00:00:00:05'', ''eth0'')})) = {''eth0''}"
proof -
  from sample_run obtain nw' where c: "cycle sample_env sample_net = Inr (True, nw')"
      "set (device_names nw') = {''eth0''}" by blast
  from cycle_events_explain [OF sample_env_ok sample_net_inv c(1)]
  have "replay (m_lstEvents nw') ({''eth0'', ''eth1''}, {(''02:00:00:00:00:05'', ''eth0'')}) = view_of nw'"
    by (simp add: sample_view)
  moreover have "fst (view_of nw') = {''eth0''}" using c(2) by (simp add: view_of_def device_names_def)
  ultimately show ?thesis using c(1) by auto
qed

text \<open>C14: with automatic management the devices observed after a cycle are those the system has and
  that were observed before or that the white- or blacklist allows.\<close>

theorem cycle_devices:
  assumes "env_ok env" "net_inv nw" "patterns_ok env nw" "m_bAutoManageDevices nw"
    "cycle env nw = Inr (r, nw')"
  shows "m_strDeviceName ` set (m_lstDevices nw') =
    {d \<in> set (systemDeviceNames env nw). d \<in> m_strDeviceName ` set (m_lstDevices nw) \<or> may_observe env nw d}"
  using cycle_runs [OF assms(1-3)] assms(4,5) by (auto simp: device_names_def)

theorem cycle_devices_witness:
  "\<exists>nw'. cycle sample_env sample_net = Inr (True, nw') \<and>
     m_strDeviceName ` set (m_lstDevices nw') =
       {d \<in> set (systemDeviceNames sample_env sample_net).
          d \<in> m_strDeviceName ` set (m_lstDevices sample_net) \<or> may_observe sample_env sample_net d}"
proof -
  from sample_run obtain nw' where c: "cycle sample_env sample_net = Inr (True, nw')" by blast
  have "m_bAutoManageDevices sample_net" by (simp add: sample_net_def)
  from cycle_devices [OF sample_env_ok sample_net_inv sample_patterns this c] c show ?thesis by blast
qed

text \<open>C20: no stale address survives a cycle: every entry that is left was seen within
  \<open>m_dMaxMACAge\<close> of the time at which the cycle started.\<close>

theorem cycle_no_stale:
  assumes "env_ok env" "net_inv nw" "cycle env nw = Inr (r, nw')" "e \<in> set (m_lstMACSeen nw')"
  shows "clock env (nw_readings nw) - me_dLastSeen e \<le> m_dMaxMACAge nw"
proof -
  from cycle_SomeD [OF assms(1-3)] obtain nw1 where
      c: "m_lstMACSeen nw' = m_lstMACSeen (settled env (clock env (nw_readings nw)) nw1)"
         "config nw1 = config nw" by blast
  have "m_dMaxMACAge (maintain_devices env nw1) = m_dMaxMACAge nw"
    using followsD(2) [OF maintain_follows [OF assms(1)], of nw1] c(2) by (metis configD(5))
  with assms(4) c(1) show ?thesis
    by (auto simp: settled_def stamp_updates_def expire_macs_eq expired_def)
qed

theorem cycle_no_stale_witness:
  "\<exists>nw'. cycle sample_env sample_net = Inr (True, nw') \<and>
     (\<forall>e \<in> set (m_lstMACSeen nw'). 1000 - me_dLastSeen e \<le> 300)"
proof -
  from sample_run obtain nw' where c: "cycle sample_env sample_net = Inr (True, nw')" by blast
  have "clock sample_env (nw_readings sample_net) = 1000" "m_dMaxMACAge sample_net = 300"
    by (simp_all add: sample_env_def sample_net_def)
  with cycle_no_stale [OF sample_env_ok sample_net_inv c] c show ?thesis by fastforce
qed

section \<open>Every reachable state\<close>

text \<open>
  The operations the daemon performs on its network, in any order; the environment may differ from one
  cycle to the next.
\<close>

inductive net_step :: "network \<Rightarrow> network \<Rightarrow> bool" where
  step_cycle: "env_ok env \<Longrightarrow> cycle env nw = Inr (r, nw') \<Longrightarrow> net_step nw nw'"
| step_add: "env_ok env \<Longrightarrow> addDevice env d nw = Inr (r, nw') \<Longrightarrow> net_step nw nw'"
| step_remove: "removeDevice d nw = (r, nw') \<Longrightarrow> net_step nw nw'"
| step_pattern: "addDeviceWhiteBlacklistEntry env p nw = Inr nw' \<Longrightarrow> net_step nw nw'"
| step_clear: "net_step nw (clearDeviceWhiteBlacklist nw)"
| step_mode: "net_step nw (setDeviceWhiteBlacklistMode m nw)"
| step_auto: "net_step nw (setAutoManageDevices b nw)"
| step_ignore: "net_step nw (setIgnoreDeviceMACs b nw)"
| step_age: "net_step nw (setMaxMACAge t nw)"
| step_max_age: "net_step nw (setMACMaxAge t nw)"
| step_update: "net_step nw (setUpdateInterval t nw)"
| step_ping: "net_step nw (setPingBroadcastInterval t nw)"
| step_evidence: "macEvidence m nw = (ev, nw') \<Longrightarrow> net_step nw nw'"
| step_shutdown: "net_step nw (shutdown nw)"

inductive net_reachable :: "network \<Rightarrow> bool" where
  reach_new: "new_network fd auto exe files = Inr nw \<Longrightarrow> net_reachable nw"
| reach_step: "net_reachable nw \<Longrightarrow> net_step nw nw' \<Longrightarrow> net_reachable nw'"

lemma entry_evolves:
  assumes "addDeviceWhiteBlacklistEntry env p nw = Inr nw'"
  shows "evolves (nw\<lparr>m_lstDeviceWhiteBlackList := m_lstDeviceWhiteBlackList nw @ [p]\<rparr>) nw'"
  using assms removing.fold_inv [OF evolves_refl]
  by (auto simp: addDeviceWhiteBlacklistEntry_def Let_def bind_r_Inr_iff)

lemma cycle_inv:
  assumes "env_ok env" "net_inv nw" "cycle env nw = Inr (r, nw')"
  shows "net_inv nw'"
  using cycle_SomeD [OF assms] followsD(4) by blast

lemma net_step_inv:
  assumes "net_step nw nw'" "net_inv nw"
  shows "net_inv nw'"
  using assms(1)
proof (cases rule: net_step.cases)
  case (step_cycle env r)
  with assms(2) show ?thesis by (rule_tac cycle_inv)
next
  case (step_add env d r)
  with addDevice_evolves [OF step_add] assms(2) show ?thesis by (simp add: evolves_def)
next
  case (step_remove d r)
  then have "nw' = snd (removeDevice d nw)" by simp
  with removeDevice_evolves assms(2) show ?thesis by (simp add: evolves_def)
next
  case (step_pattern env p)
  have "net_inv (nw\<lparr>m_lstDeviceWhiteBlackList := m_lstDeviceWhiteBlackList nw @ [p]\<rparr>)"
    using assms(2) by (simp add: net_inv_def)
  with entry_evolves [OF step_pattern] show ?thesis by (simp add: evolves_def)
next
  case (step_evidence m ev)
  obtain inner outer where o: "smap_at [] m (m_mapMACEvidence nw) = (inner, outer)"
    by (cases "smap_at [] m (m_mapMACEvidence nw)")
  from evidence_ok_at(2) [OF net_invD(6) [OF assms(2)] o] assms(2) step_evidence o show ?thesis
    by (auto simp: macEvidence_def net_inv_def)
qed (use assms(2) in \<open>auto simp: net_inv_def clearDeviceWhiteBlacklist_def setDeviceWhiteBlacklistMode_def
        setAutoManageDevices_def setIgnoreDeviceMACs_def setMaxMACAge_def setMACMaxAge_def setUpdateInterval_def
        setPingBroadcastInterval_def shutdown_def\<close>)

lemma reachable_inv:
  assumes "net_reachable nw"
  shows "net_inv nw"
  using assms
proof (induction rule: net_reachable.induct)
  case (reach_new fd auto exe files nw)
  then show ?case by (auto simp: new_network_def bind_r_Inr_iff net_inv_def evidence_ok_def)
next
  case (reach_step nw nw')
  then show ?case by (rule_tac net_step_inv)
qed

text \<open>The invariant of the network holds in every state the daemon can bring it to: devices have
  distinct names and well-formed addresses; every recorded address is the text of six bytes, neither
  zero nor broadcast, recorded once for each device and only for observed devices; every scheduled event
  carries what its type promises; the evidence maps are sorted.\<close>

theorem network_invariant:
  assumes "net_reachable nw"
  shows "net_inv nw"
  by (rule reachable_inv [OF assms])

definition sample_new :: network where
  "sample_new = \<lparr>m_nSocketFDControl = 3, m_bAutoManageDevices = True, m_lstDevices = [],
     m_lstSystemDeviceNames = [], m_lstEvents = [], m_lstMACSeen = [],
     m_wbmDevices = Blacklist, m_lstDeviceWhiteBlackList = [], m_dMaxMACAge = 300,
     m_dUpdateInterval = 10, m_dPingBroadcastInterval = 10, m_dHostnamesLastChecked = 0,
     m_dHostnameCheckInterval = 15, m_bShouldRun = True, m_bIgnoreDeviceMACs = True,
     m_dtData = [], m_mapMACEvidence = [], nw_readings = 0, nw_wire = []\<rparr>"

lemma sample_reachable: "net_reachable sample_new"
proof (rule reach_new)
  show "new_network 3 True None (\<lambda>f. None) = Inr sample_new"
    by (simp add: new_network_def readVendors_def tryReadVendors_def sample_new_def)
qed

theorem network_invariant_witness:
  "net_reachable (setDeviceWhiteBlacklistMode Whitelist sample_new) \<and>
   net_inv (setDeviceWhiteBlacklistMode Whitelist sample_new)"
proof -
  have "net_reachable (setDeviceWhiteBlacklistMode Whitelist sample_new)"
    by (rule reach_step [OF sample_reachable step_mode])
  with network_invariant [OF this] show ?thesis by simp
qed

lemma step_should_run:
  assumes "net_step nw nw'" "net_inv nw" "m_bShouldRun nw'"
  shows "m_bShouldRun nw"
  using assms(1)
proof (cases rule: net_step.cases)
  case (step_cycle env r)
  from cycle_SomeD [OF step_cycle(1) assms(2) step_cycle(2)] obtain nw1 nw2 where
      "config nw1 = config nw" "follows nw1 nw2" "follows nw2 nw'" by blast
  then have "config nw' = config nw" using followsD(2) by metis
  with assms(3) show ?thesis using configD(6) by blast
next
  case (step_add env d r)
  with addDevice_evolves [OF step_add] assms(3) show ?thesis by (auto simp: evolves_def dest: configD(6))
next
  case (step_remove d r)
  then have "nw' = snd (removeDevice d nw)" by simp
  with config_removeDevice [of d nw] assms(3) show ?thesis by (auto dest: configD(6))
next
  case (step_pattern env p)
  from entry_evolves [OF this] assms(3) show ?thesis by (auto simp: evolves_def config_def)
qed (use assms(3) in \<open>auto simp: clearDeviceWhiteBlacklist_def setDeviceWhiteBlacklistMode_def
        setAutoManageDevices_def setIgnoreDeviceMACs_def setMaxMACAge_def setMACMaxAge_def setUpdateInterval_def
        setPingBroadcastInterval_def shutdown_def macEvidence_def split: prod.splits\<close>)

text \<open>After \<open>shutdown\<close> every cycle returns false, whatever the daemon does with the network in
  between: no operation sets \<open>m_bShouldRun\<close> again.\<close>

theorem shutdown_is_final:
  assumes "net_inv nw" "net_step\<^sup>*\<^sup>* (shutdown nw) nw1" "env_ok env" "cycle env nw1 = Inr (r, nw2)"
  shows "r = False"
proof -
  from assms(2) have "net_inv nw1 \<and> \<not> m_bShouldRun nw1"
  proof (induction rule: rtranclp_induct)
    case base
    with assms(1) show ?case by (simp add: shutdown_def net_inv_def)
  next
    case (step y z)
    then show ?case using net_step_inv step_should_run by blast
  qed
  moreover from this assms(3,4) have "net_step nw1 nw2" "r = m_bShouldRun nw2"
    using cycle_SomeD [OF assms(3) _ assms(4)] by (auto intro: step_cycle)
  ultimately show ?thesis using step_should_run by blast
qed

theorem shutdown_is_final_witness:
  "\<exists>nw2. cycle sample_env (setMaxMACAge 60 (shutdown sample_net)) = Inr (False, nw2)"
proof -
  let ?nw1 = "setMaxMACAge 60 (shutdown sample_net)"
  have "net_inv ?nw1" "patterns_ok sample_env ?nw1"
    using sample_net_inv sample_patterns
    by (simp_all add: net_inv_def patterns_ok_def setMaxMACAge_def shutdown_def)
  from cycle_runs [OF sample_env_ok this] obtain nw2 where
      c: "cycle sample_env ?nw1 = Inr (m_bShouldRun ?nw1, nw2)" by blast
  have "net_step\<^sup>*\<^sup>* (shutdown sample_net) ?nw1" by (intro r_into_rtranclp step_age)
  from shutdown_is_final [OF sample_net_inv this sample_env_ok c] c show ?thesis by auto
qed

section \<open>Addresses\<close>

lemma addMAC_records':
  assumes "net_inv nw" "fst (macAllowed env m nw)" "addMAC env m d nw = (b, nw')"
  shows "set (seen_pairs (m_lstMACSeen nw')) = insert (m, d) (set (seen_pairs (m_lstMACSeen nw))) \<and>
    distinct (seen_pairs (m_lstMACSeen nw')) \<and>
    b = ((m, d) \<notin> set (seen_pairs (m_lstMACSeen nw))) \<and>
    m_lstEvents nw' = m_lstEvents nw @ (if b then [new_mac_event MACAddressDiscovered d m] else [])"
proof -
  obtain nw1 where a: "macAllowed env m nw = (True, nw1)" using assms(2) by (cases "macAllowed env m nw") auto
  from macAllowed_laws(1) [OF a] have ev: "m_lstEvents nw1 = m_lstEvents nw" by auto
  have ts: "\<forall>e \<in> set (m_lstMACSeen nw). 0 \<le> me_dLastSeen e" using assms(1) by (simp add: net_inv_def)
  note c = addMAC_cases [OF a ts, of d] and dist = net_invD(3) [OF assms(1)]
  show ?thesis
  proof (cases "(m, d) \<in> set (seen_pairs (m_lstMACSeen nw))")
    case True
    with c(2) assms(3) ev dist show ?thesis by (auto simp: insert_absorb)
  next
    case False
    with c(3) assms(3) ev dist show ?thesis by auto
  qed
qed

text \<open>Recording an address that is allowed: afterwards it is in the list for the device, exactly
  once; the result and the \<open>MACAddressDiscovered\<close> event say whether it is new; no other pair of address
  and device is touched.\<close>

theorem addMAC_records:
  assumes "net_inv nw" "fst (macAllowed env m nw)" "addMAC env m d nw = (b, nw')"
  shows "set (seen_pairs (m_lstMACSeen nw')) = insert (m, d) (set (seen_pairs (m_lstMACSeen nw))) \<and>
    distinct (seen_pairs (m_lstMACSeen nw')) \<and>
    b = ((m, d) \<notin> set (seen_pairs (m_lstMACSeen nw))) \<and>
    m_lstEvents nw' = m_lstEvents nw @ (if b then [new_mac_event MACAddressDiscovered d m] else [])"
  by (rule addMAC_records' [OF assms])

lemma sample_allowed: "fst (macAllowed sample_env ''02:00:00:00:00:07'' sample_net)"
  by (simp add: macAllowed_def sample_net_def sample_device_def sample_env_def new_device_def mac_of_def)
     code_simp

theorem addMAC_records_witness:
  "\<exists>nw'. addMAC sample_env ''02:00:00:00:00:07'' ''eth0'' sample_net = (True, nw') \<and>
     m_lstEvents nw' = [new_mac_event MACAddressDiscovered ''eth0'' ''02:00:00:00:00:07''] \<and>
     set (seen_pairs (m_lstMACSeen nw')) =
       {(''02:00:00:00:00:07'', ''eth0''), (''02:00:00:00:00:05'', ''eth0'')}"
proof -
  obtain b nw' where a: "addMAC sample_env ''02:00:00:00:00:07'' ''eth0'' sample_net = (b, nw')"
    by (cases "addMAC sample_env ''02:00:00:00:00:07'' ''eth0'' sample_net")
  have "seen_pairs (m_lstMACSeen sample_net) = [(''02:00:00:00:00:05'', ''eth0'')]"
    "m_lstEvents sample_net = []" by (simp_all add: sample_net_def)
  with addMAC_records [OF sample_net_inv sample_allowed a] a show ?thesis by auto
qed

text \<open>The zero address, the broadcast address and, when the daemon ignores them, the addresses of its
  own devices are never recorded: \<open>addMAC\<close> leaves entries, events and evidence alone.\<close>

theorem forbidden_mac_ignored:
  assumes "m = ''00:00:00:00:00:00'' \<or> m = ''ff:ff:ff:ff:ff:ff'' \<or>
      m_bIgnoreDeviceMACs nw \<and> (\<exists>dv \<in> set (m_lstDevices nw). fst (mac_of env dv) = m)"
  shows "fst (addMAC env m d nw) = False \<and>
    m_lstMACSeen (snd (addMAC env m d nw)) = m_lstMACSeen nw \<and>
    m_lstEvents (snd (addMAC env m d nw)) = m_lstEvents nw \<and>
    m_lstMACSeen (updateMACEvidence env d m k v nw) = m_lstMACSeen nw \<and>
    m_mapMACEvidence (updateMACEvidence env d m k v nw) = m_mapMACEvidence nw \<and>
    m_lstEvents (updateMACEvidence env d m k v nw) = m_lstEvents nw"
proof -
  obtain b nw1 where a: "macAllowed env m nw = (b, nw1)" by (cases "macAllowed env m nw")
  from macAllowed_laws(2) [OF a] assms have b: "\<not> b" by auto
  from macAllowed_laws(1) [OF a] have "m_lstMACSeen nw1 = m_lstMACSeen nw" "m_lstEvents nw1 = m_lstEvents nw"
      "m_mapMACEvidence nw1 = m_mapMACEvidence nw" by auto
  with a b show ?thesis by (simp add: addMAC_def updateMACEvidence_def)
qed

theorem forbidden_mac_ignored_witness:
  "fst (addMAC sample_env ''02:00:00:00:00:01'' ''eth0'' sample_net) = False \<and>
   m_lstMACSeen (snd (addMAC sample_env ''02:00:00:00:00:01'' ''eth0'' sample_net)) = m_lstMACSeen sample_net"
proof -
  have "network_mac [2, 0, 0, 0, 0, 1] = ''02:00:00:00:00:01''" by code_simp
  then have "fst (mac_of sample_env (sample_device ''eth0'')) = ''02:00:00:00:00:01''"
    using device_mac_env [OF sample_env_ok, of "''eth0''"]
    by (simp add: mac_of_def sample_device_def new_device_def sample_env_def Let_def)
  then have "m_bIgnoreDeviceMACs sample_net \<and>
      (\<exists>dv \<in> set (m_lstDevices sample_net). fst (mac_of sample_env dv) = ''02:00:00:00:00:01'')"
    by (simp add: sample_net_def)
  with forbidden_mac_ignored [of "''02:00:00:00:00:01''" sample_net sample_env "''eth0''"]
  show ?thesis by blast
qed

text \<open>\<open>removeDevice\<close> takes the device and every address seen on it away, announces the device once
  and then each of its addresses once, in the order of the list, and leaves all others; but its result
  is always false, also when it removed the device.\<close>

theorem removeDevice_removes:
  assumes "net_inv nw"
  shows "removeDevice d nw = (False,
     nw\<lparr>m_lstDevices := filter (\<lambda>dv. m_strDeviceName dv \<noteq> d) (m_lstDevices nw),
        m_lstMACSeen := filter (\<lambda>e. me_strDeviceName e \<noteq> d) (m_lstMACSeen nw),
        m_lstEvents := m_lstEvents nw @ new_device_event DeviceRemoved d #
          map (\<lambda>e. new_mac_event MACAddressDisappeared d (me_strMAC e))
            (filter (\<lambda>e. me_strDeviceName e = d) (m_lstMACSeen nw))\<rparr>)"
proof -
  let ?gone = "filter (\<lambda>e. me_strDeviceName e = d) (m_lstMACSeen nw)"
  have "map vanish ?gone = map (\<lambda>e. new_mac_event MACAddressDisappeared d (me_strMAC e)) ?gone"
    by (intro map_cong) (auto simp: vanish_def)
  moreover have "fst (removeDevice d nw) = False" by (simp add: removeDevice_def Let_def)
  moreover have "distinct (device_names nw)" using assms by (simp add: net_inv_def device_names_def)
  ultimately show ?thesis using removeDevice_eq [of nw d] by (simp only: prod_eq_iff fst_conv snd_conv simp_thms)
qed

theorem removeDevice_removes_witness:
  "fst (removeDevice ''eth0'' sample_net) = False \<and>
   device_names (snd (removeDevice ''eth0'' sample_net)) = [''eth1''] \<and>
   m_lstMACSeen (snd (removeDevice ''eth0'' sample_net)) = [] \<and>
   m_lstEvents (snd (removeDevice ''eth0'' sample_net)) =
     [new_device_event DeviceRemoved ''eth0'',
      new_mac_event MACAddressDisappeared ''eth0'' ''02:00:00:00:00:05'']"
  using removeDevice_removes [OF sample_net_inv, of "''eth0''"]
  by (simp add: sample_net_def sample_device_def new_device_def device_names_def)

section \<open>Evidence\<close>

text \<open>What is known of an address under a key; the empty string when nothing is.\<close>

definition evidence_of :: "network \<Rightarrow> string \<Rightarrow> string \<Rightarrow> string" where
  "evidence_of nw m k =
     (case smap_get m (m_mapMACEvidence nw) of
        None \<Rightarrow> []
      | Some inner \<Rightarrow> (case smap_get k inner of None \<Rightarrow> [] | Some v \<Rightarrow> v))"

lemma updateMACEvidence':
  assumes "fst (macAllowed env m nw)"
  shows "evidence_of (updateMACEvidence env d m k v nw) m' k' =
      (if m' = m \<and> k' = k then v else evidence_of nw m' k') \<and>
    m_lstEvents (updateMACEvidence env d m k v nw) = m_lstEvents nw @
      (if evidence_of nw m k = v then []
       else [setEvidence k v (evidence_of nw m k) (new_mac_event MACEvidenceChanged d m)])"
proof -
  obtain nw1 where a: "macAllowed env m nw = (True, nw1)" using assms by (cases "macAllowed env m nw") auto
  from macAllowed_laws(1) [OF a] have n: "m_lstEvents nw1 = m_lstEvents nw"
      "m_mapMACEvidence nw1 = m_mapMACEvidence nw" by auto
  show ?thesis
    by (simp add: updateMACEvidence_def a n evidence_of_def smap_at_def split: option.splits)
qed

lemma updateMACEvidence_seen: "m_lstMACSeen (updateMACEvidence env d m k v nw) = m_lstMACSeen nw"
proof -
  obtain b nw1 where a: "macAllowed env m nw = (b, nw1)" by (cases "macAllowed env m nw")
  from macAllowed_laws(1) [OF a] have "m_lstMACSeen nw1 = m_lstMACSeen nw" by auto
  then show ?thesis by (simp add: updateMACEvidence_def a split: prod.splits)
qed

text \<open>New evidence of an allowed address replaces the old one under its key and no other; the event
  carries the new and the former value, and an update that changes nothing schedules nothing.\<close>

theorem updateMACEvidence_updates:
  assumes "fst (macAllowed env m nw)"
  shows "evidence_of (updateMACEvidence env d m k v nw) m' k' =
      (if m' = m \<and> k' = k then v else evidence_of nw m' k') \<and>
    m_lstEvents (updateMACEvidence env d m k v nw) = m_lstEvents nw @
      (if evidence_of nw m k = v then []
       else [setEvidence k v (evidence_of nw m k) (new_mac_event MACEvidenceChanged d m)])"
  by (rule updateMACEvidence' [OF assms])

theorem updateMACEvidence_updates_witness:
  "m_lstEvents (updateMACEvidence sample_env ''eth0'' ''02:00:00:00:00:07'' ''ip'' ''10.0.0.7'' sample_net) =
     [setEvidence ''ip'' ''10.0.0.7'' [] (new_mac_event MACEvidenceChanged ''eth0'' ''02:00:00:00:00:07'')]"
proof -
  have "evidence_of sample_net ''02:00:00:00:00:07'' ''ip'' = []" "m_lstEvents sample_net = []"
    by (simp_all add: evidence_of_def sample_net_def)
  with updateMACEvidence_updates [OF sample_allowed, of "''eth0''" "''ip''" "''10.0.0.7''"] show ?thesis by simp
qed

section \<open>Detection\<close>

lemma find_device_mac_False:
  "find_device_mac env m dvs = (False, dvs') \<Longrightarrow> dvs' = map (\<lambda>dv. snd (mac_of env dv)) dvs"
  by (induction dvs arbitrary: dvs') (auto simp: Let_def split: prod.splits if_splits)

lemma mac_allowed_again:
  assumes "env_ok env" "macAllowed env m nw = (True, nw1)" "config nw2 = config nw"
    "m_lstDevices nw2 = m_lstDevices nw1"
  shows "fst (macAllowed env m nw2)"
proof -
  have ig: "m_bIgnoreDeviceMACs nw2 = m_bIgnoreDeviceMACs nw" using assms(3) by (rule configD)
  have "\<forall>dv \<in> set (m_lstDevices nw1). fst (mac_of env dv) \<noteq> m" if "m_bIgnoreDeviceMACs nw"
  proof -
    from that assms(2) have "find_device_mac env m (m_lstDevices nw) = (False, m_lstDevices nw1)"
      by (auto simp: macAllowed_def split: if_splits prod.splits)
    from find_device_mac_False [OF this] macAllowed_laws(2) [OF assms(2)] that show ?thesis
      using mac_of_idem [OF assms(1)] by auto
  qed
  with macAllowed_laws(2) [OF assms(2)] macAllowed_laws(2) [of env m nw2 "fst (macAllowed env m nw2)"] ig assms(4)
  show ?thesis by (cases "macAllowed env m nw2") auto
qed

lemma read_frame_Received:
  assumes "frame_in env (m_strDeviceName dv) ETH_FRAME_LEN = Received bs" "bs \<noteq> []"
  shows "read_frame env dv = (bs @ replicate (ETH_FRAME_LEN - length bs) 0, int (length bs))"
  using assms by (simp add: read_frame_def bufferedRead_def socket_read_def)

text \<open>C17: an IPv4 packet that waits on the socket of an observed device, from an address that may be
  recorded and a sender that is not a broadcast or multicast address, leads to an entry for the pair of
  address and device and to evidence of the sender's IP address.\<close>

theorem packet_is_detected:
  assumes "env_ok env" "net_inv nw" "frame_in env (m_strDeviceName dv) ETH_FRAME_LEN = Received bs"
    "34 \<le> length bs" "length bs \<le> ETH_FRAME_LEN" "frame_proto bs = 2048"
    "m = network_mac (frame_source bs)" "fst (macAllowed env m nw)"
    "ip = inet_ntoa (frame_saddr bs)" "ipAllowed ip"
  shows "(m, m_strDeviceName dv) \<in> set (seen_pairs (m_lstMACSeen (detect_device env dv nw))) \<and>
    evidence_of (detect_device env dv nw) m ''ip'' = ip"
proof -
  let ?d = "m_strDeviceName dv"
  let ?buf = "bs @ replicate (ETH_FRAME_LEN - length bs) 0"
  have buf: "frame_source ?buf = frame_source bs" "frame_proto ?buf = frame_proto bs"
      "frame_saddr ?buf = frame_saddr bs"
    using assms(4) by (simp_all add: frame_source_def frame_proto_def frame_saddr_def nth_append)
  have len: "length_covers_header (int (length bs))"
  proof -
    have "unat (of_nat (length bs) :: u64) = length bs"
      using assms(5) by (simp add: unat_of_nat ETH_FRAME_LEN_def)
    with assms(4) show ?thesis by (simp add: length_covers_header_def word_le_nat_alt)
  qed
  obtain b nw1 where r: "addMAC env m ?d nw = (b, nw1)" by (cases "addMAC env m ?d nw")
  obtain nwa where a: "macAllowed env m nw = (True, nwa)" using assms(8) by (cases "macAllowed env m nw") auto
  have devs: "m_lstDevices nw1 = m_lstDevices nwa" "config nw1 = config nw"
    using r a macAllowed_laws(1) [OF a]
    by (auto simp: addMAC_def Let_def read_time_def split: prod.splits if_splits)
  have ok: "fst (macAllowed env m nw1)" using mac_allowed_again [OF assms(1) a devs(2,1)] .
  have "bs \<noteq> []" using assms(4) by auto
  then have e: "detect_device env dv nw = updateMACEvidence env ?d m ''ip'' ip nw1"
    using read_frame_Received [OF assms(3)] len assms(6,7,9,10) r
    by (simp add: detect_device_def buf)
  have "(m, ?d) \<in> set (seen_pairs (m_lstMACSeen nw1))"
    using addMAC_records' [OF assms(2,8) r] by simp
  moreover have "m_lstMACSeen (updateMACEvidence env ?d m ''ip'' ip nw1) = m_lstMACSeen nw1"
    using updateMACEvidence_seen by blast
  ultimately show ?thesis using updateMACEvidence' [OF ok, of ?d "''ip''" ip m "''ip''"] e by simp
qed

theorem packet_is_detected_witness:
  "(''02:00:00:00:00:07'', ''eth0'') \<in>
     set (seen_pairs (m_lstMACSeen (detect_device sample_env (sample_device ''eth0'') sample_net))) \<and>
   evidence_of (detect_device sample_env (sample_device ''eth0'') sample_net) ''02:00:00:00:00:07'' ''ip'' =
     ''192.168.0.7''"
proof -
  have len: "length sample_frame = 34" by (simp add: sample_frame_def)
  have f: "frame_in sample_env (m_strDeviceName (sample_device ''eth0'')) ETH_FRAME_LEN = Received sample_frame"
    by (simp add: sample_env_def sample_device_def new_device_def ETH_FRAME_LEN_def len)
  have p: "frame_proto sample_frame = 2048" by (simp add: frame_proto_def sample_frame_def)
  have m: "''02:00:00:00:00:07'' = network_mac (frame_source sample_frame)" by code_simp
  have i: "''192.168.0.7'' = inet_ntoa (frame_saddr sample_frame)" by code_simp
  have a: "ipAllowed ''192.168.0.7''" by (simp add: ipAllowed_def)
  have d: "m_strDeviceName (sample_device ''eth0'') = ''eth0''" by (simp add: sample_device_def new_device_def)
  from packet_is_detected [OF sample_env_ok sample_net_inv f _ _ p m sample_allowed i a] show ?thesis
    by (simp add: len d ETH_FRAME_LEN_def)
qed

text \<open>A failed read is not noticed but does no harm: the length -1 passes the test for a complete
  header, because the comparison is unsigned, so the branch for errors never runs; the zeroed buffer
  then holds the zero address, which is not recorded, and no protocol, so the state stays as it was.\<close>

theorem read_error_harmless:
  assumes "frame_in env (m_strDeviceName dv) ETH_FRAME_LEN = RecvError again"
  shows "length_covers_header (- 1) \<and> detect_device env dv nw = nw"
proof -
  have c: "length_covers_header (- 1)" by (simp add: length_covers_header_def)
  have "\<not> length_covers_header 0" by (simp add: length_covers_header_def word_le_nat_alt)
  moreover have z: "frame_source (replicate ETH_FRAME_LEN 0) = [0, 0, 0, 0, 0, 0]"
      "frame_proto (replicate ETH_FRAME_LEN 0) = 0"
    by (simp_all add: frame_source_def frame_proto_def ETH_FRAME_LEN_def eval_nat_numeral(3)
        min_def numeral_eq_Suc)
  moreover have "network_mac [0, 0, 0, 0, 0, 0] = ''00:00:00:00:00:00''" by code_simp
  ultimately show ?thesis
    using assms c
    by (simp add: detect_device_def read_frame_def bufferedRead_def socket_read_def addMAC_def macAllowed_def)
qed

theorem read_error_harmless_witness:
  "detect_device sample_env (sample_device ''eth1'') sample_net = sample_net"
proof -
  have "frame_in sample_env (m_strDeviceName (sample_device ''eth1'')) ETH_FRAME_LEN = RecvError True"
    by (simp add: sample_env_def sample_device_def new_device_def)
  from read_error_harmless [OF this] show ?thesis by blast
qed

text \<open>The expiry loop, which starts over after each entry it erases, does what one pass would do: it
  keeps the entries that are not too old, in their order, and announces each of the others once, in
  the order of the list.\<close>

theorem expire_is_one_pass:
  "expire_macs t nw =
     nw\<lparr>m_lstMACSeen := filter (\<lambda>e. t - me_dLastSeen e \<le> m_dMaxMACAge nw) (m_lstMACSeen nw),
        m_lstEvents := m_lstEvents nw @
          map (\<lambda>e. new_mac_event MACAddressDisappeared (me_strDeviceName e) (me_strMAC e))
            (filter (\<lambda>e. t - me_dLastSeen e > m_dMaxMACAge nw) (m_lstMACSeen nw))\<rparr>"
  by (simp add: expire_macs_eq expired_def [abs_def] vanish_def [abs_def] not_less)

section \<open>Many cycles\<close>

text \<open>The events of one cycle after the other, as the daemon hands them on.\<close>

fun run_cycles :: "net_env list \<Rightarrow> network \<Rightarrow> (event list \<times> network) result" where
  "run_cycles [] nw = Inr ([], nw)"
| "run_cycles (env # envs) nw =
     bind_r (cycle env nw) (\<lambda>(r, nw1).
     bind_r (run_cycles envs nw1) (\<lambda>(es, nw2). Inr (m_lstEvents nw1 @ es, nw2)))"

lemma cycle_config:
  assumes "env_ok env" "net_inv nw" "cycle env nw = Inr (r, nw')"
  shows "config nw' = config nw"
  using cycle_SomeD [OF assms] followsD(2) by metis



end
