(* ===== verification/Server.thy ===== *)
theory Server
  imports Packet
begin

text \<open>
  \<open>macdetectd/src/Server.cpp\<close>: the listening sockets (servings), the connected clients (served) and the
  queue of received values. A \<open>Served\<close> object is shared by the list of the server, the queue, the list
  of removed clients and the streams of the daemon, which compare the pointers: an object is a number,
  its state is found in \<open>sv_heap\<close>, and \<open>make_shared\<close> takes the next number.

  The answers of the operating system in one cycle are the record \<open>sock_env\<close>. Nothing the server or the
  daemon does depends on the result of \<open>send\<close>, so \<open>sv_out\<close> records the calls of \<open>send\<close> in their order;
  what one call puts on the wire is \<open>send_packet\<close>. \<open>sv_closed\<close> records the descriptors of servings that
  were closed.
\<close>

datatype Status = Invalid | Started | Stopped

record serving =
  stStatus :: Status
  nID :: int
  nSocketFD :: int
  strDeviceName :: string
  usPort :: u16

type_synonym served_ptr = nat

record queued =
  qv_value :: val
  qv_served :: served_ptr
  qv_servingID :: int

record server =
  sv_serverName :: string
  sv_run :: bool
  sv_servings :: "serving list"
  sv_served :: "(served_ptr \<times> int) list"
  sv_queue :: "queued list"
  sv_removed :: "served_ptr list"
  sv_heap :: "served_ptr \<Rightarrow> pentity option"
  sv_next :: served_ptr
  sv_out :: "(served_ptr \<times> val) list"
  sv_closed :: "int list"

datatype accept_res = Accepted int | AcceptError bool  \<comment> \<open>\<open>True\<close>: \<open>EAGAIN\<close>\<close>

record sock_env =
  listen_ok :: "int \<Rightarrow> bool"
  accept_of :: "int \<Rightarrow> accept_res"
  recv_of :: "int \<Rightarrow> nat \<Rightarrow> recv_res"
  junk_of :: "nat \<Rightarrow> byte list"

definition new_server :: server where
  "new_server = \<lparr>sv_serverName = [], sv_run = True, sv_servings = [], sv_served = [], sv_queue = [],
     sv_removed = [], sv_heap = (\<lambda>p. None), sv_next = 0, sv_out = [], sv_closed = []\<rparr>"

definition post :: "served_ptr \<Rightarrow> val \<Rightarrow> server \<Rightarrow> server" where
  "post p v sv = sv\<lparr>sv_out := sv_out sv @ [(p, v)]\<rparr>"

text \<open>Sending one value to every client, in the order of the list.\<close>

definition distributeStreamValue :: "val \<Rightarrow> server \<Rightarrow> server" where
  "distributeStreamValue valStream sv = fold (\<lambda>(p, i). post p valStream) (sv_served sv) sv"

definition setServerName :: "string \<Rightarrow> server \<Rightarrow> server" where
  "setServerName strServerName sv = sv\<lparr>sv_serverName := strServerName\<rparr>"

definition server_shutdown :: "server \<Rightarrow> server" where
  "server_shutdown sv = sv\<lparr>sv_run := False\<rparr>"

section \<open>Servings\<close>

text \<open>The \<open>do\<close> loop counts up from 0 to the first number that no serving has.\<close>

lemma free_id_measure:
  assumes "\<exists>s \<in> set ss. nID s = n"
  shows "card {i \<in> nID ` set ss. n + 1 \<le> i} < card {i \<in> nID ` set ss. n \<le> i}"
proof (rule psubset_card_mono)
  have "n \<in> {i \<in> nID ` set ss. n \<le> i}" using assms by auto
  then show "{i \<in> nID ` set ss. n + 1 \<le> i} \<subset> {i \<in> nID ` set ss. n \<le> i}" by force
qed simp

function free_id_from :: "serving list \<Rightarrow> int \<Rightarrow> int" where
  "free_id_from ss n = (if \<exists>s \<in> set ss. nID s = n then free_id_from ss (n + 1) else n)"
  by pat_completeness auto
termination
  by (relation "measure (\<lambda>(ss, n). card {i \<in> nID ` set ss. n \<le> i})") (simp_all add: free_id_measure)

declare free_id_from.simps [simp del]

definition freeServingID :: "server \<Rightarrow> int" where
  "freeServingID sv = free_id_from (sv_servings sv) 0"

definition servingByID :: "int \<Rightarrow> server \<Rightarrow> serving" where
  "servingByID n sv =
     (case find (\<lambda>s. nID s = n) (sv_servings sv) of
        Some s \<Rightarrow> s
      | None \<Rightarrow> \<lparr>stStatus = Invalid, nID = - 1, nSocketFD = - 1, strDeviceName = [], usPort = 0\<rparr>)"

text \<open>
  \<open>serve\<close>, with the descriptor the new socket gets (-1 when there is none) and whether \<open>bind\<close> succeeds.
  The device name is copied into the 16 characters of an \<open>ifr_name\<close> without a check. A socket that
  cannot be bound stays open.
\<close>

definition serve :: "int \<Rightarrow> bool \<Rightarrow> string \<Rightarrow> u16 \<Rightarrow> server \<Rightarrow> (bool \<times> server) result" where
  "serve nSocket bBound strDevice port sv =
     (let bPresent = (\<exists>s \<in> set (sv_servings sv). strDeviceName s = strDevice \<and> usPort s = port) in
      if \<not> bPresent \<and> nSocket \<noteq> - 1 then
        if length strDevice \<ge> 16 then Inl OutOfBounds
        else if bBound then
          Inr (True, sv\<lparr>sv_servings := sv_servings sv @
             [\<lparr>stStatus = Stopped, nID = freeServingID sv, nSocketFD = nSocket,
               strDeviceName = strDevice, usPort = port\<rparr>]\<rparr>)
        else Inr (False, sv)
      else Inr (False, sv))"

section \<open>The cycle\<close>

definition hello :: "string \<Rightarrow> val" where
  "hello strServerName =
     add_sub (add_kv ''server-name'' strServerName (Value ''detail'' ''server-info'' []))
       (Value ''info'' ''hello'' [])"

text \<open>One serving: it listens if it did not, and accepts at most one connection.\<close>

definition listen_step :: "sock_env \<Rightarrow> serving \<Rightarrow> serving" where
  "listen_step env sg =
     (if stStatus sg = Stopped
      then sg\<lparr>stStatus := (if listen_ok env (nSocketFD sg) then Started else Invalid)\<rparr>
      else sg)"

definition accept_step :: "sock_env \<Rightarrow> serving \<Rightarrow> server \<Rightarrow> serving \<times> server" where
  "accept_step env sg sv =
     (case accept_of env (nSocketFD sg) of
        AcceptError again \<Rightarrow> (if \<not> again then sg\<lparr>stStatus := Invalid\<rparr> else sg, sv)
      | Accepted fd \<Rightarrow>
          let p = sv_next sv;
              sv = sv\<lparr>sv_heap := (sv_heap sv)(p \<mapsto> new_pentity fd), sv_next := Suc p,
                      sv_served := sv_served sv @ [(p, nID sg)]\<rparr>
          in (sg, post p (hello (sv_serverName sv)) sv))"

fun accept_all :: "sock_env \<Rightarrow> serving list \<Rightarrow> server \<Rightarrow> serving list \<times> server" where
  "accept_all env [] sv = ([], sv)"
| "accept_all env (sg # sgs) sv =
     (let (sg, sv) = accept_step env (listen_step env sg) sv;
          (sgs, sv) = accept_all env sgs sv
      in (sg # sgs, sv))"

definition drop_servings :: "server \<Rightarrow> server" where
  "drop_servings sv =
     (let (sgs, sv) = erase_loop (\<lambda>sg. stStatus sg = Invalid \<or> stStatus sg = Stopped)
            (\<lambda>sg sv. sv\<lparr>sv_closed := sv_closed sv @ [nSocketFD sg]\<rparr>) (sv_servings sv) sv
      in sv\<lparr>sv_servings := sgs\<rparr>)"

text \<open>\<open>handleValue\<close>.\<close>

definition handleValue :: "served_ptr \<Rightarrow> int \<Rightarrow> val \<Rightarrow> server \<Rightarrow> server" where
  "handleValue p i v sv =
     sv\<lparr>sv_queue := sv_queue sv @ [\<lparr>qv_value = v, qv_served = p, qv_servingID = i\<rparr>]\<rparr>"

text \<open>
  One client: a received value is queued, a failed connection is noted for removal. \<open>bDisconnected\<close> is
  not initialised in the code, and not used.
\<close>

definition receive_step ::
  "sock_env \<Rightarrow> served_ptr \<times> int \<Rightarrow> server \<times> served_ptr list \<Rightarrow> (server \<times> served_ptr list) result" where
  "receive_step env = (\<lambda>(p, i) (sv, lstRemoveServed).
     case sv_heap sv p of
       None \<Rightarrow> Inl NullDeref
     | Some pe \<Rightarrow>
         bind_r (receive (recv_of env (m_nSocketFD pe)) (junk_of env) False pe) (\<lambda>(v, _, pe, _).
           let sv = sv\<lparr>sv_heap := (sv_heap sv)(p \<mapsto> pe)\<rparr> in
           case v of
             Some v \<Rightarrow> Inr (handleValue p i v sv, lstRemoveServed)
           | None \<Rightarrow> Inr (sv, if failureState pe then lstRemoveServed @ [p] else lstRemoveServed)))"

definition remove_step :: "served_ptr \<Rightarrow> server \<Rightarrow> server" where
  "remove_step p sv =
     (case erase_first (\<lambda>pr. fst pr = p) (sv_served sv) of
        None \<Rightarrow> sv
      | Some (pr, prs) \<Rightarrow> sv\<lparr>sv_removed := sv_removed sv @ [fst pr], sv_served := prs\<rparr>)"

definition server_cycle :: "sock_env \<Rightarrow> server \<Rightarrow> (bool \<times> server) result" where
  "server_cycle env sv =
     (if sv_run sv then
        let (sgs, sv) = accept_all env (sv_servings sv) sv;
            sv = drop_servings (sv\<lparr>sv_servings := sgs\<rparr>)
        in bind_r (fold_r (receive_step env) (sv_served sv) (sv, [])) (\<lambda>(sv, lstRemoveServed).
             Inr (True, fold remove_step lstRemoveServed sv))
      else Inr (False, sv))"

text \<open>The two lists the daemon fetches are emptied by it.\<close>

definition queuedValues :: "server \<Rightarrow> queued list \<times> server" where
  "queuedValues sv = (sv_queue sv, sv\<lparr>sv_queue := []\<rparr>)"

definition removed :: "server \<Rightarrow> served_ptr list \<times> server" where
  "removed sv = (sv_removed sv, sv\<lparr>sv_removed := []\<rparr>)"

section \<open>The invariant\<close>

text \<open>
  Clients are different objects, all alive, with numbers below the next one; servings have different
  numbers; what is queued or removed is an object that was accepted.
\<close>

definition server_inv :: "server \<Rightarrow> bool" where
  "server_inv sv \<longleftrightarrow>
     distinct (map fst (sv_served sv)) \<and>
     (\<forall>(p, i) \<in> set (sv_served sv). p < sv_next sv \<and> sv_heap sv p \<noteq> None) \<and>
     distinct (map nID (sv_servings sv)) \<and>
     (\<forall>sg \<in> set (sv_servings sv). 0 \<le> nID sg) \<and>
     (\<forall>p. sv_heap sv p \<noteq> None \<longrightarrow> p < sv_next sv) \<and>
     (\<forall>p \<in> set (sv_removed sv). p < sv_next sv \<and> p \<notin> fst ` set (sv_served sv))"

end
