(* ===== verification/Server_Props.thy ===== *)
theory Server_Props
  imports Server
begin

text \<open>
  What \<open>Server.cpp\<close> guarantees: the numbers of servings, the invariant of the object lists, and what one
  cycle does with the clients: accepted ones are greeted, received values are queued in order, failed
  connections are removed.
\<close>

section \<open>Servings\<close>

lemma free_id_from_laws:
  "free_id_from ss n \<notin> nID ` set ss \<and> n \<le> free_id_from ss n \<and>
     (\<forall>j. n \<le> j \<and> j < free_id_from ss n \<longrightarrow> j \<in> nID ` set ss)"
proof (induction ss n rule: free_id_from.induct)
  case (1 ss n)
  show ?case
  proof (cases "\<exists>s \<in> set ss. nID s = n")
    case True
    with "1.IH" [OF True] show ?thesis
      unfolding free_id_from.simps [of ss n]
      by (auto simp: image_iff) (metis zle_add1_eq_le le_less zless_imp_add1_zle)+
  next
    case False
    then show ?thesis by (auto simp: free_id_from.simps [of ss n])
  qed
qed

text \<open>C30: the loop that looks for the number of a new serving ends, and its result is the smallest
  natural number that no serving has.\<close>

theorem freeServingID_least:
  "freeServingID sv \<notin> nID ` set (sv_servings sv) \<and> 0 \<le> freeServingID sv \<and>
   {0..<freeServingID sv} \<subseteq> nID ` set (sv_servings sv)"
  unfolding freeServingID_def using free_id_from_laws by fastforce

lemma freeServingID_fresh: "freeServingID sv \<notin> nID ` set (sv_servings sv)" "0 \<le> freeServingID sv"
  unfolding freeServingID_def using free_id_from_laws by blast+

lemma find_append_new: "\<forall>x \<in> set xs. \<not> P x \<Longrightarrow> P y \<Longrightarrow> find P (xs @ [y]) = Some y"
  by (induction xs) auto

lemma find_append_old: "find P xs = Some z \<Longrightarrow> find P (xs @ ys) = Some z"
  by (induction xs) (auto split: if_splits)

lemma serve_True:
  assumes "serve fd bound d port sv = Inr (True, sv')"
  shows "length d < 16" "sv' = sv\<lparr>sv_servings := sv_servings sv @
     [\<lparr>stStatus = Stopped, nID = freeServingID sv, nSocketFD = fd, strDeviceName = d, usPort = port\<rparr>]\<rparr>"
    "\<not> (\<exists>s \<in> set (sv_servings sv). strDeviceName s = d \<and> usPort s = port)"
  using assms by (auto simp: serve_def Let_def split: if_splits)

text \<open>Serving a device and port a second time is refused; otherwise the new serving is found under
  its number, and the numbers of the others still lead to them.\<close>

theorem serve_registers:
  assumes "serve fd bound d port sv = Inr (b, sv')"
  shows "(b \<longrightarrow> servingByID (freeServingID sv) sv' =
            \<lparr>stStatus = Stopped, nID = freeServingID sv, nSocketFD = fd, strDeviceName = d, usPort = port\<rparr>) \<and>
    (\<not> b \<longrightarrow> sv' = sv) \<and>
    (\<forall>n \<in> nID ` set (sv_servings sv). servingByID n sv' = servingByID n sv) \<and>
    ((\<exists>s \<in> set (sv_servings sv). strDeviceName s = d \<and> usPort s = port) \<longrightarrow> \<not> b)"
proof (cases b)
  case True
  with assms have s: "serve fd bound d port sv = Inr (True, sv')" by simp
  have "servingByID n sv' = servingByID n sv" if "n \<in> nID ` set (sv_servings sv)" for n
  proof -
    from that obtain z where "find (\<lambda>s. nID s = n) (sv_servings sv) = Some z"
      by (cases "find (\<lambda>s. nID s = n) (sv_servings sv)") (auto simp: find_None_iff)
    then show ?thesis by (simp add: servingByID_def serve_True(2) [OF s] find_append_old)
  qed
  moreover have "servingByID (freeServingID sv) sv' =
      \<lparr>stStatus = Stopped, nID = freeServingID sv, nSocketFD = fd, strDeviceName = d, usPort = port\<rparr>"
  proof -
    have "\<forall>s \<in> set (sv_servings sv). nID s \<noteq> freeServingID sv" using freeServingID_fresh(1) [of sv] by (metis image_eqI)
    then show ?thesis by (simp add: servingByID_def serve_True(2) [OF s] find_append_new)
  qed
  ultimately show ?thesis using True serve_True(3) [OF s] by blast
next
  case False
  with assms show ?thesis by (auto simp: serve_def Let_def split: if_splits)
qed

theorem serve_registers_witness:
  "\<exists>sv'. serve 4 True ''eth0'' 7090 new_server = Inr (True, sv') \<and>
     strDeviceName (servingByID 0 sv') = ''eth0''"
proof -
  let ?sv' = "new_server\<lparr>sv_servings := [\<lparr>stStatus = Stopped, nID = 0, nSocketFD = 4,
     strDeviceName = ''eth0'', usPort = 7090\<rparr>]\<rparr>"
  have f: "freeServingID new_server = 0" by (simp add: freeServingID_def free_id_from.simps new_server_def)
  then have s: "serve 4 True ''eth0'' 7090 new_server = Inr (True, ?sv')"
    by (simp add: serve_def new_server_def)
  with serve_registers [OF s] f show ?thesis by simp
qed

text \<open>A device name of sixteen characters or more, as a configuration file may contain it, makes
  \<open>serve\<close> write behind the \<open>ifr_name\<close> of its request.\<close>

theorem serve_name_overrun:
  assumes "16 \<le> length d" "fd \<noteq> - 1" "\<forall>s \<in> set (sv_servings sv). strDeviceName s \<noteq> d"
  shows "serve fd bound d port sv = Inl OutOfBounds"
  using assms by (auto simp: serve_def)

theorem serve_name_overrun_witness:
  "serve 4 True ''enp0s31f6-guest-network'' 7090 new_server = Inl OutOfBounds"
  by (rule serve_name_overrun) (simp_all add: new_server_def)

section \<open>Accepting\<close>

text \<open>What accepting leaves of the state: new objects behind the old ones, each greeted.\<close>

definition accepted :: "sock_env \<Rightarrow> serving \<Rightarrow> int list" where
  "accepted env sg = (case accept_of env (nSocketFD sg) of Accepted fd \<Rightarrow> [fd] | AcceptError _ \<Rightarrow> [])"

lemma listen_step_simps [simp]:
  "nID (listen_step env sg) = nID sg" "nSocketFD (listen_step env sg) = nSocketFD sg"
  "strDeviceName (listen_step env sg) = strDeviceName sg"
  by (simp_all add: listen_step_def)

lemma server_inv_accept:
  assumes inv: "server_inv sv"
  shows "server_inv (sv\<lparr>sv_heap := (sv_heap sv)(sv_next sv \<mapsto> pe), sv_next := Suc (sv_next sv),
    sv_served := sv_served sv @ [(sv_next sv, i)], sv_out := out\<rparr>)"
  unfolding server_inv_def
proof (intro conjI)
  have old: "p < sv_next sv" if "p \<in> fst ` set (sv_served sv)" for p
    using inv that unfolding server_inv_def by fastforce
  then show "distinct (map fst (sv_served (sv\<lparr>sv_heap := (sv_heap sv)(sv_next sv \<mapsto> pe), sv_next := Suc (sv_next sv),
      sv_served := sv_served sv @ [(sv_next sv, i)], sv_out := out\<rparr>)))"
    using inv unfolding server_inv_def by force
qed (use inv in \<open>unfold server_inv_def; force\<close>)+

lemma accept_step_laws:
  assumes "accept_step env sg sv = (sg', sv')"
  shows "nID sg' = nID sg" "sv_servings sv' = sv_servings sv" "sv_queue sv' = sv_queue sv"
    "sv_removed sv' = sv_removed sv" "sv_run sv' = sv_run sv" "sv_serverName sv' = sv_serverName sv"
    "sv_next sv \<le> sv_next sv'" "server_inv sv \<Longrightarrow> server_inv sv'"
    "\<exists>ps. sv_served sv' = sv_served sv @ map (\<lambda>p. (p, nID sg)) ps \<and>
       (\<forall>p \<in> set ps. sv_next sv \<le> p) \<and>
       sv_out sv' = sv_out sv @ map (\<lambda>p. (p, hello (sv_serverName sv))) ps"
proof -
  show "nID sg' = nID sg" "sv_servings sv' = sv_servings sv" "sv_queue sv' = sv_queue sv"
    "sv_removed sv' = sv_removed sv" "sv_run sv' = sv_run sv" "sv_serverName sv' = sv_serverName sv"
    "sv_next sv \<le> sv_next sv'"
    using assms by (auto simp: accept_step_def post_def Let_def split: accept_res.splits if_splits)
  show "server_inv sv'" if inv: "server_inv sv"
  proof (cases "accept_of env (nSocketFD sg)")
    case (Accepted fd)
    with assms server_inv_accept [OF inv] show ?thesis
      by (auto simp: accept_step_def post_def Let_def)
  next
    case (AcceptError again)
    with assms inv show ?thesis by (auto simp: accept_step_def)
  qed
  show "\<exists>ps. sv_served sv' = sv_served sv @ map (\<lambda>p. (p, nID sg)) ps \<and>
       (\<forall>p \<in> set ps. sv_next sv \<le> p) \<and>
       sv_out sv' = sv_out sv @ map (\<lambda>p. (p, hello (sv_serverName sv))) ps"
  proof (cases "accept_of env (nSocketFD sg)")
    case (Accepted fd)
    with assms show ?thesis
      by (intro exI [of _ "[sv_next sv]"]) (auto simp: accept_step_def post_def Let_def)
  next
    case (AcceptError again)
    with assms show ?thesis by (intro exI [of _ "[]"]) (auto simp: accept_step_def)
  qed
qed

lemma accept_all_laws:
  "accept_all env sgs sv = (sgs', sv') \<Longrightarrow>
     map nID sgs' = map nID sgs \<and> sv_servings sv' = sv_servings sv \<and> sv_queue sv' = sv_queue sv \<and>
     sv_removed sv' = sv_removed sv \<and> sv_run sv' = sv_run sv \<and> sv_serverName sv' = sv_serverName sv \<and>
     sv_next sv \<le> sv_next sv' \<and> (server_inv sv \<longrightarrow> server_inv sv') \<and>
     (\<exists>prs. sv_served sv' = sv_served sv @ prs \<and> (\<forall>(p, i) \<in> set prs. sv_next sv \<le> p \<and> i \<in> nID ` set sgs) \<and>
       sv_out sv' = sv_out sv @ map (\<lambda>(p, i). (p, hello (sv_serverName sv))) prs)"
proof (induction sgs arbitrary: sv sgs' sv')
  case (Cons sg sgs)
  obtain sg1 sv1 where 1: "accept_step env (listen_step env sg) sv = (sg1, sv1)"
    by (cases "accept_step env (listen_step env sg) sv")
  obtain sgs2 sv2 where 2: "accept_all env sgs sv1 = (sgs2, sv2)" by (cases "accept_all env sgs sv1")
  from Cons.prems 1 2 have e: "sgs' = sg1 # sgs2" "sv' = sv2" by simp_all
  note s = accept_step_laws [OF 1] and IH = Cons.IH [OF 2]
  from s(9) obtain ps where ps: "sv_served sv1 = sv_served sv @ map (\<lambda>p. (p, nID sg)) ps"
      "\<forall>p \<in> set ps. sv_next sv \<le> p" "sv_out sv1 = sv_out sv @ map (\<lambda>p. (p, hello (sv_serverName sv))) ps"
    by auto
  from IH obtain prs where prs: "sv_served sv2 = sv_served sv1 @ prs"
      "\<forall>(p, i) \<in> set prs. sv_next sv1 \<le> p \<and> i \<in> nID ` set sgs"
      "sv_out sv2 = sv_out sv1 @ map (\<lambda>(p, i). (p, hello (sv_serverName sv1))) prs" by blast
  have "sv_served sv' = sv_served sv @ (map (\<lambda>p. (p, nID sg)) ps @ prs) \<and>
      (\<forall>(p, i) \<in> set (map (\<lambda>p. (p, nID sg)) ps @ prs). sv_next sv \<le> p \<and> i \<in> nID ` set (sg # sgs)) \<and>
      sv_out sv' = sv_out sv @ map (\<lambda>(p, i). (p, hello (sv_serverName sv))) (map (\<lambda>p. (p, nID sg)) ps @ prs)"
    using ps prs s(6,7) e by (fastforce intro: order_trans)
  then have "\<exists>prs. sv_served sv' = sv_served sv @ prs \<and>
      (\<forall>(p, i) \<in> set prs. sv_next sv \<le> p \<and> i \<in> nID ` set (sg # sgs)) \<and>
      sv_out sv' = sv_out sv @ map (\<lambda>(p, i). (p, hello (sv_serverName sv))) prs" by blast
  with s IH e show ?case by simp
qed simp

lemma drop_servings_eq:
  "drop_servings sv = sv\<lparr>sv_servings := filter (\<lambda>sg. stStatus sg = Started) (sv_servings sv),
     sv_closed := sv_closed sv @ map nSocketFD (filter (\<lambda>sg. stStatus sg \<noteq> Started) (sv_servings sv))\<rparr>"
proof -
  have "fold (\<lambda>sg sv. sv\<lparr>sv_closed := sv_closed sv @ [nSocketFD sg]\<rparr>) sgs sv =
      sv\<lparr>sv_closed := sv_closed sv @ map nSocketFD sgs\<rparr>" for sgs :: "serving list" and sv :: server
    by (induction sgs arbitrary: sv) simp_all
  moreover have "stStatus sg \<noteq> Started \<longleftrightarrow> stStatus sg = Invalid \<or> stStatus sg = Stopped"
      "stStatus sg = Started \<longleftrightarrow> stStatus sg \<noteq> Invalid \<and> stStatus sg \<noteq> Stopped" for sg :: serving
    by (cases "stStatus sg"; simp)+
  ultimately show ?thesis by (simp add: drop_servings_def erase_loop_eq)
qed

lemma drop_servings_inv: "server_inv sv \<Longrightarrow> server_inv (drop_servings sv)"
  by (auto simp: drop_servings_eq server_inv_def distinct_map_filter)

section \<open>Receiving\<close>

text \<open>What \<open>receive\<close> returns for one client in a given heap.\<close>

definition client_receive ::
  "sock_env \<Rightarrow> (served_ptr \<Rightarrow> pentity option) \<Rightarrow> served_ptr \<Rightarrow> (val option \<times> pentity) result" where
  "client_receive env h p =
     (case h p of
        None \<Rightarrow> Inl NullDeref
      | Some pe \<Rightarrow>
          bind_r (receive (recv_of env (m_nSocketFD pe)) (junk_of env) False pe)
            (\<lambda>(v, _, pe, _). Inr (v, pe)))"

definition got :: "sock_env \<Rightarrow> (served_ptr \<Rightarrow> pentity option) \<Rightarrow> served_ptr \<times> int \<Rightarrow> queued list" where
  "got env h = (\<lambda>(p, i). case client_receive env h p of
     Inr (Some v, _) \<Rightarrow> [\<lparr>qv_value = v, qv_served = p, qv_servingID = i\<rparr>] | _ \<Rightarrow> [])"

definition failed :: "sock_env \<Rightarrow> (served_ptr \<Rightarrow> pentity option) \<Rightarrow> served_ptr \<Rightarrow> bool" where
  "failed env h p = (case client_receive env h p of
     Inr (None, pe) \<Rightarrow> failureState pe | _ \<Rightarrow> False)"

lemma receive_step_eq:
  "receive_step env (p, i) (sv, rem) =
     bind_r (client_receive env (sv_heap sv) p) (\<lambda>(v, pe).
       Inr (sv\<lparr>sv_heap := (sv_heap sv)(p \<mapsto> pe), sv_queue := sv_queue sv @ got env (sv_heap sv) (p, i)\<rparr>,
            rem @ (if failed env (sv_heap sv) p then [p] else [])))"
proof (cases "sv_heap sv p")
  case (Some pe)
  then show ?thesis
    by (cases "receive (recv_of env (m_nSocketFD pe)) (junk_of env) False pe")
       (auto simp: receive_step_def client_receive_def got_def failed_def handleValue_def Let_def split: option.splits)
qed (simp add: receive_step_def client_receive_def)

lemma client_receive_other: "p \<noteq> q \<Longrightarrow> client_receive env (h(q := x)) p = client_receive env h p"
  by (simp add: client_receive_def)

lemma got_other: "fst pr \<noteq> q \<Longrightarrow> got env (h(q := x)) pr = got env h pr"
  by (cases pr) (simp add: got_def client_receive_other)

lemma failed_other: "p \<noteq> q \<Longrightarrow> failed env (h(q := x)) p = failed env h p"
  by (simp add: failed_def client_receive_other)

text \<open>
  The loop over the clients: it faults exactly when one of the calls does, and otherwise queues what was
  received, in the order of the clients, and notes those that failed.
\<close>

lemma receive_all:
  assumes "distinct (map fst prs)" "\<forall>pr \<in> set prs. \<exists>r. client_receive env (sv_heap sv) (fst pr) = Inr r"
  shows "\<exists>h. fold_r (receive_step env) prs (sv, rem) =
     Inr (sv\<lparr>sv_heap := h, sv_queue := sv_queue sv @ concat (map (got env (sv_heap sv)) prs)\<rparr>,
          rem @ filter (failed env (sv_heap sv)) (map fst prs)) \<and> dom h = dom (sv_heap sv)"
  using assms
proof (induction prs arbitrary: sv rem)
  case Nil
  then show ?case by (intro exI [of _ "sv_heap sv"]) simp
next
  case (Cons pr prs)
  obtain p i where pr: "pr = (p, i)" by (cases pr)
  let ?h = "sv_heap sv"
  from Cons.prems pr obtain v pe where r: "client_receive env ?h p = Inr (v, pe)" by auto
  then have "p \<in> dom ?h" by (auto simp: client_receive_def split: option.splits)
  let ?sv1 = "sv\<lparr>sv_heap := ?h(p \<mapsto> pe), sv_queue := sv_queue sv @ got env ?h (p, i)\<rparr>"
  let ?rem1 = "rem @ (if failed env ?h p then [p] else [])"
  have step: "receive_step env (p, i) (sv, rem) = Inr (?sv1, ?rem1)"
    by (simp add: receive_step_eq r)
  from Cons.prems(1) have d: "distinct (map fst prs)" by simp
  have ne: "\<forall>pr \<in> set prs. fst pr \<noteq> p" using Cons.prems(1) pr by force
  then have "\<forall>pr \<in> set prs. \<exists>r. client_receive env (sv_heap ?sv1) (fst pr) = Inr r"
    using Cons.prems(2) by (simp add: client_receive_other)
  from Cons.IH [OF d this, of ?rem1] obtain h where
      h: "fold_r (receive_step env) prs (?sv1, ?rem1) =
        Inr (?sv1\<lparr>sv_heap := h, sv_queue := sv_queue ?sv1 @ concat (map (got env (sv_heap ?sv1)) prs)\<rparr>,
             ?rem1 @ filter (failed env (sv_heap ?sv1)) (map fst prs))" "dom h = dom (sv_heap ?sv1)"
    by blast
  have g: "concat (map (got env (sv_heap ?sv1)) prs) = concat (map (got env ?h) prs)"
    using ne by (intro arg_cong [of _ _ concat] map_cong refl) (simp add: got_other)
  have f: "filter (failed env (sv_heap ?sv1)) (map fst prs) = filter (failed env ?h) (map fst prs)"
    using ne by (intro filter_cong) (auto simp: failed_other)
  have "dom h = dom ?h" using h(2) \<open>p \<in> dom ?h\<close> by auto
  with h(1) [unfolded g f] step show ?case by (intro exI [of _ h]) (simp add: pr)
qed

lemma remove_all:
  assumes "distinct (map fst (sv_served sv))" "distinct rem" "set rem \<subseteq> fst ` set (sv_served sv)"
  shows "fold remove_step rem sv =
    sv\<lparr>sv_served := filter (\<lambda>pr. fst pr \<notin> set rem) (sv_served sv), sv_removed := sv_removed sv @ rem\<rparr>"
  using assms
proof (induction rem arbitrary: sv)
  case (Cons p rem)
  from Cons.prems have "erase_first (\<lambda>pr. fst pr = p) (sv_served sv) \<noteq> None"
    by (auto simp: erase_first_None_iff)
  then obtain pr prs where e: "erase_first (\<lambda>pr. fst pr = p) (sv_served sv) = Some (pr, prs)" by auto
  then obtain us vs where s: "sv_served sv = us @ pr # vs" "prs = us @ vs" "fst pr = p"
      "\<forall>u \<in> set us. fst u \<noteq> p" by (auto dest!: erase_first_SomeD)
  then have "fst pr \<notin> fst ` set vs" using Cons.prems(1) by simp
  with s(3) have vs: "\<forall>v \<in> set vs. fst v \<noteq> p" by (metis image_eqI)
  let ?sv1 = "sv\<lparr>sv_removed := sv_removed sv @ [p], sv_served := prs\<rparr>"
  have "distinct (map fst (sv_served ?sv1))" "set rem \<subseteq> fst ` set (sv_served ?sv1)"
    using Cons.prems s by auto
  from Cons.IH [OF this(1) _ this(2)] Cons.prems(2) have
    "fold remove_step rem ?sv1 = ?sv1\<lparr>sv_served := filter (\<lambda>pr. fst pr \<notin> set rem) prs,
       sv_removed := sv_removed ?sv1 @ rem\<rparr>" by simp
  moreover have "filter (\<lambda>pr. fst pr \<notin> set rem) prs = filter (\<lambda>pr. fst pr \<notin> set (p # rem)) (sv_served sv)"
  proof -
    have "filter (\<lambda>pr. fst pr \<notin> set (p # rem)) us = filter (\<lambda>pr. fst pr \<notin> set rem) us"
        "filter (\<lambda>pr. fst pr \<notin> set (p # rem)) vs = filter (\<lambda>pr. fst pr \<notin> set rem) vs"
      using s(4) vs by (auto intro!: filter_cong)
    with s show ?thesis by simp
  qed
  moreover have "remove_step p sv = ?sv1" using e s(3) by (simp add: remove_step_def)
  ultimately show ?case by simp
qed simp

lemma receive_all_conv:
  assumes "distinct (map fst prs)" "fold_r (receive_step env) prs (sv, rem) = Inr x"
  shows "\<forall>pr \<in> set prs. \<exists>r. client_receive env (sv_heap sv) (fst pr) = Inr r"
  using assms
proof (induction prs arbitrary: sv rem)
  case (Cons pr prs)
  obtain p i where pr: "pr = (p, i)" by (cases pr)
  from Cons.prems(2) obtain v pe where r: "client_receive env (sv_heap sv) p = Inr (v, pe)"
    by (auto simp: pr receive_step_eq bind_r_Inr_iff)
  let ?sv1 = "sv\<lparr>sv_heap := (sv_heap sv)(p \<mapsto> pe), sv_queue := sv_queue sv @ got env (sv_heap sv) (p, i)\<rparr>"
  from Cons.prems(2) r obtain rem1 where f: "fold_r (receive_step env) prs (?sv1, rem1) = Inr x"
    by (auto simp: pr receive_step_eq)
  have "distinct (map fst prs)" using Cons.prems(1) by simp
  from Cons.IH [OF this f] have "\<forall>pr \<in> set prs. \<exists>r. client_receive env (sv_heap ?sv1) (fst pr) = Inr r" .
  moreover have "\<forall>pr \<in> set prs. fst pr \<noteq> p" using Cons.prems(1) pr by force
  ultimately show ?case using r pr by (simp add: client_receive_other)
qed simp

text \<open>The state after accepting: the servings that listen, and all clients.\<close>

definition listening :: "sock_env \<Rightarrow> server \<Rightarrow> server" where
  "listening env sv =
     (let (sgs, sv) = accept_all env (sv_servings sv) sv in drop_servings (sv\<lparr>sv_servings := sgs\<rparr>))"

lemma listening_laws:
  assumes "server_inv sv"
  shows "server_inv (listening env sv)" "sv_queue (listening env sv) = sv_queue sv"
    "sv_removed (listening env sv) = sv_removed sv"
    "\<exists>prs. sv_served (listening env sv) = sv_served sv @ prs \<and> (\<forall>(p, i) \<in> set prs. sv_next sv \<le> p) \<and>
      sv_out (listening env sv) = sv_out sv @ map (\<lambda>(p, i). (p, hello (sv_serverName sv))) prs"
    "\<forall>sg \<in> set (sv_servings (listening env sv)). stStatus sg = Started"
    "sv_run (listening env sv) = sv_run sv" "sv_serverName (listening env sv) = sv_serverName sv"
proof -
  obtain sgs sv1 where a: "accept_all env (sv_servings sv) sv = (sgs, sv1)"
    by (cases "accept_all env (sv_servings sv) sv")
  note l = accept_all_laws [OF a]
  have e: "listening env sv = drop_servings (sv1\<lparr>sv_servings := sgs\<rparr>)" by (simp add: listening_def a)
  have ids: "nID ` set sgs = nID ` set (sv_servings sv)" using l by (metis list.set_map)
  have "server_inv sv1" using l assms by blast
  moreover have "\<forall>sg \<in> set sgs. 0 \<le> nID sg"
  proof
    fix sg assume "sg \<in> set sgs"
    then have "nID sg \<in> nID ` set (sv_servings sv)" unfolding ids [symmetric] by simp
    with assms show "0 \<le> nID sg" by (auto simp: server_inv_def)
  qed
  moreover have "distinct (map nID sgs)" using l assms by (simp add: server_inv_def)
  ultimately have "server_inv (sv1\<lparr>sv_servings := sgs\<rparr>)" by (simp add: server_inv_def)
  then show "server_inv (listening env sv)" unfolding e by (rule drop_servings_inv)
  show "sv_queue (listening env sv) = sv_queue sv" "sv_removed (listening env sv) = sv_removed sv"
    "sv_run (listening env sv) = sv_run sv" "sv_serverName (listening env sv) = sv_serverName sv"
    using l by (simp_all add: e drop_servings_eq)
  show "\<forall>sg \<in> set (sv_servings (listening env sv)). stStatus sg = Started"
    by (simp add: e drop_servings_eq)
  from l obtain prs where "sv_served sv1 = sv_served sv @ prs" "\<forall>(p, i) \<in> set prs. sv_next sv \<le> p"
      "sv_out sv1 = sv_out sv @ map (\<lambda>(p, i). (p, hello (sv_serverName sv))) prs" by blast
  then show "\<exists>prs. sv_served (listening env sv) = sv_served sv @ prs \<and> (\<forall>(p, i) \<in> set prs. sv_next sv \<le> p) \<and>
      sv_out (listening env sv) = sv_out sv @ map (\<lambda>(p, i). (p, hello (sv_serverName sv))) prs"
    by (intro exI [of _ prs]) (simp add: e drop_servings_eq)
qed

lemma server_cycle_eq:
  "server_cycle env sv =
     (if sv_run sv then
        bind_r (fold_r (receive_step env) (sv_served (listening env sv)) (listening env sv, []))
          (\<lambda>(sv, lstRemoveServed). Inr (True, fold remove_step lstRemoveServed sv))
      else Inr (False, sv))"
  by (simp add: server_cycle_def listening_def Let_def split: prod.splits)

text \<open>What a cycle makes of the state after accepting.\<close>

lemma server_cycle_Inr:
  assumes inv: "server_inv sv" and run: "sv_run sv"
    and ok: "\<forall>pr \<in> set (sv_served (listening env sv)).
      \<exists>r. client_receive env (sv_heap (listening env sv)) (fst pr) = Inr r"
  shows "\<exists>h. server_cycle env sv = Inr (True, (listening env sv)\<lparr>
      sv_heap := h,
      sv_queue := sv_queue sv @ concat (map (got env (sv_heap (listening env sv))) (sv_served (listening env sv))),
      sv_served := filter (\<lambda>pr. \<not> failed env (sv_heap (listening env sv)) (fst pr)) (sv_served (listening env sv)),
      sv_removed := sv_removed sv @
        filter (failed env (sv_heap (listening env sv))) (map fst (sv_served (listening env sv)))\<rparr>) \<and>
    dom h = dom (sv_heap (listening env sv))"
proof -
  let ?l = "listening env sv"
  let ?h = "sv_heap ?l"
  let ?rem = "filter (failed env ?h) (map fst (sv_served ?l))"
  note l = listening_laws [OF inv, of env]
  have d: "distinct (map fst (sv_served ?l))" using l(1) by (simp add: server_inv_def)
  from receive_all [OF d ok, of "[]"] obtain h where
      h: "fold_r (receive_step env) (sv_served ?l) (?l, []) =
        Inr (?l\<lparr>sv_heap := h, sv_queue := sv_queue ?l @ concat (map (got env ?h) (sv_served ?l))\<rparr>, ?rem)"
      "dom h = dom ?h" by auto
  let ?l1 = "?l\<lparr>sv_heap := h, sv_queue := sv_queue ?l @ concat (map (got env ?h) (sv_served ?l))\<rparr>"
  have "fold remove_step ?rem ?l1 = ?l1\<lparr>sv_served := filter (\<lambda>pr. fst pr \<notin> set ?rem) (sv_served ?l1),
      sv_removed := sv_removed ?l1 @ ?rem\<rparr>"
    using d by (intro remove_all) auto
  moreover have "filter (\<lambda>pr. fst pr \<notin> set ?rem) (sv_served ?l) = filter (\<lambda>pr. \<not> failed env ?h (fst pr)) (sv_served ?l)"
    by (intro filter_cong) auto
  ultimately show ?thesis using h run l(2,3)
    by (intro exI [of _ h]) (simp add: server_cycle_eq)
qed

lemma server_cycle_receives:
  assumes "server_inv sv" "sv_run sv" "server_cycle env sv = Inr (b, sv')"
  shows "\<forall>pr \<in> set (sv_served (listening env sv)).
    \<exists>r. client_receive env (sv_heap (listening env sv)) (fst pr) = Inr r"
proof -
  have "distinct (map fst (sv_served (listening env sv)))"
    using listening_laws(1) [OF assms(1), of env] by (simp add: server_inv_def)
  moreover from assms(2,3) obtain x where
    "fold_r (receive_step env) (sv_served (listening env sv)) (listening env sv, []) = Inr x"
    by (auto simp: server_cycle_eq bind_r_Inr_iff)
  ultimately show ?thesis by (rule receive_all_conv)
qed

section \<open>Properties of the cycle\<close>

lemma server_cycle_inv:
  assumes inv: "server_inv sv" and c: "server_cycle env sv = Inr (b, sv')"
  shows "server_inv sv'"
proof (cases "sv_run sv")
  case True
  let ?l = "listening env sv"
  let ?h = "sv_heap ?l"
  note l = listening_laws [OF inv, of env]
  from server_cycle_Inr [OF inv True server_cycle_receives [OF inv True c]] c obtain h where
      sv': "sv' = ?l\<lparr>sv_heap := h,
        sv_queue := sv_queue sv @ concat (map (got env ?h) (sv_served ?l)),
        sv_served := filter (\<lambda>pr. \<not> failed env ?h (fst pr)) (sv_served ?l),
        sv_removed := sv_removed sv @ filter (failed env ?h) (map fst (sv_served ?l))\<rparr>" "dom h = dom ?h" by auto
  have dom: "h p \<noteq> None \<longleftrightarrow> ?h p \<noteq> None" for p using sv'(2) by (metis domIff)
  have i: "distinct (map fst (sv_served ?l))" "\<forall>(p, i) \<in> set (sv_served ?l). p < sv_next ?l \<and> ?h p \<noteq> None"
      "distinct (map nID (sv_servings ?l))" "\<forall>sg \<in> set (sv_servings ?l). 0 \<le> nID sg"
      "\<forall>p. ?h p \<noteq> None \<longrightarrow> p < sv_next ?l"
      "\<forall>p \<in> set (sv_removed sv). p < sv_next ?l \<and> p \<notin> fst ` set (sv_served ?l)"
    using l(1) unfolding server_inv_def l(3) by blast+
  have old: "\<forall>p \<in> fst ` set (sv_served ?l). p < sv_next ?l" using i(2) by auto
  show ?thesis unfolding server_inv_def
  proof (intro conjI)
    show "distinct (map fst (sv_served sv'))" using i(1) by (simp add: sv' distinct_map_filter)
    show "\<forall>(p, i) \<in> set (sv_served sv'). p < sv_next sv' \<and> sv_heap sv' p \<noteq> None"
      using i(2) dom by (auto simp: sv'(1))
    show "\<forall>p. sv_heap sv' p \<noteq> None \<longrightarrow> p < sv_next sv'" using i(5) dom by (simp add: sv'(1))
    show "\<forall>p \<in> set (sv_removed sv'). p < sv_next sv' \<and> p \<notin> fst ` set (sv_served sv')"
      using i(6) old by (auto simp: sv'(1))
  qed (use i(3,4) in \<open>simp_all add: sv'(1)\<close>)
next
  case False
  with assms show ?thesis by (simp add: server_cycle_def)
qed

text \<open>A cycle keeps the invariant of the server: no client is listed twice, every listed client is a
  live object, a removed client is not listed any more, and the servings keep different numbers.\<close>

theorem server_cycle_invariant:
  assumes "server_inv sv" "server_cycle env sv = Inr (b, sv')"
  shows "server_inv sv'"
  by (rule server_cycle_inv [OF assms])

definition sample_server :: server where
  "sample_server = new_server\<lparr>
     sv_servings := [\<lparr>stStatus = Stopped, nID = 0, nSocketFD = 4, strDeviceName = ''eth0'', usPort = 7090\<rparr>],
     sv_served := [(0, 0), (1, 0)],
     sv_heap := (\<lambda>p. None)(0 \<mapsto> new_pentity 10, 1 \<mapsto> new_pentity 11), sv_next := 2\<rparr>"

definition sample_request :: val where
  "sample_request = Value ''request'' ''devices-list'' []"

text \<open>Client 0 has sent a request, client 1 has closed its connection; nobody connects.\<close>

definition sample_sock :: sock_env where
  "sample_sock = \<lparr>listen_ok = (\<lambda>fd. True), accept_of = (\<lambda>fd. AcceptError True),
     recv_of = (\<lambda>fd. if fd = 10 then queue_peek (encode sample_request) else (\<lambda>n. Received [])),
     junk_of = (\<lambda>n. replicate n 0)\<rparr>"

lemma sample_server_inv [simp]: "server_inv sample_server"
  by (simp add: server_inv_def sample_server_def new_server_def)

lemma sample_listening:
  "sv_served (listening sample_sock sample_server) = [(0, 0), (1, 0)]"
  "sv_heap (listening sample_sock sample_server) = sv_heap sample_server"
  by (simp_all add: listening_def accept_step_def listen_step_def sample_sock_def sample_server_def
      new_server_def drop_servings_eq)

lemma sample_receive:
  "client_receive sample_sock (sv_heap sample_server) 0 = Inr (Some sample_request, new_pentity 10)"
  "client_receive sample_sock (sv_heap sample_server) 1 = Inr (None, (new_pentity 11)\<lparr>m_bFailureState := True\<rparr>)"
proof -
  have "receive (queue_peek (encode sample_request)) (\<lambda>n. replicate n 0) False (new_pentity 10) =
      Inr (Some sample_request, False, new_pentity 10, wire_size sample_request)"
    using tcp_queue_peek [of "encode sample_request"]
    by (intro receive_front [of _ "[]"])
       (simp_all add: sample_request_def string_ok_def int_max_def heap_block_def del: encode.simps)
  then show "client_receive sample_sock (sv_heap sample_server) 0 = Inr (Some sample_request, new_pentity 10)"
    by (simp add: client_receive_def sample_sock_def sample_server_def new_pentity_def)
  show "client_receive sample_sock (sv_heap sample_server) 1 = Inr (None, (new_pentity 11)\<lparr>m_bFailureState := True\<rparr>)"
    by (simp add: client_receive_def sample_sock_def sample_server_def new_pentity_def receive_def
        peek_loop.simps [of _ 0] int_max_def Let_def)
qed

lemma sample_receives:
  "\<forall>pr \<in> set (sv_served (listening sample_sock sample_server)).
     \<exists>r. client_receive sample_sock (sv_heap (listening sample_sock sample_server)) (fst pr) = Inr r"
  using sample_receive by (simp add: sample_listening)

lemma sample_server_run: "sv_run sample_server"
  by (simp add: sample_server_def new_server_def)

theorem server_cycle_invariant_witness:
  "\<exists>sv'. server_cycle sample_sock sample_server = Inr (True, sv') \<and> server_inv sv'"
proof -
  from server_cycle_Inr [OF sample_server_inv sample_server_run sample_receives] obtain sv' where
    c: "server_cycle sample_sock sample_server = Inr (True, sv')" by blast
  from server_cycle_invariant [OF sample_server_inv c] c show ?thesis by blast
qed



text \<open>One client can stop the server: if what a connected client has sent makes \<open>deserialize\<close> read
  behind the buffer, the cycle of the whole server leaves its defined behaviour.\<close>

theorem bad_packet_stops_server:
  assumes "server_inv sv" "sv_run sv" "(p, i) \<in> set (sv_served (listening env sv))"
    "client_receive env (sv_heap (listening env sv)) p = Inl OutOfBounds"
  shows "\<exists>e. server_cycle env sv = Inl e"
proof (cases "server_cycle env sv")
  case (Inr r)
  then obtain b sv' where "server_cycle env sv = Inr (b, sv')" by (cases r) auto
  from server_cycle_receives [OF assms(1,2) this] assms(3,4) show ?thesis by fastforce
qed simp

text \<open>Four bytes: the length 2147483647 of a key that never follows.\<close>

definition sample_attack :: sock_env where
  "sample_attack = sample_sock\<lparr>recv_of := (\<lambda>fd n. Received [255, 255, 255, 127])\<rparr>"

theorem bad_packet_stops_server_witness:
  "\<exists>e. server_cycle sample_attack sample_server = Inl e"
proof (rule bad_packet_stops_server [OF sample_server_inv sample_server_run])
  show "(0, 0) \<in> set (sv_served (listening sample_attack sample_server))"
    by (simp add: listening_def accept_step_def listen_step_def sample_sock_def sample_attack_def
        sample_server_def new_server_def drop_servings_eq)
  have h: "sv_heap (listening sample_attack sample_server) 0 = Some (new_pentity 10)"
    by (simp add: listening_def accept_step_def listen_step_def sample_sock_def sample_attack_def
        sample_server_def new_server_def drop_servings_eq)
  have "unat (u32_of 255 255 255 127) = 2147483647"
    by (simp add: u32_of_def)
  then have "deserialize ([255, 255, 255, 127] @ replicate 2044 0) = Inl OutOfBounds"
    by (simp add: deserialize.simps [of "255 # bs" for bs] read_string_def read_bytes_def)
  then have "receive (\<lambda>n. Received [255, 255, 255, 127]) (\<lambda>n. replicate n 0) False (new_pentity 10) = Inl OutOfBounds"
    by (simp add: receive_def peek_loop.simps [of _ 0] int_max_def Let_def drop_replicate)
  moreover have "recv_of sample_attack fd = (\<lambda>n. Received [255, 255, 255, 127])"
      "junk_of sample_attack = (\<lambda>n. replicate n 0)" for fd
    by (simp_all add: sample_attack_def sample_sock_def)
  ultimately show "client_receive sample_attack (sv_heap (listening sample_attack sample_server)) 0 = Inl OutOfBounds"
    by (simp add: client_receive_def h)
qed

text \<open>After \<open>shutdown\<close> a cycle of the server does nothing and returns false.\<close>

theorem server_shutdown_final:
  "server_cycle env (server_shutdown sv) = Inr (False, server_shutdown sv)"
  by (simp add: server_cycle_def server_shutdown_def)

end
