(* ===== verification/Discovery.thy ===== *)
theory Discovery
  imports Packet
begin

text \<open>
  \<open>utils/src/DiscoveryNode.cpp\<close>, \<open>DiscoveryServer.cpp\<close>, \<open>DiscoveryClient.cpp\<close> and the reading side of
  \<open>MulticastEndpoint.cpp\<close>: answering the question who is there on a multicast group. The answers go to
  the whole group; \<open>ds_out\<close> records the values handed to \<open>send\<close>.
\<close>

text \<open>
  \<open>recv\<close> is overridden: it calls \<open>MulticastEndpoint::read\<close>, which has already turned the end of data
  into -1 and \<open>EWOULDBLOCK\<close> into 0. \<open>PacketEntity::receive\<close> takes the 0 for the end of the connection;
  for a -1 it looks at \<open>errno\<close> once more, whose value \<open>stale\<close> is what the last failing call left when
  the group sent an empty datagram.
\<close>

definition multicast_recv :: "bool \<Rightarrow> (nat \<Rightarrow> recv_res) \<Rightarrow> nat \<Rightarrow> recv_res" where
  "multicast_recv stale recv n =
     (case recv n of
        RecvError again \<Rightarrow> (if again then Received [] else RecvError False)
      | Received bs \<Rightarrow> (if bs = [] then RecvError stale else Received bs))"

record discovery =
  ds_entity :: pentity
  ds_identifier :: string
  ds_out :: "val list"

definition new_discovery :: "int \<Rightarrow> string \<Rightarrow> discovery" where
  "new_discovery fd strIdentifier =
     \<lparr>ds_entity = new_pentity fd, ds_identifier = strIdentifier, ds_out = []\<rparr>"

definition setIdentifier :: "string \<Rightarrow> discovery \<Rightarrow> discovery" where
  "setIdentifier strIdentifier ds = ds\<lparr>ds_identifier := strIdentifier\<rparr>"

definition processReceivedValue :: "val \<Rightarrow> discovery \<Rightarrow> discovery" where
  "processReceivedValue v ds =
     (if key v = ''request'' \<and> content v = ''server-info'' then
        ds\<lparr>ds_out := ds_out ds @
             [add_kv ''server-name'' (ds_identifier ds) (Value ''response'' ''server-info'' [])]\<rparr>
      else ds)"

text \<open>
  The constructor of \<open>MulticastEndpoint\<close>, with the answers of the system: the descriptor that is kept, and
  those that are closed. A node without the group keeps -1.
\<close>

record group_env =
  ge_socket :: int
  ge_reuse :: bool
  ge_loop :: bool
  ge_bind :: "u16 \<Rightarrow> bool"
  ge_join :: "string \<Rightarrow> bool"

definition multicast_endpoint :: "group_env \<Rightarrow> string \<Rightarrow> u16 \<Rightarrow> int \<times> int list" where
  "multicast_endpoint env strMulticastGroup port =
     (let bOK = (ge_reuse env \<and> ge_loop env \<and> ge_bind env port \<and> ge_join env strMulticastGroup)
      in if \<not> bOK then (- 1, [ge_socket env]) else (ge_socket env, []))"

definition discovery_node :: "group_env \<Rightarrow> string \<Rightarrow> discovery" where
  "discovery_node env strIdentifier = new_discovery (fst (multicast_endpoint env ''224.0.0.1'' 2077)) strIdentifier"

text \<open>\<open>DiscoveryNode::receive\<close>: the value and \<open>bSuccess\<close>.\<close>

definition discovery_receive ::
  "bool \<Rightarrow> (nat \<Rightarrow> recv_res) \<Rightarrow> (nat \<Rightarrow> byte list) \<Rightarrow> discovery \<Rightarrow> (val option \<times> bool \<times> discovery) result" where
  "discovery_receive stale recv junk ds =
     bind_r (receive (multicast_recv stale recv) junk False (ds_entity ds)) (\<lambda>(v, bDisconnected, pe, _).
       let ds = ds\<lparr>ds_entity := pe\<rparr> in
       if v \<noteq> None \<and> \<not> bDisconnected then Inr (v, True, ds) else Inr (None, False, ds))"

text \<open>One cycle with what is done with a received value.\<close>

definition discovery_cycle_with ::
  "(val \<Rightarrow> discovery \<Rightarrow> discovery) \<Rightarrow> bool \<Rightarrow> (nat \<Rightarrow> recv_res) \<Rightarrow> (nat \<Rightarrow> byte list) \<Rightarrow> discovery \<Rightarrow>
     (bool \<times> discovery) result" where
  "discovery_cycle_with process stale recv junk ds =
     bind_r (discovery_receive stale recv junk ds) (\<lambda>(v, bSuccess, ds).
       case v of
         Some v \<Rightarrow> Inr (True, if bSuccess then process v ds else ds)
       | None \<Rightarrow> if bSuccess then Inl NullDeref else Inr (True, ds))"

definition discovery_cycle ::
  "bool \<Rightarrow> (nat \<Rightarrow> recv_res) \<Rightarrow> (nat \<Rightarrow> byte list) \<Rightarrow> discovery \<Rightarrow> (bool \<times> discovery) result" where
  "discovery_cycle = discovery_cycle_with processReceivedValue"

section \<open>Properties\<close>

text \<open>A question for the server that arrives in one datagram is answered once, with the name of the
  server; any other value is ignored.\<close>

theorem discovery_answers:
  assumes "tcp_queue (encode v) recv" "value_ok v" "wire_size v + 2048 \<le> int_max" "heap_block junk"
  shows "discovery_cycle stale recv junk ds = Inr (True, ds\<lparr>ds_out := ds_out ds @
    (if key v = ''request'' \<and> content v = ''server-info''
     then [Value ''response'' ''server-info'' [Value ''server-name'' (ds_identifier ds) []]] else [])\<rparr>)"
proof -
  have ne: "encode v \<noteq> []" using wire_size_ge [of v] length_encode [of v] by force
  have "tcp_queue (encode v) (multicast_recv stale recv)"
    using assms(1) ne by (auto simp: tcp_queue_def multicast_recv_def)
  then have "receive (multicast_recv stale recv) junk False (ds_entity ds) =
      Inr (Some v, False, ds_entity ds, wire_size v)"
    using assms(2-4) by (intro receive_front [of v "[]"]) (simp_all add: length_encode)
  then show ?thesis
    by (simp add: discovery_cycle_def discovery_cycle_with_def discovery_receive_def
        processReceivedValue_def add_kv_def add_sub_def Let_def)
qed

theorem discovery_answers_witness:
  "discovery_cycle False (queue_peek (encode (Value ''request'' ''server-info'' []))) (\<lambda>n. replicate n 7)
     (new_discovery 5 ''attic'') =
   Inr (True, (new_discovery 5 ''attic'')\<lparr>ds_out :=
     [Value ''response'' ''server-info'' [Value ''server-name'' ''attic'' []]]\<rparr>)"
proof -
  let ?v = "Value ''request'' ''server-info'' []"
  have v: "value_ok ?v" "wire_size ?v + 2048 \<le> int_max" by (simp_all add: string_ok_def int_max_def)
  have h: "heap_block (\<lambda>n. replicate n 7)" by (simp add: heap_block_def)
  from discovery_answers [OF tcp_queue_peek v h, of False "new_discovery 5 ''attic''"] show ?thesis
    by (simp add: new_discovery_def del: encode.simps)
qed

text \<open>A cycle in which nothing has arrived does not fault and answers nothing, but it marks the
  node as failed: the 0 that stands for no data is read as the end of the connection.\<close>

theorem discovery_idle_fails:
  assumes "\<forall>n. recv n = RecvError True"
  shows "\<exists>ds'. discovery_cycle stale recv junk ds = Inr (True, ds') \<and> ds_out ds' = ds_out ds \<and>
    failureState (ds_entity ds')"
  using assms
  by (simp add: discovery_cycle_def discovery_cycle_with_def discovery_receive_def receive_def
      peek_loop.simps [of _ 0] multicast_recv_def int_max_def Let_def failureState_def)

theorem discovery_idle_fails_witness:
  "\<exists>ds'. discovery_cycle False (\<lambda>n. RecvError True) (\<lambda>n. []) (new_discovery 5 ''attic'') = Inr (True, ds') \<and>
     ds_out ds' = [] \<and> failureState (ds_entity ds')"
  using discovery_idle_fails [of "\<lambda>n. RecvError True" False "\<lambda>n. []" "new_discovery 5 ''attic''"]
  by (simp add: new_discovery_def)

end
