(* ===== verification/Numbers.thy ===== *)
theory Numbers
  imports Frames
begin

text \<open>
  The conversions between numbers and text that the code takes from the standard library: \<open>operator<<\<close>
  for a \<open>double\<close> with the default precision of six digits, \<open>sscanf\<close> with \<open>%d\<close> and \<open>%lf\<close>. Of \<open>%lf\<close> the
  decimal numbers are modelled, not the hexadecimal ones, infinity and not-a-number, for which \<open>real\<close>
  has no value or the configuration files no use.
\<close>

section \<open>Writing\<close>

definition pow10 :: "int \<Rightarrow> real" where
  "pow10 e = (if e \<ge> 0 then 10 ^ nat e else 1 / 10 ^ nat (- e))"

text \<open>The decimal exponent of a positive number; the range of \<open>double\<close> ends before 400.\<close>

definition dec_exponent :: "real \<Rightarrow> int" where
  "dec_exponent x =
     (if x \<ge> 1 then int (length (takeWhile (\<lambda>k. 10 ^ (k + 1) \<le> x) [0..<400]))
      else - int (length (takeWhile (\<lambda>k. x * 10 ^ (k + 1) < 1) [0..<400])) - 1)"

definition round_even :: "real \<Rightarrow> nat" where
  "round_even y =
     (let n = nat \<lfloor>y\<rfloor>; r = y - real n in
      if r < 1 / 2 then n else if r > 1 / 2 then n + 1 else if even n then n else n + 1)"

definition strip_zeros :: "string \<Rightarrow> string" where
  "strip_zeros s = rev (dropWhile (\<lambda>c. c = CHR 0x30) (rev s))"

definition with_point :: "string \<Rightarrow> string" where
  "with_point s = (let s = strip_zeros s in if s = [] then [] else CHR 0x2E # s)"

definition six_digits :: "real \<Rightarrow> nat \<times> int" where
  "six_digits x =
     (let e = dec_exponent x; d = round_even (x / pow10 (e - 5)) in
      if d = 1000000 then (100000, e + 1) else (d, e))"

definition show_positive :: "real \<Rightarrow> string" where
  "show_positive x =
     (let (d, e) = six_digits x; ds = dec_string d in
      if e < - 4 \<or> e \<ge> 6 then
        take 1 ds @ with_point (drop 1 ds) @ ''e'' @ (if e < 0 then ''-'' else ''+'') @
          (if nat \<bar>e\<bar> < 10 then ''0'' else []) @ dec_string (nat \<bar>e\<bar>)
      else if e < 0 then ''0'' @ with_point (replicate (nat (- e - 1)) (CHR 0x30) @ ds)
      else take (nat e + 1) ds @ with_point (drop (nat e + 1) ds))"

definition show_double :: "real \<Rightarrow> string" where
  "show_double x =
     (if x = 0 then ''0'' else if x < 0 then CHR 0x2D # show_positive (- x) else show_positive x)"

section \<open>Reading\<close>

definition is_space :: "char \<Rightarrow> bool" where
  "is_space c \<longleftrightarrow> c \<in> set [CHR 0x20, CHR 0x09, CHR 0x0A, CHR 0x0B, CHR 0x0C, CHR 0x0D]"

definition is_dec :: "char \<Rightarrow> bool" where
  "is_dec c \<longleftrightarrow> dec_value c \<noteq> None"

definition dec_nat :: "string \<Rightarrow> nat" where
  "dec_nat s = fold (\<lambda>c n. 10 * n + (case dec_value c of Some v \<Rightarrow> v | None \<Rightarrow> 0)) s 0"

text \<open>An optional sign.\<close>

definition scan_sign :: "string \<Rightarrow> bool \<times> string" where
  "scan_sign s = (case s of
     c # cs \<Rightarrow> if c = CHR 0x2D then (True, cs) else if c = CHR 0x2B then (False, cs) else (False, s)
   | [] \<Rightarrow> (False, []))"

text \<open>\<open>%d\<close>: \<open>None\<close> when nothing matches, and the variable keeps its value.\<close>

definition scan_int :: "string \<Rightarrow> int option" where
  "scan_int s =
     (let (neg, s) = scan_sign (dropWhile is_space s); ds = takeWhile is_dec s in
      if ds = [] then None else Some (if neg then - int (dec_nat ds) else int (dec_nat ds)))"

definition scan_exponent :: "string \<Rightarrow> int" where
  "scan_exponent s = (case s of
     c # cs \<Rightarrow>
       if c = CHR 0x65 \<or> c = CHR 0x45 then
         (let (neg, cs) = scan_sign cs; n = int (dec_nat (takeWhile is_dec cs)) in if neg then - n else n)
       else 0
   | [] \<Rightarrow> 0)"

definition scan_double :: "string \<Rightarrow> real option" where
  "scan_double s =
     (let (neg, s) = scan_sign (dropWhile is_space s);
          whole = takeWhile is_dec s;
          rest = dropWhile is_dec s;
          frac = (case rest of c # cs \<Rightarrow> if c = CHR 0x2E then takeWhile is_dec cs else [] | [] \<Rightarrow> []);
          tail = (case rest of c # cs \<Rightarrow> if c = CHR 0x2E then dropWhile is_dec cs else rest | [] \<Rightarrow> []);
          x = real (dec_nat (whole @ frac)) * pow10 (scan_exponent tail - int (length frac))
      in if whole @ frac = [] then None else Some (if neg then - x else x))"

section \<open>Lemmas\<close>

text \<open>From a million seconds on, six digits do not tell seconds apart.\<close>

lemma dec_exponent_million:
  assumes "1000000 \<le> x" "x < 10000000"
  shows "dec_exponent x = 6"
proof -
  have "[0..<400::nat] = [0..<7] @ [7..<400]" using upt_add_eq_append [of 0 7 393] by simp
  moreover have "[0..<7::nat] = [0, 1, 2, 3, 4, 5, 6]" by code_simp
  ultimately have s: "[0..<400::nat] = [0, 1, 2, 3, 4, 5, 6] @ [7..<400]" by simp
  have "takeWhile (\<lambda>k::nat. 10 ^ (k + 1) \<le> x) [0..<400] = [0, 1, 2, 3, 4, 5]"
    using assms unfolding s by simp
  with assms show ?thesis by (simp add: dec_exponent_def)
qed

lemma show_million: "show_double 1234567 = ''1.23457e+06''" "show_double 1234571 = ''1.23457e+06''"
proof -
  have p: "pow10 1 = 10" by (simp add: pow10_def)
  have r: "round_even (1234567 / 10) = 123457" "round_even (1234571 / 10) = 123457"
    by (simp_all add: round_even_def Let_def floor_eq_iff)
  have d: "dec_string 123457 = ''123457''" by (simp add: dec_string.simps dec_digit_def)
  have z: "dec_string 6 = ''6''" by (simp add: dec_string.simps dec_digit_def)
  have e: "dec_exponent 1234567 = 6" "dec_exponent 1234571 = 6" by (simp_all add: dec_exponent_million)
  have six: "six_digits 1234567 = (123457, 6)" "six_digits 1234571 = (123457, 6)"
    by (simp_all add: six_digits_def e p r Let_def)
  show "show_double 1234567 = ''1.23457e+06''" "show_double 1234571 = ''1.23457e+06''"
    by (simp_all add: show_double_def show_positive_def six d z with_point_def strip_zeros_def Let_def
        del: dec_string.simps)
qed

lemma scan_examples:
  "scan_int ''7090'' = Some 7090" "scan_int ''eth0'' = None" "scan_double ''2.5'' = Some 2.5"
proof -
  show "scan_int ''7090'' = Some 7090" "scan_int ''eth0'' = None"
    by (simp_all add: scan_int_def scan_sign_def is_space_def is_dec_def dec_value_def dec_nat_def Let_def)
  show "scan_double ''2.5'' = Some 2.5"
    by (simp add: scan_double_def scan_sign_def is_space_def is_dec_def dec_value_def dec_nat_def
        scan_exponent_def pow10_def Let_def)
qed

end
