(* ===== verification/Config.thy ===== *)
theory Config
  imports Numbers
begin

text \<open>
  \<open>utils/src/Config.cpp\<close>: the configuration file, sections of \<open>term=value\<close> lines. The parsed file is a map
  of maps; the character that delimits a string is an option (\<open>None\<close> for the code's 0). The standard
  library throws where the code does not look first: \<open>at\<close> on an empty string, \<open>substr(npos)\<close>.
\<close>

type_synonym sections = "(string \<times> (string \<times> string) list) list"

definition blanks :: string where
  "blanks = [CHR 0x20, CHR 0x0A, CHR 0x0D, CHR 0x09]"

definition is_quote :: "char \<Rightarrow> bool" where
  "is_quote c \<longleftrightarrow> c = CHR 0x22 \<or> c = CHR 0x27"

definition splitString :: "string \<Rightarrow> string list" where
  "splitString strContent = map (erase_trailing blanks) (get_lines strContent)"

text \<open>A quotation mark opens a string, and the same mark closes it.\<close>

definition toggle :: "char \<Rightarrow> char option \<Rightarrow> char option" where
  "toggle cAt d = (case d of None \<Rightarrow> Some cAt | Some c \<Rightarrow> if c = cAt then None else d)"

fun filter_chars :: "string \<Rightarrow> char option \<Rightarrow> string" where
  "filter_chars [] d = []"
| "filter_chars (cAt # cs) d =
     (if is_quote cAt then cAt # filter_chars cs (toggle cAt d)
      else if cAt = CHR 0x23 \<and> d = None then []
      else cAt # filter_chars cs d)"

fun filterLines :: "string list \<Rightarrow> string list" where
  "filterLines [] = []"
| "filterLines (strLine # ls) =
     (if strLine \<noteq> [] then
        let strLineFiltered = erase_trailing blanks (filter_chars strLine None) in
        if strLineFiltered \<noteq> [] then strLineFiltered # filterLines ls else filterLines ls
      else filterLines ls)"

text \<open>
  One line: a section header or an assignment. A line without \<open>=\<close> is both term and value, because
  \<open>npos + 1\<close> is 0.
\<close>

definition parse_line :: "string \<Rightarrow> string \<times> sections \<Rightarrow> (string \<times> sections) result" where
  "parse_line strLine = (\<lambda>(strSection, mapResult).
     if strLine = [] then Inl OutOfRange
     else if hd strLine = CHR 0x5B \<and> last strLine = CHR 0x5D then
       Inr (take (length strLine - 2) (drop 1 strLine), mapResult)
     else
       let (strTerm, strValue) = (case find_first (\<lambda>c. c = CHR 0x3D) strLine of
             None \<Rightarrow> (strLine, strLine)
           | Some i \<Rightarrow> (take i strLine, drop (i + 1) strLine));
           (inner, outer) = smap_at [] strSection mapResult
       in Inr (strSection, smap_set strSection (smap_set strTerm strValue inner) outer))"

definition parseLines :: "string list \<Rightarrow> sections result" where
  "parseLines lstLines =
     bind_r (fold_r parse_line lstLines (''global'', [])) (\<lambda>(s, m). Inr m)"

definition loadFromString :: "string \<Rightarrow> sections result" where
  "loadFromString strConfig = parseLines (filterLines (splitString strConfig))"

definition loadFromFile :: "(string \<Rightarrow> string option) \<Rightarrow> string \<Rightarrow> sections \<Rightarrow> (bool \<times> sections) result" where
  "loadFromFile files strFilepath m =
     (case files strFilepath of
        None \<Rightarrow> Inr (False, m)
      | Some strContent \<Rightarrow> bind_r (loadFromString strContent) (\<lambda>m. Inr (True, m)))"

definition cut_quotes :: "string \<Rightarrow> string" where
  "cut_quotes s =
     (if s \<noteq> [] \<and> hd s = CHR 0x22 \<and> last s = CHR 0x22 then take (length s - 2) (drop 1 s) else s)"

definition config_value :: "string \<Rightarrow> string \<Rightarrow> string \<Rightarrow> bool \<Rightarrow> sections \<Rightarrow> string" where
  "config_value strSection strTerm strDefault bCutoffQuotes m =
     (case smap_get strSection m of
        None \<Rightarrow> strDefault
      | Some inner \<Rightarrow>
          (case smap_get strTerm inner of
             None \<Rightarrow> strDefault
           | Some strValue \<Rightarrow> if bCutoffQuotes then cut_quotes strValue else strValue))"

text \<open>One portion of a list: without the blanks around it and the marks of a string.\<close>

definition portion :: "string \<Rightarrow> string result" where
  "portion s =
     (let s = erase_trailing blanks s in
      case find_first (\<lambda>c. c \<notin> set blanks) s of
        None \<Rightarrow> Inl OutOfRange
      | Some i \<Rightarrow>
          let s = drop i s in
          Inr (if (hd s = CHR 0x22 \<and> last s = CHR 0x22) \<or> (hd s = CHR 0x27 \<and> last s = CHR 0x27)
               then take (length s - 2) (drop 1 s) else s))"

text \<open>The loop, with the characters since the last comma.\<close>

fun list_loop :: "string \<Rightarrow> char option \<Rightarrow> string \<Rightarrow> string list \<Rightarrow> string list result" where
  "list_loop [] d cur lstList = bind_r (portion cur) (\<lambda>p. Inr (lstList @ [p]))"
| "list_loop (cAt # cs) d cur lstList =
     (if is_quote cAt then list_loop cs (toggle cAt d) (cur @ [cAt]) lstList
      else if cAt = CHR 0x2C \<and> d = None
      then bind_r (portion cur) (\<lambda>p. list_loop cs None [] (lstList @ [p]))
      else list_loop cs d (cur @ [cAt]) lstList)"

definition config_list :: "string \<Rightarrow> string \<Rightarrow> sections \<Rightarrow> string list result" where
  "config_list strSection strTerm m =
     list_loop (config_value strSection strTerm [] False m) None [] []"

definition doubleValue :: "string \<Rightarrow> string \<Rightarrow> real \<Rightarrow> sections \<Rightarrow> real" where
  "doubleValue strSection strTerm dDefault m =
     (let strValue = config_value strSection strTerm [] True m in
      if strValue \<noteq> [] then (case scan_double strValue of None \<Rightarrow> 0 | Some d \<Rightarrow> d) else dDefault)"

section \<open>Lemmas\<close>

text \<open>A text without blanks at its ends, line ends, comment signs, marks or commas is kept as it is.\<close>

definition plain :: "string \<Rightarrow> bool" where
  "plain s \<longleftrightarrow> s \<noteq> [] \<and> hd s \<notin> set blanks \<and> last s \<notin> set blanks \<and>
     (\<forall>c \<in> set s. \<not> is_quote c \<and> c \<noteq> CHR 0x23 \<and> c \<noteq> CHR 0x2C \<and> c \<noteq> CHR 0x0A)"

lemma filter_chars_plain: "\<forall>c \<in> set s. \<not> is_quote c \<and> c \<noteq> CHR 0x23 \<Longrightarrow> filter_chars s None = s"
  by (induction s) auto

lemma erase_trailing_last: "s \<noteq> [] \<Longrightarrow> last s \<notin> set ws \<Longrightarrow> erase_trailing ws s = s"
  by (cases s rule: rev_cases) (auto simp: erase_trailing_eq)

lemma find_first_hd: "s \<noteq> [] \<Longrightarrow> P (hd s) \<Longrightarrow> find_first P s = Some 0"
  by (cases s) auto

lemma portion_plain: "plain s \<Longrightarrow> portion s = Inr s"
proof -
  assume p: "plain s"
  then have "hd s \<in> set s" by (simp add: plain_def)
  with p have "\<not> is_quote (hd s)" by (simp add: plain_def)
  with p show ?thesis
    by (simp add: portion_def erase_trailing_last find_first_hd plain_def Let_def is_quote_def)
qed

lemma list_loop_item:
  "\<forall>c \<in> set s. \<not> is_quote c \<and> c \<noteq> CHR 0x2C \<Longrightarrow>
     list_loop (s @ rest) None cur l = list_loop rest None (cur @ s) l"
  by (induction s arbitrary: cur) auto

fun join_commas :: "string list \<Rightarrow> string" where
  "join_commas [] = []"
| "join_commas [s] = s"
| "join_commas (s # ss) = s @ [CHR 0x2C] @ join_commas ss"

lemma list_loop_join:
  "ss \<noteq> [] \<Longrightarrow> \<forall>s \<in> set ss. plain s \<Longrightarrow> list_loop (join_commas ss) None [] l = Inr (l @ ss)"
proof (induction ss arbitrary: l rule: join_commas.induct)
  case (2 s)
  then have "list_loop (s @ []) None [] l = list_loop [] None ([] @ s) l"
    by (intro list_loop_item) (simp add: plain_def)
  with 2 show ?case by (simp add: portion_plain)
next
  case (3 s s' ss)
  let ?rest = "[CHR 0x2C] @ join_commas (s' # ss)"
  have "list_loop (s @ ?rest) None [] l = list_loop ?rest None ([] @ s) l"
    using 3 by (intro list_loop_item) (simp add: plain_def)
  also have "\<dots> = Inr (l @ s # s' # ss)"
    using 3 by (simp add: is_quote_def portion_plain)
  finally show ?case by simp
qed simp

section \<open>Properties\<close>

text \<open>A list of plain items, written with commas between them as the value of a term, is read back
  item by item.\<close>

theorem config_list_roundtrip:
  assumes "ss \<noteq> []" "\<forall>s \<in> set ss. plain s" "config_value sec term [] False m = join_commas ss"
  shows "config_list sec term m = Inr ss"
  using list_loop_join [OF assms(1,2), of "[]"] assms(3) by (simp add: config_list_def)

theorem config_list_roundtrip_witness:
  "config_list ''server'' ''serve'' [(''server'', [(''serve'', ''eth0:7090,lo:7091'')])] =
     Inr [''eth0:7090'', ''lo:7091'']"
  by (rule config_list_roundtrip) (simp_all add: plain_def blanks_def is_quote_def config_value_def)

text \<open>A term that is missing or has no value, or a list with nothing between two commas, makes
  \<open>Config::list\<close> throw.\<close>

theorem config_list_throws:
  assumes "config_value sec term [] False m = s" "s = [] \<or> (\<exists>a b. s = a @ '',,'' @ b \<and>
    (\<forall>c \<in> set a. \<not> is_quote c \<and> c \<noteq> CHR 0x2C))"
  shows "config_list sec term m = Inl OutOfRange"
proof -
  have e: "portion [] = Inl OutOfRange" by (simp add: portion_def erase_trailing_eq)
  from assms(2) show ?thesis
  proof
    assume "s = []"
    with assms(1) e show ?thesis by (simp add: config_list_def)
  next
    assume "\<exists>a b. s = a @ '',,'' @ b \<and> (\<forall>c \<in> set a. \<not> is_quote c \<and> c \<noteq> CHR 0x2C)"
    then obtain a b where s: "s = a @ '',,'' @ b" "\<forall>c \<in> set a. \<not> is_quote c \<and> c \<noteq> CHR 0x2C" by blast
    have p: "portion a = Inl OutOfRange \<or> (\<exists>p. portion a = Inr p)"
      by (auto simp: portion_def Let_def split: option.splits)
    have "list_loop s None [] [] = list_loop ('',,'' @ b) None a []"
      using list_loop_item [OF s(2), of "'',,'' @ b" "[]" "[]"] by (simp only: s(1) append_Nil)
    also have "\<dots> = Inl OutOfRange" using p e by (auto simp: is_quote_def)
    finally show ?thesis by (simp only: config_list_def assms(1))
  qed
qed

theorem config_list_throws_witness:
  "config_list ''network'' ''allowed-devices'' [(''server'', [(''serve'', ''eth0:7090'')])] = Inl OutOfRange"
  by (rule config_list_throws [OF refl]) (simp add: config_value_def)

section \<open>Reading a section back\<close>

text \<open>
  A file with one section, as a program would write it. Terms are plain and hold no \<open>=\<close> and do not open
  like a section header; values are not empty, hold no line end, mark or comment sign, end in no blank
  and do not close like a header.
\<close>

definition term_ok :: "string \<Rightarrow> bool" where
  "term_ok k \<longleftrightarrow> plain k \<and> CHR 0x3D \<notin> set k \<and> hd k \<noteq> CHR 0x5B"

definition content_ok :: "string \<Rightarrow> bool" where
  "content_ok v \<longleftrightarrow> v \<noteq> [] \<and> last v \<notin> set blanks \<and>
     (\<forall>c \<in> set v. \<not> is_quote c \<and> c \<noteq> CHR 0x23 \<and> c \<noteq> CHR 0x0A)"

definition section_lines :: "string \<Rightarrow> (string \<times> string) list \<Rightarrow> string list" where
  "section_lines sec kvs = ([CHR 0x5B] @ sec @ [CHR 0x5D]) # map (\<lambda>(k, v). k @ [CHR 0x3D] @ v) kvs"

definition section_text :: "string \<Rightarrow> (string \<times> string) list \<Rightarrow> string" where
  "section_text sec kvs = concat (map (\<lambda>l. l @ [CHR 0x0A]) (section_lines sec kvs))"

text \<open>A line that is read as it was written.\<close>

definition line_ok :: "string \<Rightarrow> bool" where
  "line_ok l \<longleftrightarrow> l \<noteq> [] \<and> last l \<notin> set blanks \<and>
     (\<forall>c \<in> set l. \<not> is_quote c \<and> c \<noteq> CHR 0x23 \<and> c \<noteq> CHR 0x0A)"

lemma read_lines:
  assumes "\<forall>l \<in> set ls. line_ok l"
  shows "filterLines (splitString (concat (map (\<lambda>l. l @ [CHR 0x0A]) ls))) = ls"
proof -
  have "\<forall>l \<in> set ls. CHR 0x0A \<notin> set l" using assms by (auto simp: line_ok_def)
  moreover have "map (erase_trailing blanks) ls = ls"
    using assms by (intro map_idI) (simp add: line_ok_def erase_trailing_last)
  ultimately have "splitString (concat (map (\<lambda>l. l @ [CHR 0x0A]) ls)) = ls"
    by (simp add: splitString_def get_lines_concat)
  moreover have "\<forall>l \<in> set ls. line_ok l \<Longrightarrow> filterLines ls = ls" for ls
    by (induction ls) (auto simp: line_ok_def filter_chars_plain erase_trailing_last)
  ultimately show ?thesis using assms by simp
qed

lemma section_lines_ok:
  assumes "plain sec" "\<forall>(k, v) \<in> set kvs. term_ok k \<and> content_ok v"
  shows "\<forall>l \<in> set (section_lines sec kvs). line_ok l"
proof -
  have "line_ok ([CHR 0x5B] @ sec @ [CHR 0x5D])"
    using assms(1) by (auto simp: line_ok_def plain_def blanks_def is_quote_def)
  moreover have "line_ok (k @ [CHR 0x3D] @ v)" if "term_ok k" "content_ok v" for k v
    using that unfolding line_ok_def term_ok_def content_ok_def plain_def
    by (auto simp: is_quote_def)
  ultimately show ?thesis using assms(2) unfolding section_lines_def by auto
qed

lemma parse_assignment:
  assumes "term_ok k" "content_ok v"
  shows "parse_line (k @ [CHR 0x3D] @ v) (sec, m) =
    Inr (sec, smap_set sec (smap_set k v (fst (smap_at [] sec m))) (snd (smap_at [] sec m)))"
proof -
  have k: "k \<noteq> []" "hd k \<noteq> CHR 0x5B" "CHR 0x3D \<notin> set k" using assms by (auto simp: term_ok_def plain_def)
  have "find_first (\<lambda>c. c = CHR 0x3D) (k @ [CHR 0x3D] @ v) = Some (length k)"
    using k(3) by (induction k) auto
  with k show ?thesis by (simp add: parse_line_def case_prod_unfold Let_def)
qed

lemma parse_section:
  "\<forall>(k, v) \<in> set kvs. term_ok k \<and> content_ok v \<Longrightarrow> smap_get sec m = Some inner \<Longrightarrow>
     \<exists>m'. fold_r parse_line (map (\<lambda>(k, v). k @ [CHR 0x3D] @ v) kvs) (sec, m) = Inr (sec, m') \<and>
       smap_get sec m' = Some (fold (\<lambda>(k, v). smap_set k v) kvs inner)"
proof (induction kvs arbitrary: m inner)
  case (Cons kv kvs)
  obtain k v where kv: "kv = (k, v)" by (cases kv)
  let ?m1 = "smap_set sec (smap_set k v inner) m"
  have at: "smap_at [] sec m = (inner, m)" using Cons.prems(2) by (simp add: smap_at_def)
  have p: "parse_line (k @ [CHR 0x3D] @ v) (sec, m) = Inr (sec, ?m1)"
    using parse_assignment [of k v sec m] Cons.prems(1) at kv by simp
  have "\<forall>(k, v) \<in> set kvs. term_ok k \<and> content_ok v" "smap_get sec ?m1 = Some (smap_set k v inner)"
    using Cons.prems(1) by auto
  from Cons.IH [OF this] obtain m' where
    "fold_r parse_line (map (\<lambda>(k, v). k @ [CHR 0x3D] @ v) kvs) (sec, ?m1) = Inr (sec, m')"
    "smap_get sec m' = Some (fold (\<lambda>(k, v). smap_set k v) kvs (smap_set k v inner))" by blast
  with p show ?case by (simp add: kv)
qed simp

text \<open>C33: a file with one section is read back: each term has the value of its last line, as the code
  that asks for it gets it, and a term that is not in the file has the default.\<close>

theorem config_roundtrip:
  assumes "plain sec" "\<forall>(k, v) \<in> set kvs. term_ok k \<and> content_ok v" "kvs \<noteq> []"
  shows "\<exists>m. loadFromString (section_text sec kvs) = Inr m \<and>
    (\<forall>k d. config_value sec k d True m = (case map_of (rev kvs) k of Some v \<Rightarrow> v | None \<Rightarrow> d))"
proof -
  obtain k v kvs' where kvs: "kvs = (k, v) # kvs'" using assms(3) by (cases kvs) auto
  have sec: "sec \<noteq> []" using assms(1) by (simp add: plain_def)
  have head: "parse_line ([CHR 0x5B] @ sec @ [CHR 0x5D]) (''global'', []) = Inr (sec, [])"
    by (simp add: parse_line_def)
  let ?m0 = "[(sec, [(k, v)])]"
  have "parse_line (k @ [CHR 0x3D] @ v) (sec, []) = Inr (sec, ?m0)"
    using parse_assignment [of k v sec "[]"] assms(2) kvs by (simp add: smap_at_def)
  moreover from parse_section [of kvs' sec ?m0 "[(k, v)]"] assms(2) kvs obtain m where
      m: "fold_r parse_line (map (\<lambda>(k, v). k @ [CHR 0x3D] @ v) kvs') (sec, ?m0) = Inr (sec, m)"
      "smap_get sec m = Some (fold (\<lambda>(k, v). smap_set k v) kvs' [(k, v)])" by auto
  ultimately have load: "loadFromString (section_text sec kvs) = Inr m"
    using head read_lines [OF section_lines_ok [OF assms(1,2)]]
    by (simp add: loadFromString_def section_text_def parseLines_def section_lines_def kvs)
  have get: "smap_get k' (fold (\<lambda>(k, v). smap_set k v) kvs' [(k, v)]) = map_of (rev kvs) k'" for k'
    using smap.get_fold_upd [of k' kvs' "[(k, v)]"] by (auto simp: kvs map_add_def split: option.splits)
  have "cut_quotes w = w" if "map_of (rev kvs) k' = Some w" for k' w
  proof -
    from map_of_SomeD [OF that] have "content_ok w" using assms(2) by auto
    then have "w \<noteq> []" "\<not> is_quote (hd w)" by (auto simp: content_ok_def)
    then show ?thesis by (simp add: cut_quotes_def is_quote_def)
  qed
  with load m(2) get show ?thesis
    by (auto simp: config_value_def split: option.splits)
qed

theorem config_roundtrip_witness:
  "\<exists>m. loadFromString (section_text ''network'' [(''max-mac-age'', ''60''), (''list-mode'', ''blacklist'')]) = Inr m \<and>
     config_value ''network'' ''list-mode'' ''whitelist'' True m = ''blacklist'' \<and>
     config_value ''network'' ''update-interval'' [] True m = []"
proof -
  let ?kvs = "[(''max-mac-age'', ''60''), (''list-mode'', ''blacklist'')]"
  have 1: "plain ''network''" by (simp add: plain_def blanks_def is_quote_def)
  have 2: "\<forall>(k, v) \<in> set ?kvs. term_ok k \<and> content_ok v"
    by (simp add: term_ok_def content_ok_def plain_def blanks_def is_quote_def)
  from config_roundtrip [OF 1 2] obtain m where "loadFromString (section_text ''network'' ?kvs) = Inr m"
      "\<forall>k d. config_value ''network'' k d True m = (case map_of (rev ?kvs) k of Some v \<Rightarrow> v | None \<Rightarrow> d)"
    by blast
  then show ?thesis by (intro exI [of _ m]) simp
qed

end
