(* ===== verification/Daemon.thy ===== *)
theory Daemon
  imports Network_Cycle Server Discovery Config
begin

text \<open>
  \<open>macdetectd/src/Daemon.cpp\<close>: the daemon joins the network, the server and the discovery service. Each
  cycle it runs the network and the server, answers the queued requests, tells the clients about the
  events of the network and sends keepalive packets. A stream is a client's wish to hear about the
  addresses on a device.
\<close>

type_synonym stream = "served_ptr \<times> string"

record daemon =
  dm_server :: server
  dm_network :: network
  dm_discovery :: discovery
  dm_streams :: "stream list"
  dm_lastKeepAlive :: time
  dm_keepAliveInterval :: time

record daemon_env =
  de_net :: net_env
  de_sock :: sock_env
  de_multicast :: "nat \<Rightarrow> recv_res"
  de_stale :: bool

definition new_daemon :: "string \<Rightarrow> network \<Rightarrow> int \<Rightarrow> daemon" where
  "new_daemon strIdentifier nw fd =
     \<lparr>dm_server = new_server,
      dm_network = setDeviceWhiteBlacklistMode Whitelist (setAutoManageDevices True nw),
      dm_discovery = new_discovery fd strIdentifier, dm_streams = [],
      dm_lastKeepAlive = 0, dm_keepAliveInterval = 1\<rparr>"

definition post_to :: "served_ptr \<Rightarrow> val \<Rightarrow> daemon \<Rightarrow> daemon" where
  "post_to p v dm = dm\<lparr>dm_server := post p v (dm_server dm)\<rparr>"

definition daemon_shutdown :: "daemon \<Rightarrow> daemon" where
  "daemon_shutdown dm =
     dm\<lparr>dm_server := server_shutdown (dm_server dm), dm_network := shutdown (dm_network dm)\<rparr>"

definition daemon_serve :: "int \<Rightarrow> bool \<Rightarrow> string \<Rightarrow> u16 \<Rightarrow> daemon \<Rightarrow> (bool \<times> daemon) result" where
  "daemon_serve fd bound d port dm =
     bind_r (serve fd bound d port (dm_server dm)) (\<lambda>(b, sv). Inr (b, dm\<lparr>dm_server := sv\<rparr>))"

section \<open>Configuration\<close>

text \<open>
  \<open>parseConfigFile\<close>. \<open>bind_of\<close> is what the operating system answers for the socket of a device and port:
  its descriptor and whether it could be bound. The colon that separates device and port may be
  missing; then \<open>npos + 1\<close> makes the whole entry the port. A port that is no number leaves \<open>nPort\<close>
  uninitialised, one too large for \<open>int\<close> overflows; \<open>unsigned short\<close> takes the lower 16 bits.
\<close>

definition serve_entry ::
  "(string \<Rightarrow> u16 \<Rightarrow> int \<times> bool) \<Rightarrow> string \<Rightarrow> daemon \<Rightarrow> daemon result" where
  "serve_entry bind_of strServe dm =
     (let (strDevice, strPort) =
        (case find_first (\<lambda>c. c = CHR 0x3A) strServe of
           None \<Rightarrow> (strServe, strServe)
         | Some i \<Rightarrow> (take i strServe, drop (i + 1) strServe))
      in case scan_int strPort of
           None \<Rightarrow> Inl Uninitialised
         | Some nPort \<Rightarrow>
             if nPort > int int_max \<or> nPort < - int int_max - 1 then Inl IntOverflow
             else
               let (fd, bound) = bind_of strDevice (of_int nPort) in
               bind_r (daemon_serve fd bound strDevice (of_int nPort) dm) (\<lambda>(b, dm). Inr dm))"

definition configure :: "net_env \<Rightarrow> (string \<Rightarrow> u16 \<Rightarrow> int \<times> bool) \<Rightarrow> sections \<Rightarrow> daemon \<Rightarrow> daemon result" where
  "configure env bind_of cfg dm =
     (let strListMode = config_value ''network'' ''list-mode'' ''whitelist'' True cfg;
          nw = dm_network dm;
          nw = (if strListMode = ''whitelist'' then setDeviceWhiteBlacklistMode Whitelist nw
                else if strListMode = ''blacklist'' then setDeviceWhiteBlacklistMode Blacklist nw
                else nw)
      in
        bind_r (config_list ''network'' ''allowed-devices'' cfg) (\<lambda>lstListEntries.
        bind_r (fold_r (addDeviceWhiteBlacklistEntry env) lstListEntries nw) (\<lambda>nw.
          let dInterval = doubleValue ''server'' ''keepalive-interval'' 1 cfg;
              nw = setMaxMACAge (doubleValue ''network'' ''max-mac-age'' 300 cfg) nw;
              nw = setUpdateInterval (doubleValue ''network'' ''update-interval'' 10 cfg) nw;
              nw = setPingBroadcastInterval (doubleValue ''network'' ''ping-broadcast-interval'' 10 cfg) nw;
              dm = dm\<lparr>dm_network := nw, dm_keepAliveInterval := dInterval\<rparr>
          in
            bind_r (config_list ''server'' ''serve'' cfg) (\<lambda>lstServes.
            bind_r (fold_r (serve_entry bind_of) lstServes dm) (\<lambda>dm.
              let strServerName = config_value ''server'' ''name'' ''New Server'' True cfg in
              Inr (dm\<lparr>dm_discovery := setIdentifier strServerName (dm_discovery dm)\<rparr>))))))"

definition parseConfigFile ::
  "net_env \<Rightarrow> (string \<Rightarrow> u16 \<Rightarrow> int \<times> bool) \<Rightarrow> (string \<Rightarrow> string option) \<Rightarrow> string \<Rightarrow> daemon \<Rightarrow>
     (bool \<times> daemon) result" where
  "parseConfigFile env bind_of files strFilepath dm =
     bind_r (loadFromFile files strFilepath []) (\<lambda>(ok, cfg).
       if ok then bind_r (configure env bind_of cfg dm) (\<lambda>dm. Inr (True, dm)) else Inr (False, dm))"

section \<open>Streams\<close>

definition streamEnabled :: "served_ptr \<Rightarrow> string \<Rightarrow> daemon \<Rightarrow> bool" where
  "streamEnabled p d dm \<longleftrightarrow> (p, d) \<in> set (dm_streams dm)"

text \<open>\<open>enableStream\<close> has a result type but no \<open>return\<close>; no caller uses the result.\<close>

definition enableStream :: "served_ptr \<Rightarrow> string \<Rightarrow> daemon \<Rightarrow> daemon" where
  "enableStream p d dm =
     (if \<not> streamEnabled p d dm then dm\<lparr>dm_streams := dm_streams dm @ [(p, d)]\<rparr> else dm)"

definition disableStream :: "served_ptr \<Rightarrow> string \<Rightarrow> daemon \<Rightarrow> bool \<times> daemon" where
  "disableStream p d dm =
     (case erase_first (\<lambda>s. fst s = p \<and> snd s = d) (dm_streams dm) of
        None \<Rightarrow> (False, dm)
      | Some (s, ss) \<Rightarrow> (True, dm\<lparr>dm_streams := ss\<rparr>))"

text \<open>The streams of one removed client.\<close>

definition drop_streams :: "served_ptr \<Rightarrow> daemon \<Rightarrow> daemon" where
  "drop_streams p dm =
     dm\<lparr>dm_streams := fst (erase_loop (\<lambda>s. fst s = p) (\<lambda>s u. u) (dm_streams dm) ())\<rparr>"

section \<open>Requests\<close>

text \<open>\<open>response\<close>: the outer packet of an answer; there is none for a packet that is no request.\<close>

definition response :: "val \<Rightarrow> (string \<times> string) list \<Rightarrow> val option" where
  "response v lstSubValues =
     (if key v = ''request'' then Some (make_value ''response'' (content v) lstSubValues) else None)"

fun hardware_text :: "HardwareType \<Rightarrow> string" where
  "hardware_text Loopback = ''loopback''"
| "hardware_text Wired = ''wired''"
| "hardware_text Wireless = ''wireless''"

definition device_value :: "string \<Rightarrow> device \<Rightarrow> val" where
  "device_value strMAC dv =
     add_kv ''hardware-type'' (hardware_text (m_hwtType dv))
       (add_kv ''broadcast-ip'' (m_strBroadcastIP dv)
         (add_kv ''ip'' (m_strIP dv)
           (add_kv ''mac'' strMAC (Value (m_strDeviceName dv) [] []))))"

definition answer_devices :: "net_env \<Rightarrow> network \<Rightarrow> val \<times> network" where
  "answer_devices env nw =
     (let asked = map (mac_of env) (m_lstDevices nw) in
      (Value ''devices-list'' [] (map (\<lambda>(m, dv). device_value m dv) asked),
       nw\<lparr>m_lstDevices := map snd asked\<rparr>))"

definition mac_value :: "network \<Rightarrow> macentity \<Rightarrow> val result" where
  "mac_value nw e =
     bind_r (network_vendorForMAC (me_strMAC e) nw) (\<lambda>vendor.
       Inr (Value (me_strMAC e) []
         [Value ''device-name'' (me_strDeviceName e) [],
          Value ''last-seen'' (show_double (me_dLastSeen e)) [],
          Value ''first-seen'' (show_double (me_dFirstSeen e)) [],
          Value ''vendor'' vendor []]))"

definition answer_macs :: "network \<Rightarrow> val result" where
  "answer_macs nw =
     fold_r (\<lambda>e v. bind_r (mac_value nw e) (\<lambda>w. Inr (add_sub w v))) (m_lstMACSeen nw)
       (Value ''known-mac-addresses'' [] [])"

definition answer_evidence :: "val \<Rightarrow> network \<Rightarrow> val \<times> network" where
  "answer_evidence v nw =
     (case sub_value ''mac-address'' v of
        None \<Rightarrow> (Value [] [] [], nw)
      | Some valMAC \<Rightarrow>
          let (ev, nw) = macEvidence (content valMAC) nw;
              ev = smap_set ''mac-address'' (content valMAC) ev
          in (Value ''mac-evidence'' [] (map (\<lambda>(k, c). Value k c []) ev), nw))"

text \<open>Both stream requests look for a stream of the device on which the client is connected, \<open>here\<close>.\<close>

definition answer_enable :: "served_ptr \<Rightarrow> string \<Rightarrow> val \<Rightarrow> daemon \<Rightarrow> val \<times> daemon" where
  "answer_enable p here v dm =
     (case sub_value ''device-name'' v of
        None \<Rightarrow> (Value ''result'' ''device-name-missing'' [], dm)
      | Some d \<Rightarrow>
          if streamEnabled p here dm
          then (Value ''result'' ''already-enabled'' [Value ''device-name'' (content d) []], dm)
          else (Value ''result'' ''success'' [Value ''device-name'' (content d) []],
                enableStream p (content d) dm))"

definition answer_disable :: "served_ptr \<Rightarrow> string \<Rightarrow> val \<Rightarrow> daemon \<Rightarrow> val \<times> daemon" where
  "answer_disable p here v dm =
     (case sub_value ''device-name'' v of
        None \<Rightarrow> (Value ''result'' ''device-name-missing'' [], dm)
      | Some d \<Rightarrow>
          if streamEnabled p here dm
          then (Value ''result'' ''success'' [Value ''device-name'' (content d) []],
                snd (disableStream p here dm))
          else (Value ''result'' ''already-disabled'' [Value ''device-name'' (content d) []], dm))"

definition answer :: "net_env \<Rightarrow> served_ptr \<Rightarrow> string \<Rightarrow> val \<Rightarrow> daemon \<Rightarrow> (val \<times> daemon) result" where
  "answer env p here v dm =
     (if key v = ''request'' then
        if content v = ''devices-list'' then
          let (w, nw) = answer_devices env (dm_network dm) in Inr (w, dm\<lparr>dm_network := nw\<rparr>)
        else if content v = ''known-mac-addresses'' then
          bind_r (answer_macs (dm_network dm)) (\<lambda>w. Inr (w, dm))
        else if content v = ''mac-evidence'' then
          let (w, nw) = answer_evidence v (dm_network dm) in Inr (w, dm\<lparr>dm_network := nw\<rparr>)
        else if content v = ''enable-stream'' then Inr (answer_enable p here v dm)
        else if content v = ''disable-stream'' then Inr (answer_disable p here v dm)
        else Inr (Value [] [] [], dm)
      else Inr (Value [] [] [], dm))"

definition handle_request :: "net_env \<Rightarrow> queued \<Rightarrow> daemon \<Rightarrow> daemon result" where
  "handle_request env q dm =
     bind_r (answer env (qv_served q) (strDeviceName (servingByID (qv_servingID q) (dm_server dm)))
               (qv_value q) dm) (\<lambda>(w, dm).
       case response (qv_value q) [] of
         None \<Rightarrow> Inl NullDeref
       | Some outer \<Rightarrow> Inr (post_to (qv_served q) (add_sub w outer) dm))"

section \<open>Events\<close>

definition stream_disabled :: "string \<Rightarrow> val" where
  "stream_disabled d = add_sub (Value ''device-name'' d []) (Value ''info'' ''stream-disabled'' [])"

text \<open>A removed device: its streams end, each with a packet to its client.\<close>

definition end_streams :: "string \<Rightarrow> daemon \<Rightarrow> daemon" where
  "end_streams d dm =
     (let (ss, sv) = erase_loop (\<lambda>s. snd s = d) (\<lambda>s. post (fst s) (stream_disabled d))
            (dm_streams dm) (dm_server dm)
      in dm\<lparr>dm_streams := ss, dm_server := sv\<rparr>)"

definition bool_text :: "bool \<Rightarrow> string" where
  "bool_text b = (if b then ''true'' else ''false'')"

text \<open>The packet for an event, and the device whose streams it belongs to (empty: all clients get it).\<close>

definition event_packet :: "net_env \<Rightarrow> event \<Rightarrow> network \<Rightarrow> (val \<times> string) result" where
  "event_packet env ev nw =
     (let e = event_base ev; d = ev_deviceName e;
          mac = (\<lambda>f. case as_mac_event ev of None \<Rightarrow> Inl NullDeref | Some (_, m) \<Rightarrow> f m)
      in case ev_type e of
        DeviceAdded \<Rightarrow>
          bind_r (deviceHardwareType env d nw) (\<lambda>hw.
            Inr (Value ''info'' ''device-added''
                   [Value ''device-name'' d [], Value ''hardware-type'' (hardware_text hw) []], []))
      | DeviceRemoved \<Rightarrow> Inr (Value ''info'' ''device-removed'' [Value ''device-name'' d []], [])
      | DeviceStateChanged \<Rightarrow>
          if ev_stateChangeUp e then
            (case ev_up e of
               None \<Rightarrow> Inl Uninitialised
             | Some b \<Rightarrow> Inr (Value ''info'' ''device-state-changed''
                 [Value ''changed-state'' ''up'' [], Value ''state'' (bool_text b) []], []))
          else if ev_stateChangeRunning e then
            (case ev_running e of
               None \<Rightarrow> Inl Uninitialised
             | Some b \<Rightarrow> Inr (Value ''info'' ''device-state-changed''
                 [Value ''changed-state'' ''running'' [], Value ''state'' (bool_text b) []], []))
          else Inr (Value ''info'' ''device-state-changed'' [], [])
      | DeviceEvidenceChanged \<Rightarrow>
          Inr (Value ''info'' ''device-evidence-changed''
            [Value ''field'' (ev_evidenceField e) [], Value ''value'' (ev_evidenceValue e) [],
             Value ''value-former'' (ev_evidenceValueFormer e) []], [])
      | MACAddressDiscovered \<Rightarrow>
          mac (\<lambda>m. bind_r (network_vendorForMAC m nw) (\<lambda>vendor.
            Inr (Value ''info'' ''mac-address-discovered''
              [Value ''mac'' m [], Value ''vendor'' vendor [], Value ''device-name'' d []], d)))
      | MACAddressDisappeared \<Rightarrow>
          mac (\<lambda>m. Inr (Value ''info'' ''mac-address-disappeared''
              [Value ''mac'' m [], Value ''device-name'' d []], d))
      | MACEvidenceChanged \<Rightarrow>
          mac (\<lambda>m. Inr (Value ''info'' ''mac-evidence-changed''
              [Value ''mac-address'' m [], Value ''field'' (ev_evidenceField e) [],
               Value ''value'' (ev_evidenceValue e) [],
               Value ''value-former'' (ev_evidenceValueFormer e) []], d)))"

definition tell :: "string \<Rightarrow> val \<Rightarrow> daemon \<Rightarrow> daemon" where
  "tell d v dm =
     fold (\<lambda>(p, i) dm. if d = [] \<or> streamEnabled p d dm then post_to p v dm else dm)
       (sv_served (dm_server dm)) dm"

definition handle_event :: "net_env \<Rightarrow> event \<Rightarrow> daemon \<Rightarrow> daemon result" where
  "handle_event env ev dm =
     (let dm = (if event_type ev = DeviceRemoved then end_streams (event_deviceName ev) dm else dm) in
      bind_r (event_packet env ev (dm_network dm)) (\<lambda>(v, d). Inr (tell d v dm)))"

section \<open>The cycle\<close>

definition keepalive :: "net_env \<Rightarrow> daemon \<Rightarrow> daemon" where
  "keepalive env dm =
     (let (dTime, nw) = read_time env (dm_network dm); dm = dm\<lparr>dm_network := nw\<rparr> in
      if dTime > dm_lastKeepAlive dm + dm_keepAliveInterval dm then
        dm\<lparr>dm_lastKeepAlive := dTime,
           dm_server := distributeStreamValue (Value ''info'' ''keepalive'' []) (dm_server dm)\<rparr>
      else dm)"

definition handle_removed :: "daemon \<Rightarrow> daemon" where
  "handle_removed dm =
     (let (ps, sv) = removed (dm_server dm) in fold drop_streams ps (dm\<lparr>dm_server := sv\<rparr>))"

definition handle_queue :: "net_env \<Rightarrow> daemon \<Rightarrow> daemon result" where
  "handle_queue env dm =
     (let (qs, sv) = queuedValues (dm_server dm) in
      fold_r (handle_request env) qs (dm\<lparr>dm_server := sv\<rparr>))"

definition handle_discovery :: "daemon_env \<Rightarrow> daemon \<Rightarrow> daemon result" where
  "handle_discovery env dm =
     bind_r (discovery_cycle (de_stale env) (de_multicast env) (junk_of (de_sock env)) (dm_discovery dm))
       (\<lambda>(b, ds). Inr (dm\<lparr>dm_discovery := ds\<rparr>))"

definition daemon_cycle :: "daemon_env \<Rightarrow> daemon \<Rightarrow> (bool \<times> daemon) result" where
  "daemon_cycle env dm =
     bind_r (cycle (de_net env) (dm_network dm)) (\<lambda>(run, nw).
       let dm = dm\<lparr>dm_network := nw\<rparr> in
       if \<not> run then Inr (False, dm)
       else
         bind_r (server_cycle (de_sock env) (dm_server dm)) (\<lambda>(run, sv).
           let dm = dm\<lparr>dm_server := sv\<rparr> in
           if \<not> run then Inr (False, dm)
           else
             bind_r (handle_queue (de_net env) (handle_removed dm)) (\<lambda>dm.
             bind_r (fold_r (handle_event (de_net env)) (m_lstEvents (dm_network dm)) dm) (\<lambda>dm.
             bind_r (handle_discovery env dm) (\<lambda>dm.
               Inr (True, keepalive (de_net env) dm))))))"

end
