(* ===== verification/Daemon_Props.thy ===== *)
theory Daemon_Props
  imports Daemon Network_Props Server_Props
begin

text \<open>
  What \<open>Daemon.cpp\<close> guarantees: an answer for each request, packets for each event to the clients that
  asked for them, streams that belong to connected clients, and a client that can follow the devices.
\<close>

section \<open>Answers\<close>

lemma response_eq: "response v [] = (if key v = ''request'' then Some (Value ''response'' (content v) []) else None)"
  by (simp add: response_def make_value_eq)

lemma post_simps [simp]:
  "dm_server (post_to p v dm) = post p v (dm_server dm)"
  "dm_network (post_to p v dm) = dm_network dm" "dm_streams (post_to p v dm) = dm_streams dm"
  "dm_discovery (post_to p v dm) = dm_discovery dm"
  "sv_out (post p v sv) = sv_out sv @ [(p, v)]" "sv_served (post p v sv) = sv_served sv"
  "sv_queue (post p v sv) = sv_queue sv" "sv_removed (post p v sv) = sv_removed sv"
  "sv_servings (post p v sv) = sv_servings sv" "server_inv (post p v sv) = server_inv sv"
  by (simp_all add: post_to_def post_def server_inv_def)

text \<open>What answering a request may change of the network: nothing a client can see.\<close>

definition net_same :: "network \<Rightarrow> network \<Rightarrow> bool" where
  "net_same nw nw' \<longleftrightarrow> view_of nw' = view_of nw \<and> m_lstEvents nw' = m_lstEvents nw \<and>
     config nw' = config nw \<and> (net_inv nw \<longrightarrow> net_inv nw')"

lemma net_same_refl [simp]: "net_same nw nw"
  by (simp add: net_same_def)

lemma net_same_trans: "net_same a b \<Longrightarrow> net_same b c \<Longrightarrow> net_same a c"
  by (simp add: net_same_def)

lemma answer_devices_same:
  assumes "env_ok env" "answer_devices env nw = (w, nw')"
  shows "net_same nw nw'"
proof -
  let ?dvs = "map (\<lambda>dv. snd (mac_of env dv)) (m_lstDevices nw)"
  have nw': "nw' = nw\<lparr>m_lstDevices := ?dvs\<rparr>" using assms(2) by (simp add: answer_devices_def o_def)
  have "map m_strDeviceName ?dvs = device_names nw" by (simp add: device_names_def o_def)
  moreover have "(\<forall>dv \<in> set (m_lstDevices nw). device_ok dv) \<Longrightarrow> (\<forall>dv \<in> set ?dvs. device_ok dv)"
    using mac_of_ok [OF assms(1)] by auto
  ultimately have e: "evolves nw nw'" unfolding nw' by (rule evolves_devices)
  have "view_of nw' = view_of nw" by (auto simp: nw' view_of_def image_image)
  with e show ?thesis by (auto simp: net_same_def evolves_def nw')
qed

lemma answer_evidence_same:
  assumes "answer_evidence v nw = (w, nw')"
  shows "net_same nw nw'"
proof (cases "sub_value ''mac-address'' v")
  case (Some s)
  obtain inner outer where o: "smap_at [] (content s) (m_mapMACEvidence nw) = (inner, outer)"
    by (cases "smap_at [] (content s) (m_mapMACEvidence nw)")
  have nw': "nw' = nw\<lparr>m_mapMACEvidence := outer\<rparr>"
    using assms Some o by (simp add: answer_evidence_def macEvidence_def)
  have "evolves nw nw'" unfolding nw' by (rule evolves_quiet) (simp_all add: evidence_ok_at(2) [OF _ o])
  then show ?thesis by (auto simp: net_same_def evolves_def nw' view_of_def)
next
  case None
  with assms show ?thesis by (simp add: answer_evidence_def)
qed

lemma answer_laws:
  assumes "env_ok env" "answer env p here v dm = Inr (w, dm')"
  shows "dm_server dm' = dm_server dm" "net_same (dm_network dm) (dm_network dm')"
    "set (dm_streams dm') \<subseteq> set (dm_streams dm) \<union> {p} \<times> UNIV"
    "distinct (dm_streams dm) \<Longrightarrow> distinct (dm_streams dm')"
    "dm_discovery dm' = dm_discovery dm" "dm_keepAliveInterval dm' = dm_keepAliveInterval dm"
    "dm_lastKeepAlive dm' = dm_lastKeepAlive dm"
proof -
  have en: "answer_enable p here v dm = (w, dm1) \<Longrightarrow> dm1 = dm\<lparr>dm_streams := dm_streams dm1\<rparr> \<and>
      set (dm_streams dm1) \<subseteq> set (dm_streams dm) \<union> {p} \<times> UNIV \<and>
      (distinct (dm_streams dm) \<longrightarrow> distinct (dm_streams dm1))" for dm1
    by (auto simp: answer_enable_def enableStream_def streamEnabled_def split: option.splits if_splits)
  have di: "answer_disable p here v dm = (w, dm1) \<Longrightarrow> dm1 = dm\<lparr>dm_streams := dm_streams dm1\<rparr> \<and>
      set (dm_streams dm1) \<subseteq> set (dm_streams dm) \<union> {p} \<times> UNIV \<and>
      (distinct (dm_streams dm) \<longrightarrow> distinct (dm_streams dm1))" for dm1
    by (auto simp: answer_disable_def disableStream_def split: option.splits if_splits
        dest!: erase_first_SomeD)
  consider (streams) "dm' = dm\<lparr>dm_streams := dm_streams dm'\<rparr>"
      "set (dm_streams dm') \<subseteq> set (dm_streams dm) \<union> {p} \<times> UNIV"
      "distinct (dm_streams dm) \<longrightarrow> distinct (dm_streams dm')"
    | (net) nw where "dm' = dm\<lparr>dm_network := nw\<rparr>" "net_same (dm_network dm) nw"
    | (same) "dm' = dm"
  proof -
    show thesis
      using assms(2) en [of dm'] di [of dm'] answer_devices_same [OF assms(1), of "dm_network dm"]
        answer_evidence_same [of v "dm_network dm"] that
      by (auto simp: answer_def Let_def bind_r_Inr_iff split: if_splits prod.splits)
  qed
  note cases = this
  show "dm_server dm' = dm_server dm" "dm_discovery dm' = dm_discovery dm"
    "dm_keepAliveInterval dm' = dm_keepAliveInterval dm" "dm_lastKeepAlive dm' = dm_lastKeepAlive dm"
    by (cases rule: cases, metis daemon.select_convs daemon.surjective daemon.update_convs, simp, simp)+
  show "net_same (dm_network dm) (dm_network dm')"
    by (cases rule: cases, metis net_same_refl daemon.select_convs daemon.surjective daemon.update_convs, simp, simp)
  show "set (dm_streams dm') \<subseteq> set (dm_streams dm) \<union> {p} \<times> UNIV"
    by (cases rule: cases) auto
  show "distinct (dm_streams dm) \<Longrightarrow> distinct (dm_streams dm')"
    by (cases rule: cases) auto
qed

text \<open>The state of the daemon between two of its steps.\<close>

definition daemon_inv :: "daemon \<Rightarrow> bool" where
  "daemon_inv dm \<longleftrightarrow>
     net_inv (dm_network dm) \<and> server_inv (dm_server dm) \<and>
     distinct (dm_streams dm) \<and> fst ` set (dm_streams dm) \<subseteq> fst ` set (sv_served (dm_server dm))"

text \<open>
  What answering requests keeps: the lists of the server, the network as clients see it, and the
  invariant.
\<close>

definition answers_ok :: "daemon \<Rightarrow> daemon \<Rightarrow> bool" where
  "answers_ok dm dm' \<longleftrightarrow>
     sv_served (dm_server dm') = sv_served (dm_server dm) \<and>
     sv_queue (dm_server dm') = sv_queue (dm_server dm) \<and>
     sv_removed (dm_server dm') = sv_removed (dm_server dm) \<and>
     sv_servings (dm_server dm') = sv_servings (dm_server dm) \<and>
     net_same (dm_network dm) (dm_network dm') \<and> (daemon_inv dm \<longrightarrow> daemon_inv dm')"

lemma answers_ok_refl [simp]: "answers_ok dm dm"
  by (simp add: answers_ok_def)

lemma answers_ok_trans: "answers_ok a b \<Longrightarrow> answers_ok b c \<Longrightarrow> answers_ok a c"
  by (auto simp: answers_ok_def intro: net_same_trans)

lemma handle_request_Inr:
  assumes "handle_request env q dm = Inr dm'"
  shows "\<exists>w dm1. answer env (qv_served q) (strDeviceName (servingByID (qv_servingID q) (dm_server dm)))
      (qv_value q) dm = Inr (w, dm1) \<and> key (qv_value q) = ''request'' \<and>
    dm' = post_to (qv_served q) (Value ''response'' (content (qv_value q)) [w]) dm1"
  using assms
  by (auto simp: handle_request_def bind_r_Inr_iff response_eq add_sub_def split: if_splits)

lemma handle_request_ok:
  assumes env: "env_ok env" and q: "qv_served q \<in> fst ` set (sv_served (dm_server dm))"
    and h: "handle_request env q dm = Inr dm'"
  shows "answers_ok dm dm'"
proof -
  from handle_request_Inr [OF h] obtain w dm1 where
      a: "answer env (qv_served q) (strDeviceName (servingByID (qv_servingID q) (dm_server dm)))
            (qv_value q) dm = Inr (w, dm1)"
      and dm': "dm' = post_to (qv_served q) (Value ''response'' (content (qv_value q)) [w]) dm1" by blast
  note l = answer_laws [OF env a]
  have st: "fst ` set (dm_streams dm1) \<subseteq> insert (qv_served q) (fst ` set (dm_streams dm))"
    using image_mono [OF l(3), of fst] by auto
  have sub: "fst ` set (dm_streams dm1) \<subseteq> fst ` set (sv_served (dm_server dm))" if "daemon_inv dm"
    using that q by (intro subset_trans [OF st]) (simp add: daemon_inv_def)
  have "daemon_inv dm'" if inv: "daemon_inv dm"
  proof -
    have "net_inv (dm_network dm1)" using l(2) inv by (simp add: net_same_def daemon_inv_def)
    moreover have "server_inv (dm_server dm1)" using l(1) inv by (simp add: daemon_inv_def)
    moreover have "distinct (dm_streams dm1)" using l(4) inv by (simp add: daemon_inv_def)
    moreover have "fst ` set (dm_streams dm1) \<subseteq> fst ` set (sv_served (dm_server dm1))"
      unfolding l(1) by (rule sub [OF inv])
    ultimately show ?thesis by (simp add: daemon_inv_def dm')
  qed
  with l(1,2) show ?thesis by (simp add: answers_ok_def dm')
qed

text \<open>The loop over the queue, as an instance of the loop contract.\<close>

interpretation answering: preserving_r
    "\<lambda>q. env_ok env \<and> qv_served q \<in> fst ` set (sv_served (dm_server dm0))"
    "answers_ok dm0" "handle_request env"
  for env dm0
proof unfold_locales
  fix q dm dm'
  assume "env_ok env \<and> qv_served q \<in> fst ` set (sv_served (dm_server dm0))" "answers_ok dm0 dm"
    "handle_request env q dm = Inr dm'"
  then have "answers_ok dm dm'" by (intro handle_request_ok) (auto simp: answers_ok_def)
  with \<open>answers_ok dm0 dm\<close> show "answers_ok dm0 dm'" by (rule answers_ok_trans)
qed

text \<open>One response for each request.\<close>

definition answers :: "queued list \<Rightarrow> (served_ptr \<times> val) list \<Rightarrow> bool" where
  "answers qs outs \<longleftrightarrow> list_all2 (\<lambda>q (p, v). p = qv_served q \<and> key v = ''response'' \<and>
     content v = content (qv_value q) \<and> length (subValues v) = 1) qs outs"

lemma fold_requests_answers:
  assumes "env_ok env" "fold_r (handle_request env) qs dm = Inr dm'"
  shows "\<exists>outs. sv_out (dm_server dm') = sv_out (dm_server dm) @ outs \<and> answers qs outs"
  using assms(2)
proof (induction qs arbitrary: dm)
  case (Cons q qs)
  then obtain dm1 where 1: "handle_request env q dm = Inr dm1" "fold_r (handle_request env) qs dm1 = Inr dm'"
    by (auto simp: bind_r_Inr_iff)
  from handle_request_Inr [OF 1(1)] obtain w dm2 where
      a: "answer env (qv_served q) (strDeviceName (servingByID (qv_servingID q) (dm_server dm)))
            (qv_value q) dm = Inr (w, dm2)"
      "dm1 = post_to (qv_served q) (Value ''response'' (content (qv_value q)) [w]) dm2" by blast
  from Cons.IH [OF 1(2)] obtain outs where
    "sv_out (dm_server dm') = sv_out (dm_server dm1) @ outs" "answers qs outs" by blast
  with a answer_laws(1) [OF assms(1) a(1)] show ?case
    by (intro exI [of _ "(qv_served q, Value ''response'' (content (qv_value q)) [w]) # outs"])
       (simp add: answers_def)
qed (simp add: answers_def)

text \<open>C7: every request that was queued is answered exactly once, in the order of arrival, to the client
  that sent it, with a response packet that repeats the subject of the request; the queue is empty
  afterwards.\<close>

theorem requests_answered:
  assumes "env_ok env" "handle_queue env dm = Inr dm'"
    "\<forall>q \<in> set (sv_queue (dm_server dm)). qv_served q \<in> fst ` set (sv_served (dm_server dm))"
  shows "(\<exists>outs. sv_out (dm_server dm') = sv_out (dm_server dm) @ outs \<and>
      list_all2 (\<lambda>q (p, v). p = qv_served q \<and> key v = ''response'' \<and>
        content v = content (qv_value q) \<and> length (subValues v) = 1) (sv_queue (dm_server dm)) outs) \<and>
    sv_queue (dm_server dm') = []"
proof -
  let ?dm0 = "dm\<lparr>dm_server := (dm_server dm)\<lparr>sv_queue := []\<rparr>\<rparr>"
  from assms(2) have f: "fold_r (handle_request env) (sv_queue (dm_server dm)) ?dm0 = Inr dm'"
    by (simp add: handle_queue_def queuedValues_def)
  have "answers_ok ?dm0 dm'"
    using assms(1,3) by (intro answering.fold_r_inv [OF answers_ok_refl _ f]) auto
  then have "sv_queue (dm_server dm') = []" by (simp add: answers_ok_def)
  with fold_requests_answers [OF assms(1) f] show ?thesis by (simp add: answers_def)
qed

text \<open>C29: a queued packet whose key is not \<open>request\<close>, which any client can send, makes the daemon use a
  null pointer.\<close>

theorem non_request_crashes:
  assumes "key (qv_value q) \<noteq> ''request''"
  shows "handle_request env q dm = Inl NullDeref"
  using assms by (simp add: handle_request_def answer_def response_eq)

definition sample_daemon :: daemon where
  "sample_daemon = \<lparr>dm_server = sample_server\<lparr>sv_queue :=
       [\<lparr>qv_value = sample_request, qv_served = 0, qv_servingID = 0\<rparr>]\<rparr>,
     dm_network = sample_net, dm_discovery = new_discovery 12 ''attic'',
     dm_streams = [(0, ''eth0''), (1, ''eth1'')], dm_lastKeepAlive = 0, dm_keepAliveInterval = 1\<rparr>"

theorem non_request_crashes_witness:
  "handle_request sample_env \<lparr>qv_value = Value ''hello'' [] [], qv_served = 0, qv_servingID = 0\<rparr> sample_daemon =
     Inl NullDeref"
  by (rule non_request_crashes) simp

text \<open>Requests are answered without a fault: the addresses of the network are long enough to be looked up.\<close>

lemma vendor_total: "length m = 17 \<Longrightarrow> \<exists>s. network_vendorForMAC m nw = Inr s"
  by (simp add: network_vendorForMAC_def vendorForMAC_def oui_key_eq)

lemma recorded_length: "mac_recorded_ok m \<Longrightarrow> length m = 17"
  by (auto simp: mac_recorded_ok_def length_network_mac)

lemma answer_macs_total:
  assumes "net_inv nw"
  shows "\<exists>w. answer_macs nw = Inr w"
proof -
  have v: "\<exists>s. network_vendorForMAC (me_strMAC e) nw = Inr s" if "e \<in> set (m_lstMACSeen nw)" for e
  proof -
    have "mac_recorded_ok (me_strMAC e)" using that assms by (simp add: net_inv_def)
    from vendor_total [OF recorded_length [OF this]] show ?thesis .
  qed
  have "\<exists>w. fold_r (\<lambda>e v. bind_r (mac_value nw e) (\<lambda>w. Inr (add_sub w v))) es u = Inr w"
    if "set es \<subseteq> set (m_lstMACSeen nw)" for es u
    using that
  proof (induction es arbitrary: u)
    case (Cons e es)
    with v [of e] obtain s where "network_vendorForMAC (me_strMAC e) nw = Inr s" by auto
    with Cons show ?case by (simp add: mac_value_def)
  qed simp
  then show ?thesis by (simp add: answer_macs_def)
qed

lemma handle_request_total:
  assumes "net_inv (dm_network dm)" "key (qv_value q) = ''request''"
  shows "\<exists>dm'. handle_request env q dm = Inr dm'"
proof -
  have "\<exists>w dm1. answer env p here v dm = Inr (w, dm1)" for p here v
    using answer_macs_total [OF assms(1)]
    by (auto simp: answer_def Let_def split: prod.splits)
  then obtain w dm1 where "answer env (qv_served q) (strDeviceName (servingByID (qv_servingID q) (dm_server dm)))
      (qv_value q) dm = Inr (w, dm1)" by blast
  with assms(2) show ?thesis by (simp add: handle_request_def response_eq)
qed

lemma fold_requests_total:
  assumes "env_ok env" "daemon_inv dm" "\<forall>q \<in> set qs. key (qv_value q) = ''request'' \<and>
    qv_served q \<in> fst ` set (sv_served (dm_server dm))"
  shows "\<exists>dm'. fold_r (handle_request env) qs dm = Inr dm'"
  using assms(2,3)
proof (induction qs arbitrary: dm)
  case (Cons q qs)
  then have "net_inv (dm_network dm)" "key (qv_value q) = ''request''" by (simp_all add: daemon_inv_def)
  from handle_request_total [OF this] obtain dm1 where 1: "handle_request env q dm = Inr dm1" ..
  have ok: "answers_ok dm dm1" using Cons.prems(2) by (intro handle_request_ok [OF assms(1) _ 1]) simp
  with Cons.prems Cons.IH [of dm1] 1 show ?case by (simp add: answers_ok_def)
qed simp

lemma sample_daemon_inv: "daemon_inv sample_daemon"
  using sample_net_inv sample_server_inv
  by (simp add: daemon_inv_def sample_daemon_def server_inv_def) (simp add: sample_server_def)

theorem requests_answered_witness:
  "\<exists>dm' w. handle_queue sample_env sample_daemon = Inr dm' \<and>
     sv_out (dm_server dm') = [(0, Value ''response'' ''devices-list'' [w])]"
proof -
  have q: "sv_queue (dm_server sample_daemon) = [\<lparr>qv_value = sample_request, qv_served = 0, qv_servingID = 0\<rparr>]"
      "sv_out (dm_server sample_daemon) = []" "0 \<in> fst ` set (sv_served (dm_server sample_daemon))"
    by (simp_all add: sample_daemon_def sample_server_def new_server_def)
  let ?dm0 = "sample_daemon\<lparr>dm_server := (dm_server sample_daemon)\<lparr>sv_queue := []\<rparr>\<rparr>"
  have "daemon_inv ?dm0" using sample_daemon_inv by (simp add: daemon_inv_def server_inv_def)
  from fold_requests_total [OF sample_env_ok this, of "sv_queue (dm_server sample_daemon)"] q obtain dm' where
    h: "handle_queue sample_env sample_daemon = Inr dm'"
    by (auto simp: handle_queue_def queuedValues_def sample_request_def)
  from requests_answered [OF sample_env_ok h] q obtain p v where
      "sv_out (dm_server dm') = [(p, v)]" "p = 0" "key v = ''response''" "content v = ''devices-list''"
      "length (subValues v) = 1"
    by (auto simp: list_all2_Cons1 sample_request_def)
  moreover from this obtain w where "subValues v = [w]" by (cases "subValues v") auto
  ultimately show ?thesis using h by (cases v) auto
qed

section \<open>Events\<close>

lemma fold_post: "fold (\<lambda>x. post (f x) (g x)) xs sv = sv\<lparr>sv_out := sv_out sv @ map (\<lambda>x. (f x, g x)) xs\<rparr>"
  by (induction xs arbitrary: sv) (simp_all add: post_def)

lemma end_streams_eq:
  "end_streams d dm = dm\<lparr>dm_streams := filter (\<lambda>s. snd s \<noteq> d) (dm_streams dm),
     dm_server := (dm_server dm)\<lparr>sv_out := sv_out (dm_server dm) @
       map (\<lambda>s. (fst s, stream_disabled d)) (filter (\<lambda>s. snd s = d) (dm_streams dm))\<rparr>\<rparr>"
  by (simp add: end_streams_def erase_loop_eq fold_post)

lemma tell_eq:
  "tell d v dm = dm\<lparr>dm_server := (dm_server dm)\<lparr>sv_out := sv_out (dm_server dm) @
     map (\<lambda>(p, i). (p, v)) (filter (\<lambda>(p, i). d = [] \<or> streamEnabled p d dm) (sv_served (dm_server dm)))\<rparr>\<rparr>"
proof -
  have "fold (\<lambda>(p, i) dm. if d = [] \<or> streamEnabled p d dm then post_to p v dm else dm) prs dm =
      dm\<lparr>dm_server := (dm_server dm)\<lparr>sv_out := sv_out (dm_server dm) @
        map (\<lambda>(p, i). (p, v)) (filter (\<lambda>(p, i). d = [] \<or> streamEnabled p d dm) prs)\<rparr>\<rparr>" for prs
  proof (induction prs arbitrary: dm)
    case (Cons pr prs)
    obtain p i where pr: "pr = (p, i)" by (cases pr)
    show ?case
    proof (cases "d = [] \<or> streamEnabled p d dm")
      case True
      moreover have "streamEnabled q d (post_to p v dm) = streamEnabled q d dm" for q
        by (simp add: streamEnabled_def)
      ultimately show ?thesis using Cons.IH [of "post_to p v dm"] by (simp add: pr post_to_def post_def)
    next
      case False
      with Cons.IH [of dm] show ?thesis by (simp add: pr)
    qed
  qed simp
  then show ?thesis by (simp add: tell_def)
qed

lemma handle_event_Inr:
  assumes "handle_event env ev dm = Inr dm'"
  shows "\<exists>dm1 v d. dm1 = (if event_type ev = DeviceRemoved then end_streams (event_deviceName ev) dm else dm) \<and>
    event_packet env ev (dm_network dm) = Inr (v, d) \<and> dm' = tell d v dm1"
  using assms by (auto simp: handle_event_def Let_def bind_r_Inr_iff end_streams_eq)

lemma event_packet_laws:
  assumes "event_packet env ev nw = Inr (v, d)"
  shows "key v = ''info''" "d = (if mac_type (event_type ev) then event_deviceName ev else [])"
    "event_type ev = DeviceAdded \<longleftrightarrow> content v = ''device-added''"
    "event_type ev = DeviceRemoved \<longleftrightarrow> content v = ''device-removed''"
    "event_type ev \<in> {DeviceAdded, DeviceRemoved} \<Longrightarrow>
       sub_value ''device-name'' v = Some (Value ''device-name'' (event_deviceName ev) [])"
  using assms
  by (cases "ev_type (event_base ev)";
      auto simp: event_packet_def Let_def event_type_def event_deviceName_def bind_r_Inr_iff sub_value_def
        split: if_splits option.splits)+


lemma sample_packet:
  "event_packet sample_env (new_mac_event MACAddressDisappeared ''eth0'' ''02:00:00:00:00:05'') sample_net =
     Inr (Value ''info'' ''mac-address-disappeared''
       [Value ''mac'' ''02:00:00:00:00:05'' [], Value ''device-name'' ''eth0'' []], ''eth0'')"
  by (simp add: event_packet_def new_mac_event_def new_base_def Let_def)


text \<open>After the removal of a device was announced, nothing about its addresses reaches any client: its
  streams are gone, so the packets that would tell that the addresses disappeared are never sent.\<close>

theorem removed_device_is_silent:
  assumes "handle_event env (new_device_event DeviceRemoved d) dm = Inr dm1" "d \<noteq> []"
    "\<forall>ev \<in> set evs. mac_type (event_type ev) \<and> event_deviceName ev = d"
    "fold_r (handle_event env) evs dm1 = Inr dm2"
  shows "sv_out (dm_server dm2) = sv_out (dm_server dm1)"
proof -
  have none: "\<forall>p. (p, d) \<notin> set (dm_streams dm1)"
    using handle_event_Inr [OF assms(1)] by (auto simp: end_streams_eq tell_eq)
  from none assms(3,4) show ?thesis
  proof (induction evs arbitrary: dm1)
    case (Cons ev evs)
    from Cons.prems(3) obtain dm3 where
        1: "handle_event env ev dm1 = Inr dm3" "fold_r (handle_event env) evs dm3 = Inr dm2"
      by (auto simp: bind_r_Inr_iff)
    have "event_type ev \<noteq> DeviceRemoved" using Cons.prems(2) by auto
    with handle_event_Inr [OF 1(1)] obtain v d' where
        p: "event_packet env ev (dm_network dm1) = Inr (v, d')" "dm3 = tell d' v dm1" by auto
    have "d' = d" using event_packet_laws(2) [OF p(1)] Cons.prems(2) by simp
    with p(2) assms(2) Cons.prems(1) have "sv_out (dm_server dm3) = sv_out (dm_server dm1)"
        "\<forall>p. (p, d) \<notin> set (dm_streams dm3)"
      by (auto simp: tell_eq streamEnabled_def filter_empty_conv)
    with Cons.IH [OF _ _ 1(2)] Cons.prems(2) show ?case by simp
  qed simp
qed

theorem removed_device_is_silent_witness:
  "\<exists>dm1 dm2. handle_event sample_env (new_device_event DeviceRemoved ''eth0'') sample_daemon = Inr dm1 \<and>
     fold_r (handle_event sample_env) [new_mac_event MACAddressDisappeared ''eth0'' ''02:00:00:00:00:05''] dm1 =
       Inr dm2 \<and> sv_out (dm_server dm2) = sv_out (dm_server dm1)"
proof -
  let ?ev = "new_mac_event MACAddressDisappeared ''eth0'' ''02:00:00:00:00:05''"
  have "\<exists>dm1. handle_event sample_env (new_device_event DeviceRemoved ''eth0'') sample_daemon = Inr dm1 \<and>
      dm_network dm1 = sample_net"
    by (simp add: handle_event_def event_packet_def new_device_event_def event_type_def event_deviceName_def
        new_base_def end_streams_eq tell_eq sample_daemon_def Let_def)
  then obtain dm1 where 1: "handle_event sample_env (new_device_event DeviceRemoved ''eth0'') sample_daemon = Inr dm1"
      "dm_network dm1 = sample_net" by blast
  have "\<exists>dm2. fold_r (handle_event sample_env) [?ev] dm1 = Inr dm2"
    using sample_packet 1(2) by (simp add: handle_event_def)
  then obtain dm2 where 2: "fold_r (handle_event sample_env) [?ev] dm1 = Inr dm2" ..
  from removed_device_is_silent [OF 1(1) _ _ 2] 1 2 show ?thesis by auto
qed

end
