(* ===== verification/Announcements.thy ===== *)
theory Announcements
  imports Network_Props
begin

text \<open>
  Which events a cycle of the network can schedule: an announced device is observed at the end of the
  cycle, and an announced address is long enough to have a vendor. The daemon relies on both when it
  makes packets of the events.
\<close>

definition ordinary :: "event \<Rightarrow> bool" where
  "ordinary ev \<longleftrightarrow> event_type ev \<noteq> DeviceAdded \<and> event_type ev \<noteq> DeviceRemoved \<and>
     (event_type ev = MACAddressDiscovered \<longrightarrow> (\<exists>e m. as_mac_event ev = Some (e, m) \<and> length m = 17))"

lemma ordinary_new [simp]:
  "ordinary (new_device_event tp d) \<longleftrightarrow> tp \<noteq> DeviceAdded \<and> tp \<noteq> DeviceRemoved \<and> tp \<noteq> MACAddressDiscovered"
  "ordinary (new_mac_event tp d m) \<longleftrightarrow>
     tp \<noteq> DeviceAdded \<and> tp \<noteq> DeviceRemoved \<and> (tp = MACAddressDiscovered \<longrightarrow> length m = 17)"
  "ordinary (setEvidence k v w ev) \<longleftrightarrow> ordinary ev"
  by (cases ev; auto simp: ordinary_def new_device_event_def new_mac_event_def new_base_def setEvidence_def event_type_def)+

lemma not_UNIV [simp]: "UNIV - {x} \<noteq> UNIV" "insert x A \<noteq> {}"
  by blast+

lemma quiet_ordinary: "quiet ev \<Longrightarrow> event_ok ev \<Longrightarrow> ordinary ev"
proof (cases ev)
  case (DeviceEvent e)
  assume "quiet ev" "event_ok ev"
  then have "apply_event ev ({}, {}) = ({}, {})" "apply_event ev (UNIV, {}) = (UNIV, {})"
    by (simp_all only: quiet_def)
  with \<open>event_ok ev\<close> DeviceEvent show ?thesis by (auto simp: ordinary_def event_ok_def event_type_def)
next
  case (MACEvent e m)
  assume "quiet ev"
  then have "apply_event ev ({}, {}) = ({}, {})" "apply_event ev (UNIV, {}) = (UNIV, {})"
    by (simp_all only: quiet_def)
  with MACEvent show ?thesis by (auto simp: ordinary_def event_type_def)
qed

text \<open>An operation that schedules only such events.\<close>

definition ordinary_ext :: "network \<Rightarrow> network \<Rightarrow> bool" where
  "ordinary_ext nw nw' \<longleftrightarrow> (\<exists>es. m_lstEvents nw' = m_lstEvents nw @ es \<and> (\<forall>ev \<in> set es. ordinary ev))"

lemma ordinary_extI: "m_lstEvents nw' = m_lstEvents nw @ es \<Longrightarrow> \<forall>ev \<in> set es. ordinary ev \<Longrightarrow> ordinary_ext nw nw'"
  by (auto simp: ordinary_ext_def)

lemma ordinary_ext_same: "m_lstEvents nw' = m_lstEvents nw \<Longrightarrow> ordinary_ext nw nw'"
  by (rule ordinary_extI [of _ _ "[]"]) simp_all

lemma ordinary_ext_trans: "ordinary_ext a b \<Longrightarrow> ordinary_ext b c \<Longrightarrow> ordinary_ext a c"
  by (auto simp: ordinary_ext_def)

lemma macAllowed_events: "m_lstEvents (snd (macAllowed env m nw)) = m_lstEvents nw"
  using macAllowed_laws(1) [of env m nw "fst (macAllowed env m nw)" "snd (macAllowed env m nw)"] by auto

lemma addMAC_ordinary: "length m = 17 \<Longrightarrow> ordinary_ext nw (snd (addMAC env m d nw))"
  using macAllowed_events [of env m nw]
  by (auto simp: addMAC_def Let_def read_time_def scheduleEvent_def ordinary_ext_def split: prod.splits)

lemma updateMACEvidence_ordinary: "ordinary_ext nw (updateMACEvidence env d m k v nw)"
  using macAllowed_events [of env m nw]
  by (auto simp: updateMACEvidence_def Let_def scheduleEvent_def ordinary_ext_def split: prod.splits)

interpretation ordinary_hostnames: preserving "\<lambda>_. True" "ordinary_ext nw0" "check_hostname env" for env nw0
  by unfold_locales
    (auto simp: check_hostname_def split: option.splits intro: ordinary_ext_trans updateMACEvidence_ordinary)

lemma detect_device_ordinary:
  assumes "env_ok env"
  shows "ordinary_ext nw (detect_device env dv nw)"
proof -
  obtain bs n where r: "read_frame env dv = (bs, n)" by (cases "read_frame env dv")
  have "length (network_mac (frame_source bs)) = 17"
    using read_frame_length [OF assms r]
    by (intro length_network_mac) (simp add: frame_source_def ETH_FRAME_LEN_def)
  from addMAC_ordinary [OF this] show ?thesis
    using ordinary_ext_trans [OF addMAC_ordinary [OF \<open>length _ = 17\<close>] updateMACEvidence_ordinary]
    by (simp add: detect_device_def r Let_def ordinary_ext_same)
qed

interpretation ordinary_detecting: preserving "\<lambda>_. env_ok env" "ordinary_ext nw0" "detect_device env" for env nw0
  by unfold_locales (auto intro: ordinary_ext_trans detect_device_ordinary)

lemma detected_ordinary:
  assumes "env_ok env"
  shows "\<forall>ev \<in> set (m_lstEvents (detected env nw)). ordinary ev"
proof -
  let ?nw0 = "nw\<lparr>nw_readings := Suc (nw_readings nw), m_lstEvents := []\<rparr>"
  let ?nw1 = "fold (detect_device env) (m_lstDevices ?nw0) ?nw0"
  have 1: "ordinary_ext ?nw0 ?nw1"
    using assms by (intro ordinary_detecting.fold_inv ordinary_ext_same) auto
  have 2: "ordinary_ext ?nw1 (checkHostnames env (?nw1\<lparr>nw_readings := k\<rparr>))" for k
    unfolding checkHostnames_def by (intro ordinary_hostnames.fold_inv ordinary_ext_same) auto
  have "ordinary_ext ?nw0 (detectNetworkActivity env ?nw0)"
    using 1 ordinary_ext_trans [OF 1 2]
    by (auto simp: detectNetworkActivity_def read_time_def Let_def ordinary_ext_def)
  then show ?thesis by (auto simp: detected_def Let_def ordinary_ext_def)
qed

text \<open>Removing devices adds their removal.\<close>

definition removed_only :: "string set \<Rightarrow> network \<Rightarrow> bool" where
  "removed_only S nw \<longleftrightarrow> (\<forall>ev \<in> set (m_lstEvents nw).
     ordinary ev \<or> (event_type ev = DeviceRemoved \<and> event_deviceName ev \<in> S))"

interpretation ordinary_removing: preserving "\<lambda>d. d \<in> S" "removed_only S" "\<lambda>d nw. snd (removeDevice d nw)" for S
  by unfold_locales
    (auto simp: removed_only_def removeDevice_def remove_macs_eq scheduleEvent_def vanish_def split: option.splits)

text \<open>
  After the management: ordinary events, the removal of devices the system does not have, and the
  addition of devices that are observed.
\<close>

definition announced :: "string set \<Rightarrow> network \<Rightarrow> bool" where
  "announced S nw \<longleftrightarrow> (\<forall>ev \<in> set (m_lstEvents nw).
     ordinary ev \<or> (event_type ev = DeviceRemoved \<and> event_deviceName ev \<in> S) \<or>
     (event_type ev = DeviceAdded \<and> event_deviceName ev \<in> set (device_names nw)))"

lemma announced_ext: "announced S nw \<Longrightarrow> ordinary_ext nw nw' \<Longrightarrow> device_names nw' = device_names nw \<Longrightarrow> announced S nw'"
  by (auto simp: announced_def ordinary_ext_def)

interpretation announcing: preserving_r "\<lambda>_. True" "announced S" "add_step env" for S env
proof unfold_locales
  fix d nw nw'
  assume a: "announced S nw" "add_step env d nw = Inr nw'"
  then obtain b where "addDevice env d nw = Inr (b, nw')" by (auto simp: add_step_def bind_r_Inr_iff)
  then show "announced S nw'"
  proof (cases b)
    case True
    with \<open>addDevice env d nw = Inr (b, nw')\<close> addDevice_Some [of env d nw nw'] a(1) show ?thesis
      by (auto simp: announced_def device_names_def)
  qed (use a(1) addDevice_False in auto)
qed

lemma manage_announced:
  assumes "\<forall>ev \<in> set (m_lstEvents nw). ordinary ev" "manage_devices env nw = Inr nw'"
  shows "announced (- set (m_lstSystemDeviceNames nw)) nw'"
proof (cases "m_bAutoManageDevices nw")
  case True
  let ?rem = "filter (\<lambda>d. d \<notin> set (m_lstSystemDeviceNames nw)) (device_names nw)"
  let ?S = "- set (m_lstSystemDeviceNames nw)"
  have "removed_only ?S (fold (\<lambda>d nw. snd (removeDevice d nw)) ?rem nw)"
    using assms(1) by (intro ordinary_removing.fold_inv) (auto simp: removed_only_def)
  then have "announced ?S (fold (\<lambda>d nw. snd (removeDevice d nw)) ?rem nw)"
    by (auto simp: announced_def removed_only_def)
  with True assms(2) show ?thesis
    using announcing.fold_r_inv [of ?S "fold (\<lambda>d nw. snd (removeDevice d nw)) ?rem nw"]
    by (simp add: manage_devices_eq)
qed (use assms in \<open>auto simp: manage_devices_eq announced_def\<close>)

lemma settled_ordinary:
  assumes "env_ok env"
  shows "ordinary_ext nw (settled env t nw)"
proof -
  have "ordinary_ext nw (maintain_devices env nw)"
  proof -
    obtain dvs es where m: "maintain_all env (m_nSocketFDControl nw) (m_lstDevices nw) = (dvs, es)"
      by (cases "maintain_all env (m_nSocketFDControl nw) (m_lstDevices nw)")
    with maintain_all_laws [OF assms m] show ?thesis
      by (intro ordinary_extI [of _ _ es]) (auto simp: maintain_devices_def intro: quiet_ordinary)
  qed
  moreover have "ordinary_ext nw1 (stamp_updates t (expire_macs t nw1))" for nw1
    by (intro ordinary_extI [of _ _ "map vanish (filter (expired t nw1) (m_lstMACSeen nw1))"])
      (auto simp: stamp_updates_def expire_macs_eq vanish_def)
  ultimately show ?thesis unfolding settled_def by (blast intro: ordinary_ext_trans)
qed

lemma cycle_announced:
  assumes env: "env_ok env" and inv: "net_inv nw" and c: "cycle env nw = Inr (r, nw')"
  shows "announced (- set (systemDeviceNames env nw)) nw'"
proof -
  have sys: "m_lstSystemDeviceNames (detected env nw) = systemDeviceNames env nw"
    using detected_laws(5) [OF env] systemDeviceNames_config [OF detected_laws(1) [OF env]] by simp
  let ?t = "clock env (nw_readings nw)"
  from c obtain nw1 where nw1: "manage_devices env (detected env nw) = Inr nw1"
      "ping_devices env ?t (settled env ?t nw1) = Inr nw'"
    by (auto simp: cycle_eq bind_r_Inr_iff)
  let ?S = "- set (systemDeviceNames env nw)"
  have "announced ?S nw1" using manage_announced [OF detected_ordinary [OF env] nw1(1)] by (simp add: sys)
  then have a: "announced ?S (settled env ?t nw1)"
    using settled_ordinary [OF env] followsD(3) [OF settled_follows [OF env]] by (rule announced_ext)
  have "net_inv (settled env ?t nw1)"
    using manage_evolves [OF env nw1(1)] detected_laws(3) [OF env inv] followsD(4) [OF settled_follows [OF env]]
    by (simp add: evolves_def)
  from ping_total [OF env net_invD(2) [OF this], of ?t] nw1(2) have
      "m_lstEvents nw' = m_lstEvents (settled env ?t nw1)" "follows (settled env ?t nw1) nw'" by auto
  with a show ?thesis by (intro announced_ext [OF a] ordinary_ext_same followsD(3))
qed

end
