(* ===== verification/Daemon_Cycle.thy ===== *)
theory Daemon_Cycle
  imports Daemon_Props Announcements
begin

text \<open>
  The cycle of \<open>Daemon.cpp\<close> as a whole: what its stages leave alone, the invariant between two cycles,
  and what a client learns from the packets it is sent.
\<close>

section \<open>The stages\<close>

lemma drop_streams_eq: "drop_streams p dm = dm\<lparr>dm_streams := filter (\<lambda>s. fst s \<noteq> p) (dm_streams dm)\<rparr>"
  by (simp add: drop_streams_def erase_loop_eq)

lemma fold_drop_streams:
  "fold drop_streams ps dm = dm\<lparr>dm_streams := filter (\<lambda>s. fst s \<notin> set ps) (dm_streams dm)\<rparr>"
  by (induction ps arbitrary: dm) (auto simp: drop_streams_eq intro: filter_cong)

lemma handle_removed_eq:
  "handle_removed dm = dm\<lparr>dm_server := (dm_server dm)\<lparr>sv_removed := []\<rparr>,
     dm_streams := filter (\<lambda>s. fst s \<notin> set (sv_removed (dm_server dm))) (dm_streams dm)\<rparr>"
  by (simp add: handle_removed_def removed_def fold_drop_streams)

text \<open>What the handling of events leaves alone.\<close>

lemma handle_event_frame:
  assumes "handle_event env ev dm = Inr dm'"
  shows "dm_network dm' = dm_network dm" "dm_discovery dm' = dm_discovery dm"
    "dm_lastKeepAlive dm' = dm_lastKeepAlive dm" "dm_keepAliveInterval dm' = dm_keepAliveInterval dm"
    "\<exists>outs. dm_server dm' = (dm_server dm)\<lparr>sv_out := sv_out (dm_server dm) @ outs\<rparr>"
    "dm_streams dm' = filter (\<lambda>s. \<not> (event_type ev = DeviceRemoved \<and> snd s = event_deviceName ev)) (dm_streams dm)"
  using handle_event_Inr [OF assms] by (auto simp: tell_eq end_streams_eq)

definition events_frame :: "daemon \<Rightarrow> daemon \<Rightarrow> bool" where
  "events_frame dm dm' \<longleftrightarrow>
     dm_network dm' = dm_network dm \<and> dm_discovery dm' = dm_discovery dm \<and>
     dm_lastKeepAlive dm' = dm_lastKeepAlive dm \<and> dm_keepAliveInterval dm' = dm_keepAliveInterval dm \<and>
     (\<exists>outs. dm_server dm' = (dm_server dm)\<lparr>sv_out := sv_out (dm_server dm) @ outs\<rparr>) \<and>
     (\<exists>P. dm_streams dm' = filter P (dm_streams dm))"

lemma events_frame_refl: "events_frame dm dm"
  unfolding events_frame_def by (auto intro!: exI [of _ "[]"] exI [of _ "\<lambda>_. True"])

interpretation telling: preserving_r "\<lambda>_. True" "events_frame dm0" "handle_event env" for env dm0
proof unfold_locales
  fix ev dm dm'
  assume f: "events_frame dm0 dm" and h: "handle_event env ev dm = Inr dm'"
  note e = handle_event_frame [OF h]
  from f obtain outs P where o: "dm_server dm = (dm_server dm0)\<lparr>sv_out := sv_out (dm_server dm0) @ outs\<rparr>"
      "dm_streams dm = filter P (dm_streams dm0)"
    by (auto simp: events_frame_def)
  from e(5) obtain outs' where "dm_server dm' = (dm_server dm)\<lparr>sv_out := sv_out (dm_server dm) @ outs'\<rparr>" ..
  then have "dm_server dm' = (dm_server dm0)\<lparr>sv_out := sv_out (dm_server dm0) @ (outs @ outs')\<rparr>"
    unfolding o(1) by simp
  moreover have "\<exists>P. dm_streams dm' = filter P (dm_streams dm0)"
    unfolding e(6) o(2) filter_filter by blast
  ultimately show "events_frame dm0 dm'" using e(1-4) f by (auto simp: events_frame_def)
qed

lemma events_frameD:
  assumes "fold_r (handle_event env) evs dm = Inr dm'"
  shows "events_frame dm dm'"
  using telling.fold_r_inv [OF events_frame_refl _ assms] by simp

text \<open>The server keeps the clients it had, but for those it reports as removed.\<close>

lemma got_not_failed: "got env h pr \<noteq> [] \<Longrightarrow> \<not> failed env h (fst pr)"
  by (auto simp: got_def failed_def split: sum.splits option.splits prod.splits)

lemma got_served: "q \<in> set (got env h pr) \<Longrightarrow> qv_served q = fst pr"
  by (auto simp: got_def split: sum.splits option.splits prod.splits)

lemma server_cycle_served:
  assumes inv: "server_inv sv" and c: "server_cycle env sv = Inr (True, sv')"
  shows "fst ` set (sv_served sv) \<subseteq> fst ` set (sv_served sv') \<union> set (sv_removed sv')"
    "\<forall>q \<in> set (sv_queue sv'). q \<in> set (sv_queue sv) \<or> qv_served q \<in> fst ` set (sv_served sv')"
    "\<exists>new :: (served_ptr \<times> int) list. sv_out sv' = sv_out sv @ map (\<lambda>(p, i). (p, hello (sv_serverName sv))) new \<and>
       fst ` set new \<inter> fst ` set (sv_served sv) = {}"
    "set (sv_removed sv) \<subseteq> set (sv_removed sv')"
proof -
  have run: "sv_run sv" using c by (auto simp: server_cycle_eq split: if_splits)
  let ?l = "listening env sv"
  let ?h = "sv_heap ?l"
  note l = listening_laws [OF inv, of env]
  from server_cycle_Inr [OF inv run server_cycle_receives [OF inv run c]] c obtain h where
      sv': "sv' = ?l\<lparr>sv_heap := h,
        sv_queue := sv_queue sv @ concat (map (got env ?h) (sv_served ?l)),
        sv_served := filter (\<lambda>pr. \<not> failed env ?h (fst pr)) (sv_served ?l),
        sv_removed := sv_removed sv @ filter (failed env ?h) (map fst (sv_served ?l))\<rparr>" by auto
  from l show "fst ` set (sv_served sv) \<subseteq> fst ` set (sv_served sv') \<union> set (sv_removed sv')"
    by (auto simp: sv' image_iff) 
  show "set (sv_removed sv) \<subseteq> set (sv_removed sv')" by (auto simp: sv')
  show "\<forall>q \<in> set (sv_queue sv'). q \<in> set (sv_queue sv) \<or> qv_served q \<in> fst ` set (sv_served sv')"
  proof
    fix q assume "q \<in> set (sv_queue sv')"
    then consider "q \<in> set (sv_queue sv)" | pr where "pr \<in> set (sv_served ?l)" "q \<in> set (got env ?h pr)"
      by (auto simp: sv')
    then show "q \<in> set (sv_queue sv) \<or> qv_served q \<in> fst ` set (sv_served sv')"
    proof cases
      case (2 pr)
      from 2(2) have "got env ?h pr \<noteq> []" by (metis empty_iff empty_set)
      with got_not_failed [of env ?h pr] 2(1) have "pr \<in> set (sv_served sv')" by (simp add: sv')
      with got_served [OF 2(2)] show ?thesis by force
    qed simp
  qed
  from l(4) obtain prs where "sv_served ?l = sv_served sv @ prs \<and> (\<forall>(p, i) \<in> set prs. sv_next sv \<le> p) \<and>
      sv_out ?l = sv_out sv @ map (\<lambda>(p, i). (p, hello (sv_serverName sv))) prs" ..
  then have p: "\<forall>(p, i) \<in> set prs. sv_next sv \<le> p"
      "sv_out ?l = sv_out sv @ map (\<lambda>(p, i). (p, hello (sv_serverName sv))) prs" by - (elim conjE, assumption)+
  have "\<forall>x \<in> fst ` set (sv_served sv). x < sv_next sv" using inv unfolding server_inv_def by fastforce
  moreover have "\<forall>x \<in> fst ` set prs. sv_next sv \<le> x" using p(1) by auto
  ultimately have "fst ` set prs \<inter> fst ` set (sv_served sv) = {}" by (meson disjoint_iff linorder_not_less)
  with p(2) show "\<exists>new :: (served_ptr \<times> int) list. sv_out sv' = sv_out sv @ map (\<lambda>(p, i). (p, hello (sv_serverName sv))) new \<and>
       fst ` set new \<inter> fst ` set (sv_served sv) = {}"
    by - (intro exI [of _ prs] conjI, simp_all add: sv')
qed

section \<open>The invariant\<close>

text \<open>Between two cycles nothing is left in the queue and in the list of removed clients.\<close>

definition daemon_ready :: "daemon \<Rightarrow> bool" where
  "daemon_ready dm \<longleftrightarrow>
     daemon_inv dm \<and> sv_queue (dm_server dm) = [] \<and> sv_removed (dm_server dm) = []"

text \<open>The state in which the queue is handled.\<close>

definition received_state :: "network \<Rightarrow> server \<Rightarrow> daemon \<Rightarrow> daemon" where
  "received_state nw sv dm = handle_removed (dm\<lparr>dm_network := nw, dm_server := sv\<rparr>)"

lemma received_state_inv:
  assumes ready: "daemon_ready dm" and nw: "net_inv nw"
    and c: "server_cycle env (dm_server dm) = Inr (True, sv)"
  shows "daemon_inv (received_state nw sv dm)"
    "\<forall>q \<in> set (sv_queue sv). qv_served q \<in> fst ` set (sv_served sv)"
proof -
  have inv: "server_inv (dm_server dm)" "distinct (dm_streams dm)"
      "fst ` set (dm_streams dm) \<subseteq> fst ` set (sv_served (dm_server dm))" "sv_queue (dm_server dm) = []"
    using ready by (simp_all add: daemon_ready_def daemon_inv_def)
  note l = server_cycle_served [OF inv(1) c]
  have "server_inv (sv\<lparr>sv_removed := []\<rparr>)" using server_cycle_inv [OF inv(1) c] by (simp add: server_inv_def)
  moreover have "fst ` {s \<in> set (dm_streams dm). fst s \<notin> set (sv_removed sv)} \<subseteq> fst ` set (sv_served sv)"
    using inv(3) l(1) by blast
  ultimately show "daemon_inv (received_state nw sv dm)"
    using nw inv(2) by (simp add: daemon_inv_def received_state_def handle_removed_eq)
  show "\<forall>q \<in> set (sv_queue sv). qv_served q \<in> fst ` set (sv_served sv)" using l(2) inv(4) by simp
qed

lemma daemon_cycle_True:
  assumes "daemon_cycle env dm = Inr (True, dm')"
  obtains nw sv dm1 dm2 ds where
    "cycle (de_net env) (dm_network dm) = Inr (True, nw)"
    "server_cycle (de_sock env) (dm_server dm) = Inr (True, sv)"
    "handle_queue (de_net env) (received_state nw sv dm) = Inr dm1"
    "fold_r (handle_event (de_net env)) (m_lstEvents (dm_network dm1)) dm1 = Inr dm2"
    "dm' = keepalive (de_net env) (dm2\<lparr>dm_discovery := ds\<rparr>)"
  using assms
  by (auto simp: daemon_cycle_def handle_discovery_def received_state_def Let_def bind_r_Inr_iff split: if_splits)

lemma daemon_cycle_False:
  assumes "daemon_cycle env dm = Inr (False, dm')"
  shows "\<exists>r nw. cycle (de_net env) (dm_network dm) = Inr (r, nw) \<and>
    dm' = dm\<lparr>dm_network := nw\<rparr> \<and> (r \<longrightarrow> \<not> sv_run (dm_server dm))"
  using assms
  by (auto simp: daemon_cycle_def handle_discovery_def Let_def bind_r_Inr_iff server_cycle_eq split: if_splits)

lemma distribute_eq:
  "distributeStreamValue v sv = sv\<lparr>sv_out := sv_out sv @ map (\<lambda>(p, i). (p, v)) (sv_served sv)\<rparr>"
  using fold_post [of fst "\<lambda>_. v" "sv_served sv" sv]
  by (simp add: distributeStreamValue_def case_prod_beta')

lemma keepalive_eq:
  "keepalive env dm =
     (let t = clock env (nw_readings (dm_network dm));
          dm1 = dm\<lparr>dm_network := (dm_network dm)\<lparr>nw_readings := Suc (nw_readings (dm_network dm))\<rparr>\<rparr> in
      if dm_lastKeepAlive dm + dm_keepAliveInterval dm < t
      then dm1\<lparr>dm_lastKeepAlive := t, dm_server := (dm_server dm)\<lparr>sv_out := sv_out (dm_server dm) @
        map (\<lambda>(p, i). (p, Value ''info'' ''keepalive'' [])) (sv_served (dm_server dm))\<rparr>\<rparr>
      else dm1)"
  by (simp add: keepalive_def read_time_def distribute_eq Let_def)

lemma net_inv_readings [simp]: "net_inv (nw\<lparr>nw_readings := n\<rparr>) = net_inv nw"
  by (simp add: net_inv_def)

lemma keepalive_frame:
  "dm_streams (keepalive env dm) = dm_streams dm"
  "sv_served (dm_server (keepalive env dm)) = sv_served (dm_server dm)"
  "sv_queue (dm_server (keepalive env dm)) = sv_queue (dm_server dm)"
  "sv_removed (dm_server (keepalive env dm)) = sv_removed (dm_server dm)"
  "view_of (dm_network (keepalive env dm)) = view_of (dm_network dm)"
  "daemon_inv (keepalive env dm) = daemon_inv dm"
  by (auto simp: keepalive_eq Let_def view_of_def daemon_inv_def server_inv_def)

lemma handle_queue_eq:
  "handle_queue env dm = fold_r (handle_request env) (sv_queue (dm_server dm))
     (dm\<lparr>dm_server := (dm_server dm)\<lparr>sv_queue := []\<rparr>\<rparr>)"
  by (simp add: handle_queue_def queuedValues_def)

lemma handle_queue_ok:
  assumes "env_ok env" "handle_queue env dm = Inr dm'"
    "\<forall>q \<in> set (sv_queue (dm_server dm)). qv_served q \<in> fst ` set (sv_served (dm_server dm))"
  shows "answers_ok (dm\<lparr>dm_server := (dm_server dm)\<lparr>sv_queue := []\<rparr>\<rparr>) dm'"
  using assms by (intro answering.fold_r_inv [OF answers_ok_refl]) (auto simp: handle_queue_def queuedValues_def)


lemma daemon_cycle_ready:
  assumes env: "env_ok (de_net env)" and ready: "daemon_ready dm" and c: "daemon_cycle env dm = Inr (b, dm')"
  shows "daemon_ready dm'"
proof (cases b)
  case False
  with c have "daemon_cycle env dm = Inr (False, dm')" by simp
  from daemon_cycle_False [OF this] obtain r nw where
      "cycle (de_net env) (dm_network dm) = Inr (r, nw)" "dm' = dm\<lparr>dm_network := nw\<rparr>" by blast
  with ready cycle_inv [OF env _ this(1)] show ?thesis by (simp add: daemon_ready_def daemon_inv_def)
next
  case True
  with c obtain nw sv dm1 dm2 ds where s: "cycle (de_net env) (dm_network dm) = Inr (True, nw)"
      "server_cycle (de_sock env) (dm_server dm) = Inr (True, sv)"
      "handle_queue (de_net env) (received_state nw sv dm) = Inr dm1"
      "fold_r (handle_event (de_net env)) (m_lstEvents (dm_network dm1)) dm1 = Inr dm2"
      "dm' = keepalive (de_net env) (dm2\<lparr>dm_discovery := ds\<rparr>)"
    by (auto elim: daemon_cycle_True)
  have nw: "net_inv nw" using ready cycle_inv [OF env _ s(1)] by (simp add: daemon_ready_def daemon_inv_def)
  note r = received_state_inv [OF ready nw s(2)]
  have "\<forall>q \<in> set (sv_queue (dm_server (received_state nw sv dm))).
      qv_served q \<in> fst ` set (sv_served (dm_server (received_state nw sv dm)))"
    using r(2) by (simp add: received_state_def handle_removed_eq)
  note ok = handle_queue_ok [OF env s(3) this]
  have "daemon_inv ((received_state nw sv dm)\<lparr>dm_server := (dm_server (received_state nw sv dm))\<lparr>sv_queue := []\<rparr>\<rparr>)"
    using r(1) by (simp add: daemon_inv_def server_inv_def)
  with ok have q: "daemon_inv dm1" by (simp add: answers_ok_def)
  from ok have q': "sv_queue (dm_server dm1) = []" "sv_removed (dm_server dm1) = []"
    by (simp_all add: answers_ok_def received_state_def handle_removed_eq)
  from events_frameD [OF s(4)] obtain outs P where
      e: "dm_network dm2 = dm_network dm1" "dm_server dm2 = (dm_server dm1)\<lparr>sv_out := sv_out (dm_server dm1) @ outs\<rparr>"
        "dm_streams dm2 = filter P (dm_streams dm1)"
    by (auto simp: events_frame_def)
  have "daemon_inv (dm2\<lparr>dm_discovery := ds\<rparr>)"
    using q by (auto simp: daemon_inv_def server_inv_def e)
  then show ?thesis using q' by (simp add: daemon_ready_def s(5) keepalive_frame e)
qed

section \<open>Reachable states of the daemon\<close>

lemma server_inv_servings:
  "server_inv sv \<Longrightarrow> distinct (map nID ss) \<Longrightarrow> \<forall>sg \<in> set ss. 0 \<le> nID sg \<Longrightarrow> server_inv (sv\<lparr>sv_servings := ss\<rparr>)"
  by (simp add: server_inv_def)

lemma serve_frame:
  assumes "server_inv sv" "serve fd bound d port sv = Inr (b, sv')"
  shows "server_inv sv'" "sv_served sv' = sv_served sv" "sv_queue sv' = sv_queue sv"
    "sv_removed sv' = sv_removed sv"
proof -
  have "distinct (map nID (sv_servings sv))" "\<forall>sg \<in> set (sv_servings sv). 0 \<le> nID sg"
    using assms(1) by (simp_all add: server_inv_def)
  with assms freeServingID_fresh [of sv] show "server_inv sv'"
    by (auto simp: serve_def Let_def split: if_splits intro!: server_inv_servings)
  show "sv_served sv' = sv_served sv" "sv_queue sv' = sv_queue sv" "sv_removed sv' = sv_removed sv"
    using assms(2) by (auto simp: serve_def Let_def split: if_splits)
qed

lemma daemon_ready_network: "daemon_ready dm \<Longrightarrow> net_inv nw \<Longrightarrow> daemon_ready (dm\<lparr>dm_network := nw\<rparr>)"
  by (simp add: daemon_ready_def daemon_inv_def)

lemma daemon_ready_other [simp]:
  "daemon_ready (dm\<lparr>dm_keepAliveInterval := t\<rparr>) = daemon_ready dm"
  "daemon_ready (dm\<lparr>dm_discovery := ds\<rparr>) = daemon_ready dm"
  by (simp_all add: daemon_ready_def daemon_inv_def)

lemma daemon_serve_ready:
  assumes "daemon_ready dm" "daemon_serve fd bound d port dm = Inr (b, dm')"
  shows "daemon_ready dm'"
proof -
  from assms(2) obtain sv where sv: "serve fd bound d port (dm_server dm) = Inr (b, sv)"
      "dm' = dm\<lparr>dm_server := sv\<rparr>"
    by (auto simp: daemon_serve_def bind_r_Inr_iff)
  have "server_inv (dm_server dm)" using assms(1) by (simp add: daemon_ready_def daemon_inv_def)
  from serve_frame [OF this sv(1)] assms(1) show ?thesis
    by (simp add: sv(2) daemon_ready_def daemon_inv_def)
qed

interpretation listing: preserving_r "\<lambda>_. True" net_inv "addDeviceWhiteBlacklistEntry env" for env
  by unfold_locales (blast intro: net_step_inv step_pattern)

interpretation serving_all: preserving_r "\<lambda>_. True" daemon_ready "serve_entry bind_of" for bind_of
  by unfold_locales
    (auto simp: serve_entry_def Let_def bind_r_Inr_iff split: option.splits if_splits prod.splits
      intro: daemon_serve_ready)

text \<open>The loops of a configuration, between its settings.\<close>

lemma configure_parts:
  assumes c: "configure env bind_of cfg dm = Inr dm'"
    and nw0: "nw0 = (let m = config_value ''network'' ''list-mode'' ''whitelist'' True cfg in
    if m = ''whitelist'' then setDeviceWhiteBlacklistMode Whitelist (dm_network dm)
    else if m = ''blacklist'' then setDeviceWhiteBlacklistMode Blacklist (dm_network dm) else dm_network dm)"
  shows "\<exists>l1 nw l2 t dm1 ds. fold_r (addDeviceWhiteBlacklistEntry env) l1 nw0 = Inr nw \<and>
      fold_r (serve_entry bind_of) l2 (dm\<lparr>dm_network :=
          setPingBroadcastInterval (doubleValue ''network'' ''ping-broadcast-interval'' 10 cfg)
            (setUpdateInterval (doubleValue ''network'' ''update-interval'' 10 cfg)
              (setMaxMACAge (doubleValue ''network'' ''max-mac-age'' 300 cfg) nw)),
        dm_keepAliveInterval := t\<rparr>) = Inr dm1 \<and>
      dm' = dm1\<lparr>dm_discovery := ds\<rparr>"
  using c unfolding configure_def nw0 Let_def bind_r_Inr_iff sum.inject(2)
  by (elim exE conjE) (intro exI conjI, assumption, assumption, erule sym)

lemma configure_ready:
  assumes ready: "daemon_ready dm" and c: "configure env bind_of cfg dm = Inr dm'"
  shows "daemon_ready dm'"
proof -
  have net: "net_inv (dm_network dm)" using ready by (simp add: daemon_ready_def daemon_inv_def)
  have set: "net_inv (setDeviceWhiteBlacklistMode m nw) = net_inv nw" "net_inv (setMaxMACAge t nw) = net_inv nw"
      "net_inv (setUpdateInterval t nw) = net_inv nw" "net_inv (setPingBroadcastInterval t nw) = net_inv nw" for m t nw
    by (simp_all add: net_inv_def setDeviceWhiteBlacklistMode_def setMaxMACAge_def setUpdateInterval_def
        setPingBroadcastInterval_def)
  define nw0 where "nw0 = (let m = config_value ''network'' ''list-mode'' ''whitelist'' True cfg in
    if m = ''whitelist'' then setDeviceWhiteBlacklistMode Whitelist (dm_network dm)
    else if m = ''blacklist'' then setDeviceWhiteBlacklistMode Blacklist (dm_network dm) else dm_network dm)"
  have "net_inv nw0" using net by (simp add: nw0_def Let_def set)
  from configure_parts [OF c nw0_def] obtain l1 nw l2 t dm1 ds where
      s: "fold_r (addDeviceWhiteBlacklistEntry env) l1 nw0 = Inr nw"
      "fold_r (serve_entry bind_of) l2 (dm\<lparr>dm_network :=
          setPingBroadcastInterval (doubleValue ''network'' ''ping-broadcast-interval'' 10 cfg)
            (setUpdateInterval (doubleValue ''network'' ''update-interval'' 10 cfg)
              (setMaxMACAge (doubleValue ''network'' ''max-mac-age'' 300 cfg) nw)),
        dm_keepAliveInterval := t\<rparr>) = Inr dm1"
      "dm' = dm1\<lparr>dm_discovery := ds\<rparr>" by blast
  have "net_inv nw" by (rule listing.fold_r_inv [OF \<open>net_inv nw0\<close> _ s(1)]) simp
  with ready have "daemon_ready dm1"
    by (intro serving_all.fold_r_inv [OF _ _ s(2)]) (simp_all add: daemon_ready_network set)
  with s(3) show ?thesis by simp
qed

text \<open>
  The operations of a running daemon; the operating system may answer differently each time. \<open>serve\<close> is
  only called with the entries of the configuration, but is public.
\<close>

inductive daemon_step :: "daemon \<Rightarrow> daemon \<Rightarrow> bool" where
  do_cycle: "env_ok (de_net env) \<Longrightarrow> daemon_cycle env dm = Inr (b, dm') \<Longrightarrow> daemon_step dm dm'"
| do_config: "parseConfigFile env bind_of files path dm = Inr (b, dm') \<Longrightarrow> daemon_step dm dm'"
| do_serve: "daemon_serve fd bound d port dm = Inr (b, dm') \<Longrightarrow> daemon_step dm dm'"
| do_shutdown: "daemon_step dm (daemon_shutdown dm)"

inductive_cases daemon_stepE: "daemon_step dm dm'"

inductive daemon_reachable :: "daemon \<Rightarrow> bool" where
  at_start: "new_network fd auto exe files = Inr nw \<Longrightarrow> daemon_reachable (new_daemon strIdentifier nw fd')"
| at_step: "daemon_reachable dm \<Longrightarrow> daemon_step dm dm' \<Longrightarrow> daemon_reachable dm'"

lemma daemon_step_ready: "daemon_step dm dm' \<Longrightarrow> daemon_ready dm \<Longrightarrow> daemon_ready dm'"
proof (elim daemon_stepE)
  fix env bind_of files path b
  assume "daemon_ready dm" "parseConfigFile env bind_of files path dm = Inr (b, dm')"
  then show "daemon_ready dm'"
    using configure_ready by (auto simp: parseConfigFile_def bind_r_Inr_iff split: if_splits)
next
  assume "daemon_ready dm" "dm' = daemon_shutdown dm"
  then show "daemon_ready dm'"
    by (auto simp: daemon_shutdown_def daemon_ready_def daemon_inv_def server_inv_def server_shutdown_def
        net_inv_def shutdown_def)
qed (blast intro: daemon_cycle_ready daemon_serve_ready)+

lemma reachable_ready: "daemon_reachable dm \<Longrightarrow> daemon_ready dm"
proof (induction rule: daemon_reachable.induct)
  case (at_start fd auto exe files nw strIdentifier fd')
  have "net_inv nw" by (rule reachable_inv [OF reach_new [OF at_start]])
  then have "net_inv (setDeviceWhiteBlacklistMode Whitelist (setAutoManageDevices True nw))"
    by (simp add: net_inv_def setDeviceWhiteBlacklistMode_def setAutoManageDevices_def)
  then show ?case
    by (simp add: daemon_ready_def daemon_inv_def new_daemon_def new_server_def server_inv_def)
qed (blast intro: daemon_step_ready)

text \<open>C5: in every state the daemon can get into, by any sequence of cycles, configurations, servings and
  shutdowns, with whatever the network, the clients and the operating system do, its network and its
  server keep their invariants, every stream belongs to a client that is connected, no stream exists
  twice, and between cycles no request is left unanswered and no removed client unhandled.\<close>

theorem daemon_invariant:
  assumes "daemon_reachable dm"
  shows "net_inv (dm_network dm) \<and> server_inv (dm_server dm) \<and>
    distinct (dm_streams dm) \<and> fst ` set (dm_streams dm) \<subseteq> fst ` set (sv_served (dm_server dm)) \<and>
    sv_queue (dm_server dm) = [] \<and> sv_removed (dm_server dm) = []"
  using reachable_ready [OF assms] by (simp add: daemon_ready_def daemon_inv_def)

section \<open>What a client learns\<close>

text \<open>
  A client that keeps a set of device names and, for a device, a set of addresses, and updates them with
  each packet it receives.
\<close>

definition follow_devices :: "val \<Rightarrow> string set \<Rightarrow> string set" where
  "follow_devices v ds =
     (case sub_value ''device-name'' v of
        None \<Rightarrow> ds
      | Some n \<Rightarrow>
          if key v = ''info'' \<and> content v = ''device-added'' then insert (content n) ds
          else if key v = ''info'' \<and> content v = ''device-removed'' then ds - {content n}
          else ds)"

definition follow_macs :: "string \<Rightarrow> val \<Rightarrow> string set \<Rightarrow> string set" where
  "follow_macs d v ms =
     (case (sub_value ''device-name'' v, sub_value ''mac'' v) of
        (Some n, Some m) \<Rightarrow>
          if content n \<noteq> d then ms
          else if key v = ''info'' \<and> content v = ''mac-address-discovered'' then insert (content m) ms
          else if key v = ''info'' \<and> content v = ''mac-address-disappeared'' then ms - {content m}
          else ms
      | _ \<Rightarrow> ms)"

text \<open>The packets for one client.\<close>

definition sent_to :: "served_ptr \<Rightarrow> (served_ptr \<times> val) list \<Rightarrow> val list" where
  "sent_to p outs = map snd (filter (\<lambda>(q, v). q = p) outs)"

lemma sent_to_append [simp]: "sent_to p (xs @ ys) = sent_to p xs @ sent_to p ys"
  by (simp add: sent_to_def)

definition on_device :: "string \<Rightarrow> view \<Rightarrow> string set" where
  "on_device d vw = {m. (m, d) \<in> snd vw}"

lemma packet_follows:
  assumes "event_packet env ev nw = Inr (v, d')"
  shows "follow_devices v (fst vw) = fst (apply_event ev vw)"
    "follow_macs d v (on_device d vw) = on_device d (apply_event ev vw)"
    "on_device d (apply_event ev vw) \<noteq> on_device d vw \<Longrightarrow> d' = d"
proof -
  obtain ds ms where vw: "vw = (ds, ms)" by (cases vw)
  show "follow_devices v (fst vw) = fst (apply_event ev vw)"
    "follow_macs d v (on_device d vw) = on_device d (apply_event ev vw)"
    "on_device d (apply_event ev vw) \<noteq> on_device d vw \<Longrightarrow> d' = d"
    using assms unfolding vw
    by (cases ev; cases "ev_type (event_base ev)";
        auto simp: event_packet_def Let_def bind_r_Inr_iff follow_devices_def follow_macs_def sub_value_def
          on_device_def split: if_splits option.splits)+
qed

lemma sent_to_filter:
  assumes "distinct (map fst prs)"
  shows "sent_to p (map (\<lambda>(q, i). (q, v)) (filter (\<lambda>(q, i). P q) prs)) =
    (if p \<in> fst ` set prs \<and> P p then [v] else [])"
  using assms
proof (induction prs)
  case (Cons pr prs)
  obtain q i where pr: "pr = (q, i)" by (cases pr)
  from Cons have "sent_to p (map (\<lambda>(q, i). (q, v)) (filter (\<lambda>(q, i). P q) prs)) =
      (if p \<in> fst ` set prs \<and> P p then [v] else [])" "q \<notin> fst ` set prs"
    by (simp_all add: pr)
  then show ?case by (auto simp: pr sent_to_def)
qed (simp add: sent_to_def)

text \<open>Packets that tell nothing about the devices and addresses.\<close>

definition mute :: "val \<Rightarrow> bool" where
  "mute v \<longleftrightarrow> (\<forall>ds. follow_devices v ds = ds) \<and> (\<forall>d ms. follow_macs d v ms = ms)"

lemma fold_mute:
  "\<forall>v \<in> set vs. mute v \<Longrightarrow> fold follow_devices vs ds = ds"
  "\<forall>v \<in> set vs. mute v \<Longrightarrow> fold (follow_macs d) vs ms = ms"
  by (induction vs arbitrary: ds ms) (auto simp: mute_def)

lemma mute_packets [simp]:
  "key v = ''response'' \<Longrightarrow> mute v" "mute (stream_disabled d)" "mute (hello s)"
  "mute (Value ''info'' ''keepalive'' [])"
  by (auto simp: mute_def follow_devices_def follow_macs_def stream_disabled_def hello_def add_sub_def
      add_kv_def sub_value_def split: option.splits)

lemma sent_to_mute: "\<forall>(q, v) \<in> set outs. mute v \<Longrightarrow> \<forall>v \<in> set (sent_to p outs). mute v"
  by (auto simp: sent_to_def)

text \<open>One event: a connected client follows the devices, and the addresses on a device if it has a stream.\<close>

lemma event_follows:
  assumes h: "handle_event env ev dm = Inr dm'" and d: "distinct (map fst (sv_served (dm_server dm)))"
    and p: "p \<in> fst ` set (sv_served (dm_server dm))"
  shows "\<exists>outs. sv_out (dm_server dm') = sv_out (dm_server dm) @ outs \<and>
    fold follow_devices (sent_to p outs) (fst vw) = fst (apply_event ev vw) \<and>
    ((p, dv) \<in> set (dm_streams dm') \<longrightarrow>
      fold (follow_macs dv) (sent_to p outs) (on_device dv vw) = on_device dv (apply_event ev vw))"
proof -
  from handle_event_Inr [OF h] obtain v d' where
      k: "event_packet env ev (dm_network dm) = Inr (v, d')"
      "dm' = tell d' v (if event_type ev = DeviceRemoved then end_streams (event_deviceName ev) dm else dm)"
    by blast
  define dm1 where "dm1 = (if event_type ev = DeviceRemoved then end_streams (event_deviceName ev) dm else dm)"
  note l = event_packet_laws [OF k(1)] and f = packet_follows [OF k(1)]
  define o1 where "o1 = (if event_type ev = DeviceRemoved
    then map (\<lambda>s. (fst s, stream_disabled (event_deviceName ev)))
           (filter (\<lambda>s. snd s = event_deviceName ev) (dm_streams dm)) else [])"
  define o2 where "o2 = map (\<lambda>(q, i). (q, v)) (filter (\<lambda>(q, i). d' = [] \<or> streamEnabled q d' dm1)
    (sv_served (dm_server dm)))"
  have out: "sv_out (dm_server dm') = sv_out (dm_server dm) @ o1 @ o2"
    and st: "dm_streams dm' = dm_streams dm1"
    unfolding k(2) o1_def o2_def dm1_def by (simp_all add: tell_eq end_streams_eq)
  have "\<forall>v \<in> set (sent_to p o1). mute v" by (rule sent_to_mute) (auto simp: o1_def)
  note m = fold_mute [OF this]
  have s: "sent_to p o2 = (if d' = [] \<or> streamEnabled p d' dm1 then [v] else [])"
    unfolding o2_def using sent_to_filter [OF d, of p v "\<lambda>q. d' = [] \<or> streamEnabled q d' dm1"] p by simp
  have "fst (apply_event ev vw) = fst vw" if "d' \<noteq> []"
    using that l(2) by (cases vw; cases ev; cases "ev_type (event_base ev)") (auto simp: event_type_def)
  then have 1: "fold follow_devices (sent_to p (o1 @ o2)) (fst vw) = fst (apply_event ev vw)"
    using f(1) by (auto simp: s m)
  have "fold (follow_macs dv) (sent_to p (o1 @ o2)) (on_device dv vw) = on_device dv (apply_event ev vw)"
    if "(p, dv) \<in> set (dm_streams dm')"
  proof (cases "on_device dv (apply_event ev vw) = on_device dv vw")
    case True
    then show ?thesis using f(2) [of dv vw] by (auto simp: s m)
  next
    case False
    from f(3) [OF this] that st have "streamEnabled p d' dm1" by (simp add: streamEnabled_def)
    then show ?thesis using f(2) [of dv vw] by (simp add: s m)
  qed
  with out 1 show ?thesis by blast
qed

text \<open>All events of a cycle.\<close>

lemma events_follow:
  assumes "fold_r (handle_event env) evs dm = Inr dm'" "distinct (map fst (sv_served (dm_server dm)))"
    "p \<in> fst ` set (sv_served (dm_server dm))"
  shows "\<exists>outs. sv_out (dm_server dm') = sv_out (dm_server dm) @ outs \<and>
    fold follow_devices (sent_to p outs) (fst vw) = fst (replay evs vw) \<and>
    ((p, d) \<in> set (dm_streams dm') \<longrightarrow>
      fold (follow_macs d) (sent_to p outs) (on_device d vw) = on_device d (replay evs vw))"
  using assms
proof (induction evs arbitrary: dm vw)
  case Nil
  then show ?case by (simp add: replay_def sent_to_def)
next
  case (Cons ev evs)
  from Cons.prems(1) obtain dm1 where
      1: "handle_event env ev dm = Inr dm1" "fold_r (handle_event env) evs dm1 = Inr dm'"
    by (auto simp: bind_r_Inr_iff)
  from event_follows [OF 1(1) Cons.prems(2,3), of vw d] obtain o1 where
      o1: "sv_out (dm_server dm1) = sv_out (dm_server dm) @ o1"
        "fold follow_devices (sent_to p o1) (fst vw) = fst (apply_event ev vw)"
        "(p, d) \<in> set (dm_streams dm1) \<Longrightarrow>
          fold (follow_macs d) (sent_to p o1) (on_device d vw) = on_device d (apply_event ev vw)" by blast
  have "sv_served (dm_server dm1) = sv_served (dm_server dm)" using handle_event_frame(5) [OF 1(1)] by auto
  with Cons.IH [OF 1(2), of "apply_event ev vw"] Cons.prems(2,3) obtain o2 where
      o2: "sv_out (dm_server dm') = sv_out (dm_server dm1) @ o2"
        "fold follow_devices (sent_to p o2) (fst (apply_event ev vw)) = fst (replay evs (apply_event ev vw))"
        "(p, d) \<in> set (dm_streams dm') \<Longrightarrow> fold (follow_macs d) (sent_to p o2) (on_device d (apply_event ev vw)) =
          on_device d (replay evs (apply_event ev vw))" by auto
  have "set (dm_streams dm') \<subseteq> set (dm_streams dm1)"
    using events_frameD [OF 1(2)] by (auto simp: events_frame_def)
  with o1 o2 show ?case by (intro exI [of _ "o1 @ o2"]) (auto simp: replay_def)
qed

text \<open>One cycle: what is sent to a client that is still connected at its end.\<close>

lemma answers_mute: "answers qs outs \<Longrightarrow> \<forall>(q, v) \<in> set outs. mute v"
  by (auto simp: answers_def list_all2_conv_all_nth in_set_conv_nth split: prod.splits)

lemma cycle_stages:
  assumes env: "env_ok (de_net env)" and ready: "daemon_ready dm" and c: "daemon_cycle env dm = Inr (True, dm')"
  obtains evs qs dmq dm1 dm2 o1 o2 o4 where
    "sv_out (dm_server dmq) = sv_out (dm_server dm) @ o1" "\<forall>(q, v) \<in> set o1. \<exists>n. v = hello n"
    "fold_r (handle_request (de_net env)) qs dmq = Inr dm1" "view_of (dm_network dmq) = view_of (dm_network dm')"
    "sv_out (dm_server dm1) = sv_out (dm_server dmq) @ o2" "answers qs o2"
    "fold_r (handle_event (de_net env)) evs dm1 = Inr dm2"
    "replay evs (view_of (dm_network dm)) = view_of (dm_network dm')"
    "sv_served (dm_server dm1) = sv_served (dm_server dm')" "distinct (map fst (sv_served (dm_server dm')))"
    "dm_streams dm2 = dm_streams dm'"
    "sv_out (dm_server dm') = sv_out (dm_server dm2) @ o4" "\<forall>(q, v) \<in> set o4. v = Value ''info'' ''keepalive'' []"
proof -
  from c obtain nw sv dm1 dm2 ds where s: "cycle (de_net env) (dm_network dm) = Inr (True, nw)"
      "server_cycle (de_sock env) (dm_server dm) = Inr (True, sv)"
      "handle_queue (de_net env) (received_state nw sv dm) = Inr dm1"
      "fold_r (handle_event (de_net env)) (m_lstEvents (dm_network dm1)) dm1 = Inr dm2"
      "dm' = keepalive (de_net env) (dm2\<lparr>dm_discovery := ds\<rparr>)"
    by (auto elim: daemon_cycle_True)
  let ?dmq = "(received_state nw sv dm)\<lparr>dm_server := (dm_server (received_state nw sv dm))\<lparr>sv_queue := []\<rparr>\<rparr>"
  let ?qs = "sv_queue (dm_server (received_state nw sv dm))"
  have inv: "net_inv (dm_network dm)" "server_inv (dm_server dm)"
    using ready by (simp_all add: daemon_ready_def daemon_inv_def)
  have nw: "net_inv nw" by (rule cycle_inv [OF env inv(1) s(1)])
  have "\<forall>q \<in> set ?qs. qv_served q \<in> fst ` set (sv_served (dm_server (received_state nw sv dm)))"
    using received_state_inv(2) [OF ready nw s(2)] by (simp add: received_state_def handle_removed_eq)
  note ok = handle_queue_ok [OF env s(3) this]
  have q: "view_of (dm_network dm1) = view_of nw" "m_lstEvents (dm_network dm1) = m_lstEvents nw"
      "sv_served (dm_server dm1) = sv_served sv"
    using ok by (simp_all add: answers_ok_def net_same_def received_state_def handle_removed_eq)
  from events_frameD [OF s(4)] have fr: "dm_network dm2 = dm_network dm1"
      "sv_served (dm_server dm2) = sv_served (dm_server dm1)" "dm_streams dm' = dm_streams dm2"
    by (auto simp: events_frame_def s(5) keepalive_frame)
  have end_view: "view_of (dm_network dm') = view_of nw" by (simp add: s(5) keepalive_frame fr q)
  have served: "sv_served (dm_server dm') = sv_served sv" by (simp add: s(5) keepalive_frame fr q)
  from server_cycle_served(3) [OF inv(2) s(2)] obtain new :: "(served_ptr \<times> int) list" where
      o1: "sv_out sv = sv_out (dm_server dm) @ map (\<lambda>(p, i). (p, hello (sv_serverName (dm_server dm)))) new" by blast
  have requests: "fold_r (handle_request (de_net env)) ?qs ?dmq = Inr dm1"
    using s(3) by (simp add: handle_queue_eq)
  from fold_requests_answers [OF env this] obtain o2 where
      o2: "sv_out (dm_server dm1) = sv_out (dm_server ?dmq) @ o2" "answers ?qs o2" by blast
  show thesis
  proof (rule that [of ?dmq "map (\<lambda>(p, i). (p, hello (sv_serverName (dm_server dm)))) new" ?qs dm1 o2
        "m_lstEvents nw" dm2 "if dm_lastKeepAlive dm2 + dm_keepAliveInterval dm2 < clock (de_net env) (nw_readings (dm_network dm2))
          then map (\<lambda>(p, i). (p, Value ''info'' ''keepalive'' [])) (sv_served (dm_server dm2)) else []"])
    show "sv_out (dm_server ?dmq) = sv_out (dm_server dm) @ map (\<lambda>(p, i). (p, hello (sv_serverName (dm_server dm)))) new"
      using o1 by (simp add: received_state_def handle_removed_eq)
    show "view_of (dm_network ?dmq) = view_of (dm_network dm')"
      by (simp add: end_view received_state_def handle_removed_eq)
    show "replay (m_lstEvents nw) (view_of (dm_network dm)) = view_of (dm_network dm')"
      by (simp add: end_view cycle_explains [OF env inv(1) s(1)])
    show "distinct (map fst (sv_served (dm_server dm')))"
      using server_cycle_inv [OF inv(2) s(2)] by (simp add: served server_inv_def)
  qed (use s(4) o2 requests in \<open>auto simp: q fr served s(5) keepalive_eq Let_def split: if_splits\<close>)
qed

lemma cycle_follow:
  assumes env: "env_ok (de_net env)" and ready: "daemon_ready dm" and c: "daemon_cycle env dm = Inr (True, dm')"
    and p: "p \<in> fst ` set (sv_served (dm_server dm'))"
  shows "\<exists>outs. sv_out (dm_server dm') = sv_out (dm_server dm) @ outs \<and>
    fold follow_devices (sent_to p outs) (fst (view_of (dm_network dm))) = fst (view_of (dm_network dm')) \<and>
    ((p, d) \<in> set (dm_streams dm') \<longrightarrow>
      fold (follow_macs d) (sent_to p outs) (on_device d (view_of (dm_network dm))) =
        on_device d (view_of (dm_network dm')))"
proof -
  obtain evs qs dmq dm1 dm2 o1 o2 o4 where g:
    "sv_out (dm_server dmq) = sv_out (dm_server dm) @ o1" "\<forall>(q, v) \<in> set o1. \<exists>n. v = hello n"
    "fold_r (handle_request (de_net env)) qs dmq = Inr dm1" "view_of (dm_network dmq) = view_of (dm_network dm')"
    "sv_out (dm_server dm1) = sv_out (dm_server dmq) @ o2" "answers qs o2"
    "fold_r (handle_event (de_net env)) evs dm1 = Inr dm2"
    "replay evs (view_of (dm_network dm)) = view_of (dm_network dm')"
    "sv_served (dm_server dm1) = sv_served (dm_server dm')" "distinct (map fst (sv_served (dm_server dm')))"
    "dm_streams dm2 = dm_streams dm'"
    "sv_out (dm_server dm') = sv_out (dm_server dm2) @ o4" "\<forall>(q, v) \<in> set o4. v = Value ''info'' ''keepalive'' []"
    by (rule cycle_stages [OF env ready c])
  from events_follow [OF g(7), of p "view_of (dm_network dm)" d] g(8-11) p obtain o3 where
      o3: "sv_out (dm_server dm2) = sv_out (dm_server dm1) @ o3"
        "fold follow_devices (sent_to p o3) (fst (view_of (dm_network dm))) = fst (view_of (dm_network dm'))"
        "(p, d) \<in> set (dm_streams dm') \<Longrightarrow> fold (follow_macs d) (sent_to p o3) (on_device d (view_of (dm_network dm))) =
          on_device d (view_of (dm_network dm'))"
    by auto
  have m1: "\<forall>v \<in> set (sent_to p (o1 @ o2)). mute v"
    using answers_mute [OF g(6)] g(2) by (intro sent_to_mute) fastforce
  have m2: "\<forall>v \<in> set (sent_to p o4). mute v" using g(13) by (intro sent_to_mute) fastforce
  show ?thesis
    using g(1,5,12) o3 fold_mute [OF m1] fold_mute [OF m2]
    by (intro exI [of _ "o1 @ o2 @ o3 @ o4"]) simp
qed

lemma daemon_cycle_served:
  assumes env: "env_ok (de_net env)" and ready: "daemon_ready dm" and c: "daemon_cycle env dm = Inr (True, dm')"
  shows "\<exists>sv. server_cycle (de_sock env) (dm_server dm) = Inr (True, sv) \<and> sv_served (dm_server dm') = sv_served sv"
proof -
  from c obtain nw sv dm1 dm2 ds where s: "cycle (de_net env) (dm_network dm) = Inr (True, nw)"
      "server_cycle (de_sock env) (dm_server dm) = Inr (True, sv)"
      "handle_queue (de_net env) (received_state nw sv dm) = Inr dm1"
      "fold_r (handle_event (de_net env)) (m_lstEvents (dm_network dm1)) dm1 = Inr dm2"
      "dm' = keepalive (de_net env) (dm2\<lparr>dm_discovery := ds\<rparr>)"
    by (auto elim: daemon_cycle_True)
  have "net_inv nw" using ready cycle_inv [OF env _ s(1)] by (simp add: daemon_ready_def daemon_inv_def)
  from received_state_inv(2) [OF ready this s(2)] have
    "\<forall>q \<in> set (sv_queue (dm_server (received_state nw sv dm))).
      qv_served q \<in> fst ` set (sv_served (dm_server (received_state nw sv dm)))"
    by (simp add: received_state_def handle_removed_eq)
  from handle_queue_ok [OF env s(3) this] events_frameD [OF s(4)] s(2) show ?thesis
    by (auto simp: answers_ok_def events_frame_def s(5) keepalive_frame received_state_def handle_removed_eq)
qed

section \<open>A cycle does not fault\<close>

lemma event_packet_total:
  assumes "net_inv nw" "announced S nw" "ev \<in> set (m_lstEvents nw)"
  shows "\<exists>v d. event_packet env ev nw = Inr (v, d)"
proof -
  have ok: "event_ok ev" using assms(1,3) by (simp add: net_inv_def)
  from assms(2,3) consider (ordinary) "ordinary ev"
    | (removed) "event_type ev = DeviceRemoved"
    | (added) "event_type ev = DeviceAdded" "event_deviceName ev \<in> set (device_names nw)"
    by (auto simp: announced_def)
  then show ?thesis
  proof cases
    case ordinary
    have v: "length m = 17 \<Longrightarrow> \<exists>s. network_vendorForMAC m nw = Inr s" for m by (rule vendor_total)
    from ordinary ok show ?thesis
      by (cases ev; cases "ev_type (event_base ev)";
          auto simp: event_packet_def ordinary_def event_ok_def event_type_def Let_def dest: v)
  next
    case removed
    then show ?thesis by (simp add: event_packet_def Let_def event_type_def)
  next
    case added
    then obtain dv where "knownDevice (event_deviceName ev) nw = Some dv"
      using knownDevice_None_iff by fastforce
    with added show ?thesis
      by (simp add: event_packet_def Let_def event_type_def event_deviceName_def deviceHardwareType_def)
  qed
qed

lemma handle_event_total:
  assumes "net_inv (dm_network dm)" "announced S (dm_network dm)" "ev \<in> set (m_lstEvents (dm_network dm))"
  shows "\<exists>dm'. handle_event env ev dm = Inr dm'"
  using event_packet_total [OF assms, of env] by (auto simp: handle_event_def Let_def end_streams_eq)

lemma fold_events_total:
  assumes "net_inv nw" "announced S nw" "set evs \<subseteq> set (m_lstEvents nw)" "dm_network dm = nw"
  shows "\<exists>dm'. fold_r (handle_event env) evs dm = Inr dm'"
  using assms(3,4)
proof (induction evs arbitrary: dm)
  case (Cons ev evs)
  with assms handle_event_total [of dm S ev env] obtain dm1 where 1: "handle_event env ev dm = Inr dm1" by auto
  with Cons handle_event_frame(1) [OF 1] show ?case by simp
qed simp

lemma fold_requests_discovery:
  assumes "env_ok env" "fold_r (handle_request env) qs dm = Inr dm'"
  shows "dm_discovery dm' = dm_discovery dm"
  using assms(2)
proof (induction qs arbitrary: dm)
  case (Cons q qs)
  then obtain dm1 where 1: "handle_request env q dm = Inr dm1" "fold_r (handle_request env) qs dm1 = Inr dm'"
    by (auto simp: bind_r_Inr_iff)
  with Cons.IH [OF 1(2)] handle_request_Inr [OF 1(1)] answer_laws(5) [OF assms(1)] show ?case by fastforce
qed simp

text \<open>What a client may send: complete packets that are requests, or nothing.\<close>

definition clients_ask :: "sock_env \<Rightarrow> server \<Rightarrow> bool" where
  "clients_ask env sv \<longleftrightarrow>
     (\<forall>pr \<in> set (sv_served (listening env sv)).
        \<exists>v pe. client_receive env (sv_heap (listening env sv)) (fst pr) = Inr (v, pe) \<and>
          (case v of None \<Rightarrow> True | Some w \<Rightarrow> key w = ''request''))"

lemma daemon_cycle_runs:
  assumes env: "env_ok (de_net env)" and ready: "daemon_ready dm"
    and pats: "patterns_ok (de_net env) (dm_network dm)"
    and ask: "clients_ask (de_sock env) (dm_server dm)"
    and disc: "discovery_cycle (de_stale env) (de_multicast env) (junk_of (de_sock env)) (dm_discovery dm) = Inr rd"
  shows "\<exists>dm'. daemon_cycle env dm =
    Inr (m_bShouldRun (dm_network dm) \<and> sv_run (dm_server dm), dm')"
proof -
  from ready have inv: "net_inv (dm_network dm)" "server_inv (dm_server dm)" "sv_queue (dm_server dm) = []"
    by (simp_all add: daemon_ready_def daemon_inv_def)
  from cycle_runs [OF env inv(1) pats] obtain nw where
      nw: "cycle (de_net env) (dm_network dm) = Inr (m_bShouldRun (dm_network dm), nw)" by blast
  let ?S = "- set (systemDeviceNames (de_net env) (dm_network dm))"
  have nwi: "net_inv nw" "announced ?S nw"
    using cycle_inv [OF env inv(1) nw] cycle_announced [OF env inv(1) nw] by blast+
  show ?thesis
  proof (cases "m_bShouldRun (dm_network dm) \<and> sv_run (dm_server dm)")
    case False
    then show ?thesis using nw by (auto simp: daemon_cycle_def Let_def server_cycle_eq)
  next
    case True
    have "\<forall>pr \<in> set (sv_served (listening (de_sock env) (dm_server dm))).
        \<exists>r. client_receive (de_sock env) (sv_heap (listening (de_sock env) (dm_server dm))) (fst pr) = Inr r"
      using ask by (auto simp: clients_ask_def)
    from server_cycle_Inr [OF inv(2) _ this] True obtain sv where
        sv: "server_cycle (de_sock env) (dm_server dm) = Inr (True, sv)"
        "sv_queue sv = concat (map (got (de_sock env) (sv_heap (listening (de_sock env) (dm_server dm))))
          (sv_served (listening (de_sock env) (dm_server dm))))"
      using inv(3) by auto
    let ?r = "received_state nw sv dm"
    let ?qd = "?r\<lparr>dm_server := (dm_server ?r)\<lparr>sv_queue := []\<rparr>\<rparr>"
    note r = received_state_inv [OF ready nwi(1) sv(1)]
    have "key (qv_value q) = ''request''" if "q \<in> set (sv_queue sv)" for q
      using that ask
      by (fastforce simp: sv(2) clients_ask_def got_def split: sum.splits option.splits prod.splits)
    moreover have "daemon_inv ?qd" using r(1) by (simp add: daemon_inv_def server_inv_def)
    ultimately obtain dm1 where q: "fold_r (handle_request (de_net env)) (sv_queue sv) ?qd = Inr dm1"
      using fold_requests_total [OF env, of ?qd "sv_queue sv"] r(2)
      by (auto simp: received_state_def handle_removed_eq)
    have "sv_queue (dm_server ?r) = sv_queue sv" by (simp add: received_state_def handle_removed_eq)
    with q have h: "handle_queue (de_net env) ?r = Inr dm1" by (simp add: handle_queue_eq)
    have "answers_ok ?qd dm1"
      using r(2) by (intro answering.fold_r_inv [OF answers_ok_refl _ q])
        (simp add: env received_state_def handle_removed_eq)
    then have ns: "net_same nw (dm_network dm1)"
      by (simp add: answers_ok_def received_state_def handle_removed_eq)
    have d1: "dm_discovery dm1 = dm_discovery dm"
      using fold_requests_discovery [OF env q] by (simp add: received_state_def handle_removed_eq)
    have "net_inv (dm_network dm1)" "announced ?S (dm_network dm1)"
      using ns nwi by (auto simp: net_same_def announced_def view_of_def device_names_def)
    from fold_events_total [OF this order_refl refl] obtain dm2 where
        e: "fold_r (handle_event (de_net env)) (m_lstEvents (dm_network dm1)) dm1 = Inr dm2" by blast
    have "dm_discovery dm2 = dm_discovery dm" using events_frameD [OF e] d1 by (simp add: events_frame_def)
    with True nw sv(1) h e disc show ?thesis
      by (cases rd) (simp add: daemon_cycle_def Let_def received_state_def handle_discovery_def)
  qed
qed


section \<open>A cycle of a daemon with two clients\<close>

text \<open>
  Client 0 asks for the devices and has a stream of \<open>eth0\<close>, client 1 has closed its connection. The
  system has lost the device \<open>eth1\<close>, the address on \<open>eth0\<close> has expired, and a packet comes from another.
\<close>

definition sample_ready :: daemon where
  "sample_ready = sample_daemon\<lparr>dm_server := sample_server\<rparr>"

definition sample_daemon_env :: daemon_env where
  "sample_daemon_env = \<lparr>de_net = sample_env, de_sock = sample_sock, de_multicast = (\<lambda>n. RecvError True), de_stale = False\<rparr>"

lemma sample_parts [simp]:
  "de_net sample_daemon_env = sample_env" "de_sock sample_daemon_env = sample_sock"
  "de_multicast sample_daemon_env = (\<lambda>n. RecvError True)" "de_stale sample_daemon_env = False"
  "dm_network sample_ready = sample_net" "dm_server sample_ready = sample_server"
  "dm_streams sample_ready = [(0, ''eth0''), (1, ''eth1'')]"
  "sv_served sample_server = [(0, 0), (1, 0)]" "sv_out sample_server = []"
  by (simp_all add: sample_daemon_env_def sample_ready_def sample_daemon_def sample_server_def new_server_def)

lemma sample_ready_ok [simp]: "daemon_ready sample_ready"
  by (simp add: daemon_ready_def daemon_inv_def) (simp add: sample_server_def new_server_def)

lemma sample_ask: "clients_ask sample_sock sample_server"
  using sample_receive by (auto simp: clients_ask_def sample_listening sample_request_def)

lemma sample_discovery:
  "\<exists>rd. discovery_cycle False (\<lambda>n. RecvError True) (junk_of sample_sock) (dm_discovery sample_ready) = Inr rd"
  using discovery_idle_fails [of "\<lambda>n. RecvError True" False "junk_of sample_sock" "dm_discovery sample_ready"] by blast

lemma sample_cycle: "\<exists>dm'. daemon_cycle sample_daemon_env sample_ready = Inr (True, dm')"
proof -
  from sample_discovery obtain rd where
    "discovery_cycle False (\<lambda>n. RecvError True) (junk_of sample_sock) (dm_discovery sample_ready) = Inr rd" ..
  moreover have "m_bShouldRun sample_net" by (simp add: sample_net_def)
  ultimately show ?thesis
    using daemon_cycle_runs [of sample_daemon_env sample_ready rd] sample_ask sample_server_run by simp
qed


lemma sample_served:
  assumes "daemon_cycle sample_daemon_env sample_ready = Inr (True, dm')"
  shows "sv_served (dm_server dm') = [(0, 0)]"
proof -
  from daemon_cycle_served [OF _ sample_ready_ok assms] obtain sv where
      sv: "server_cycle sample_sock sample_server = Inr (True, sv)" "sv_served (dm_server dm') = sv_served sv" by auto
  have "\<not> failed sample_sock (sv_heap sample_server) 0" "failed sample_sock (sv_heap sample_server) 1"
    using sample_receive by (simp_all add: failed_def failureState_def)
  with server_cycle_Inr [OF sample_server_inv sample_server_run sample_receives] sv sample_listening show ?thesis
    by auto
qed

section \<open>Properties of the daemon\<close>

theorem daemon_invariant_witness:
  "net_inv (dm_network (daemon_shutdown (new_daemon ''attic'' sample_new 12)))"
proof -
  have "new_network 3 True None (\<lambda>f. None) = Inr sample_new"
    by (simp add: new_network_def readVendors_def tryReadVendors_def sample_new_def)
  from at_step [OF at_start [OF this] do_shutdown] have
    "daemon_reachable (daemon_shutdown (new_daemon ''attic'' sample_new 12))" .
  with daemon_invariant show ?thesis by blast
qed

text \<open>Whoever stays connected knows which devices the daemon observes. Started from the names of the
  devices before a cycle, the device-added and device-removed packets the client is sent in this cycle,
  applied in order, give the names of the devices after it.\<close>

theorem client_follows_devices:
  assumes "env_ok (de_net env)" "daemon_ready dm" "daemon_cycle env dm = Inr (True, dm')"
    "p \<in> fst ` set (sv_served (dm_server dm'))"
  shows "\<exists>outs. sv_out (dm_server dm') = sv_out (dm_server dm) @ outs \<and>
    fold follow_devices (sent_to p outs) (m_strDeviceName ` set (m_lstDevices (dm_network dm))) =
      m_strDeviceName ` set (m_lstDevices (dm_network dm'))"
  using cycle_follow [OF assms, of "[]"] by (auto simp: view_of_def)

theorem client_follows_devices_witness:
  "\<exists>dm' outs. daemon_cycle sample_daemon_env sample_ready = Inr (True, dm') \<and> sv_out (dm_server dm') = outs \<and>
     fold follow_devices (sent_to 0 outs) {''eth0'', ''eth1''} = m_strDeviceName ` set (m_lstDevices (dm_network dm'))"
proof -
  from sample_cycle obtain dm' where c: "daemon_cycle sample_daemon_env sample_ready = Inr (True, dm')" ..
  have "m_strDeviceName ` set (m_lstDevices sample_net) = {''eth0'', ''eth1''}"
    using sample_view by (simp add: view_of_def)
  with client_follows_devices [OF _ sample_ready_ok c, of 0] sample_served [OF c] c show ?thesis by auto
qed

text \<open>And whoever has a stream of a device knows the addresses on it: from the addresses recorded for the
  device before a cycle, the mac-address-discovered and mac-address-disappeared packets the client is sent,
  applied in order, give those recorded after it, provided the stream has not ended in this cycle.\<close>

theorem client_follows_addresses:
  assumes "env_ok (de_net env)" "daemon_ready dm" "daemon_cycle env dm = Inr (True, dm')"
    "p \<in> fst ` set (sv_served (dm_server dm'))" "(p, d) \<in> set (dm_streams dm')"
  shows "\<exists>outs. sv_out (dm_server dm') = sv_out (dm_server dm) @ outs \<and>
    fold (follow_macs d) (sent_to p outs) {m. (m, d) \<in> set (seen_pairs (m_lstMACSeen (dm_network dm)))} =
      {m. (m, d) \<in> set (seen_pairs (m_lstMACSeen (dm_network dm')))}"
  using cycle_follow [OF assms(1-4), of d] assms(5) by (auto simp: view_of_def on_device_def)

section \<open>Streams\<close>

lemma handle_request_stream:
  assumes "handle_request env q dm = Inr dm'" "(p, d) \<in> set (dm_streams dm)"
    "qv_served q = p \<longrightarrow> content (qv_value q) \<noteq> ''disable-stream''"
  shows "(p, d) \<in> set (dm_streams dm')"
proof -
  from handle_request_Inr [OF assms(1)] obtain here w dm1 where
      a: "answer env (qv_served q) here (qv_value q) dm = Inr (w, dm1)" "dm_streams dm' = dm_streams dm1" by auto
  have en: "(p, d) \<in> set (dm_streams (snd (answer_enable (qv_served q) here (qv_value q) dm)))"
    using assms(2) by (auto simp: answer_enable_def enableStream_def split: option.splits)
  have di: "(p, d) \<in> set (dm_streams (snd (answer_disable (qv_served q) here (qv_value q) dm)))"
    if "qv_served q \<noteq> p"
    using assms(2) that
    by (auto simp: answer_disable_def disableStream_def split: option.splits dest!: erase_first_SomeD)
  have "(p, d) \<in> set (dm_streams dm1)"
    using a(1) assms(2,3) en di
    by (auto simp: answer_def Let_def bind_r_Inr_iff split: if_splits prod.splits)
  with a(2) show ?thesis by simp
qed

interpretation streaming: preserving_r
    "\<lambda>q. qv_served q = p \<longrightarrow> content (qv_value q) \<noteq> ''disable-stream''"
    "\<lambda>dm. (p, d) \<in> set (dm_streams dm)" "handle_request env"
  for p d env
  by unfold_locales (rule handle_request_stream)

interpretation announcing_streams: preserving_r
    "\<lambda>ev. \<not> (event_type ev = DeviceRemoved \<and> event_deviceName ev = d)"
    "\<lambda>dm. (p, d) \<in> set (dm_streams dm)" "handle_event env"
  for p d env
  by unfold_locales (auto simp: handle_event_frame(6))

lemma stream_stays:
  assumes env: "env_ok (de_net env)" and ready: "daemon_ready dm" and c: "daemon_cycle env dm = Inr (True, dm')"
    and s: "(p, d) \<in> set (dm_streams dm)" and p: "p \<in> fst ` set (sv_served (dm_server dm'))"
    and d: "d \<in> set (systemDeviceNames (de_net env) (dm_network dm))"
    and sv: "server_cycle (de_sock env) (dm_server dm) = Inr (True, sv)"
    and q: "\<forall>q \<in> set (sv_queue sv). qv_served q = p \<longrightarrow> content (qv_value q) \<noteq> ''disable-stream''"
  shows "(p, d) \<in> set (dm_streams dm')"
proof -
  obtain nw sv' dm1 dm2 ds where c': "cycle (de_net env) (dm_network dm) = Inr (True, nw)"
      "server_cycle (de_sock env) (dm_server dm) = Inr (True, sv')"
      "handle_queue (de_net env) (received_state nw sv' dm) = Inr dm1"
      "fold_r (handle_event (de_net env)) (m_lstEvents (dm_network dm1)) dm1 = Inr dm2"
      "dm' = keepalive (de_net env) (dm2\<lparr>dm_discovery := ds\<rparr>)"
    by (rule daemon_cycle_True [OF c])
  have e: "sv' = sv" using c'(2) sv by simp
  note c = c'(1) c'(3) [unfolded e] c'(4) c'(5)
  have inv: "net_inv (dm_network dm)" "server_inv (dm_server dm)"
    using ready by (simp_all add: daemon_ready_def daemon_inv_def)
  have nw: "net_inv nw" by (rule cycle_inv [OF env inv(1) c(1)])
  have "sv_queue (dm_server (received_state nw sv dm)) = sv_queue sv"
    "sv_served (dm_server (received_state nw sv dm)) = sv_served sv"
    by (simp_all add: received_state_def handle_removed_eq)
  then have served: "\<forall>q \<in> set (sv_queue (dm_server (received_state nw sv dm))).
      qv_served q \<in> fst ` set (sv_served (dm_server (received_state nw sv dm)))"
    and qs: "\<forall>q \<in> set (sv_queue (dm_server (received_state nw sv dm))).
      qv_served q = p \<longrightarrow> content (qv_value q) \<noteq> ''disable-stream''"
    using received_state_inv(2) [OF ready nw sv] q by simp_all
  note ok = handle_queue_ok [OF env c(2) served]
  have ev: "m_lstEvents (dm_network dm1) = m_lstEvents nw" and sd: "sv_served (dm_server dm1) = sv_served sv"
    using ok by (simp_all add: answers_ok_def net_same_def received_state_def handle_removed_eq)
  have "p \<in> fst ` set (sv_served sv)"
    using p events_frameD [OF c(3)] by (auto simp: c(4) keepalive_frame events_frame_def sd)
  then have "p \<notin> set (sv_removed sv)"
    using server_cycle_inv [OF inv(2) sv] by (auto simp: server_inv_def)
  with s have "(p, d) \<in> set (dm_streams ((received_state nw sv dm)\<lparr>dm_server :=
      (dm_server (received_state nw sv dm))\<lparr>sv_queue := []\<rparr>\<rparr>))"
    by (simp add: received_state_def handle_removed_eq)
  from streaming.fold_r_inv [OF this qs] c(2) have "(p, d) \<in> set (dm_streams dm1)"
    by (simp add: handle_queue_eq)
  moreover have "\<forall>ev \<in> set (m_lstEvents nw). \<not> (event_type ev = DeviceRemoved \<and> event_deviceName ev = d)"
  proof
    fix ev assume "ev \<in> set (m_lstEvents nw)"
    with cycle_announced [OF env inv(1) c(1)] have "ordinary ev \<or> event_type ev = DeviceAdded \<or>
        event_deviceName ev \<notin> set (systemDeviceNames (de_net env) (dm_network dm))"
      unfolding announced_def by blast
    with d show "\<not> (event_type ev = DeviceRemoved \<and> event_deviceName ev = d)" by (auto simp: ordinary_def)
  qed
  ultimately have "(p, d) \<in> set (dm_streams dm2)"
    using c(3) unfolding ev by (rule announcing_streams.fold_r_inv)
  then show ?thesis by (simp add: c(4) keepalive_frame)
qed

lemma sample_queue:
  "\<exists>sv. server_cycle sample_sock sample_server = Inr (True, sv) \<and>
     sv_queue sv = [\<lparr>qv_value = sample_request, qv_served = 0, qv_servingID = 0\<rparr>]"
proof -
  from server_cycle_Inr [OF sample_server_inv sample_server_run sample_receives] obtain sv where
      sv: "server_cycle sample_sock sample_server = Inr (True, sv)"
      "sv_queue sv = sv_queue sample_server @
        concat (map (got sample_sock (sv_heap sample_server)) [(0, 0), (1, 0)])"
    using sample_listening by auto
  have "sv_queue sv = [\<lparr>qv_value = sample_request, qv_served = 0, qv_servingID = 0\<rparr>]"
    using sample_receive unfolding sv(2) by (simp add: got_def) (simp add: sample_server_def new_server_def)
  with sv show ?thesis by blast
qed

lemma sample_stream:
  assumes "daemon_cycle sample_daemon_env sample_ready = Inr (True, dm')"
  shows "(0, ''eth0'') \<in> set (dm_streams dm')"
proof -
  from sample_queue obtain sv where sv: "server_cycle sample_sock sample_server = Inr (True, sv)"
      "sv_queue sv = [\<lparr>qv_value = sample_request, qv_served = 0, qv_servingID = 0\<rparr>]" by blast
  have "''eth0'' \<in> set (systemDeviceNames sample_env sample_net)"
    by (simp add: systemDeviceNames_def sample_env_def sample_net_def)
  with stream_stays [OF _ sample_ready_ok assms, of 0 "''eth0''" sv] sv sample_served [OF assms]
  show ?thesis by (simp add: sample_request_def)
qed

theorem client_follows_addresses_witness:
  "\<exists>dm' outs. daemon_cycle sample_daemon_env sample_ready = Inr (True, dm') \<and> sv_out (dm_server dm') = outs \<and>
     fold (follow_macs ''eth0'') (sent_to 0 outs) {''02:00:00:00:00:05''} =
       {m. (m, ''eth0'') \<in> set (seen_pairs (m_lstMACSeen (dm_network dm')))}"
proof -
  from sample_cycle obtain dm' where c: "daemon_cycle sample_daemon_env sample_ready = Inr (True, dm')" ..
  have "{m. (m, ''eth0'') \<in> set (seen_pairs (m_lstMACSeen sample_net))} = {''02:00:00:00:00:05''}"
    using sample_view by (auto simp: view_of_def)
  with client_follows_addresses [OF _ sample_ready_ok c _ sample_stream [OF c]] sample_served [OF c] c
  show ?thesis by auto
qed

text \<open>C21: a stream lasts: it is still there after a cycle if its client is still connected and has not asked to
  disable a stream in this cycle, and the system still has the device.\<close>

theorem stream_persists:
  assumes "env_ok (de_net env)" "daemon_ready dm" "daemon_cycle env dm = Inr (True, dm')"
    "(p, d) \<in> set (dm_streams dm)" "p \<in> fst ` set (sv_served (dm_server dm'))"
    "d \<in> set (systemDeviceNames (de_net env) (dm_network dm))"
    "server_cycle (de_sock env) (dm_server dm) = Inr (True, sv)"
    "\<forall>q \<in> set (sv_queue sv). qv_served q = p \<longrightarrow> content (qv_value q) \<noteq> ''disable-stream''"
  shows "(p, d) \<in> set (dm_streams dm')"
  by (rule stream_stays [OF assms])

theorem stream_persists_witness:
  "\<exists>dm'. daemon_cycle sample_daemon_env sample_ready = Inr (True, dm') \<and> (0, ''eth0'') \<in> set (dm_streams dm')"
proof -
  from sample_cycle obtain dm' where c: "daemon_cycle sample_daemon_env sample_ready = Inr (True, dm')" ..
  from sample_queue obtain sv where sv: "server_cycle sample_sock sample_server = Inr (True, sv)"
      "sv_queue sv = [\<lparr>qv_value = sample_request, qv_served = 0, qv_servingID = 0\<rparr>]" by blast
  have "''eth0'' \<in> set (systemDeviceNames sample_env sample_net)"
    by (simp add: systemDeviceNames_def sample_env_def sample_net_def)
  with stream_persists [OF _ sample_ready_ok c, of 0 "''eth0''" sv] sv sample_served [OF c] c show ?thesis
    by (simp add: sample_request_def)
qed

section \<open>Keepalive packets\<close>

text \<open>When more than the interval has passed since the last keepalive packets, every connected client gets
  one, in the order of the clients, and the time is remembered; otherwise nothing is sent.\<close>

theorem keepalive_when_due:
  "dm_network (keepalive env dm) = snd (read_time env (dm_network dm)) \<and>
   (let t = fst (read_time env (dm_network dm)); due = (t - dm_lastKeepAlive dm > dm_keepAliveInterval dm) in
     sv_out (dm_server (keepalive env dm)) = sv_out (dm_server dm) @
       (if due then map (\<lambda>(p, i). (p, Value ''info'' ''keepalive'' [])) (sv_served (dm_server dm)) else []) \<and>
     dm_lastKeepAlive (keepalive env dm) = (if due then t else dm_lastKeepAlive dm))"
  by (auto simp: keepalive_eq read_time_def Let_def)

section \<open>Shutting down\<close>

definition stopped :: "daemon \<Rightarrow> bool" where
  "stopped dm \<longleftrightarrow> daemon_ready dm \<and> \<not> m_bShouldRun (dm_network dm)"

lemma stopped_cycle:
  assumes env: "env_ok (de_net env)" and st: "stopped dm" and c: "daemon_cycle env dm = Inr (b, dm')"
  shows "\<not> b" "stopped dm'"
proof -
  have inv: "net_inv (dm_network dm)" using st by (simp add: stopped_def daemon_ready_def daemon_inv_def)
  have r: "r = False \<and> \<not> m_bShouldRun nw" if "cycle (de_net env) (dm_network dm) = Inr (r, nw)" for r nw
    using cycle_SomeD [OF env inv that] cycle_config [OF env inv that] st by (auto simp: stopped_def dest: configD(6))
  show b: "\<not> b"
  proof
    assume b
    with c have "daemon_cycle env dm = Inr (True, dm')" by simp
    from daemon_cycle_True [OF this] obtain nw where "cycle (de_net env) (dm_network dm) = Inr (True, nw)" .
    with r show False by blast
  qed
  with c have "daemon_cycle env dm = Inr (False, dm')" by simp
  from daemon_cycle_False [OF this] r have "\<not> m_bShouldRun (dm_network dm')" by auto
  with st daemon_cycle_ready [OF env _ c] show "stopped dm'" by (simp add: stopped_def)
qed

interpretation stopped_listing: preserving_r "\<lambda>_. True" "\<lambda>nw. net_inv nw \<and> \<not> m_bShouldRun nw"
    "addDeviceWhiteBlacklistEntry env" for env
  by unfold_locales (metis net_step_inv step_pattern step_should_run)

interpretation stopped_serving: preserving_r "\<lambda>_. True" "\<lambda>dm. \<not> m_bShouldRun (dm_network dm)" "serve_entry bind_of"
  for bind_of
  by unfold_locales
    (auto simp: serve_entry_def daemon_serve_def Let_def bind_r_Inr_iff split: option.splits if_splits prod.splits)

lemma stopped_configure:
  assumes "stopped dm" "configure env bind_of cfg dm = Inr dm'"
  shows "\<not> m_bShouldRun (dm_network dm')"
proof -
  define nw0 where "nw0 = (let m = config_value ''network'' ''list-mode'' ''whitelist'' True cfg in
    if m = ''whitelist'' then setDeviceWhiteBlacklistMode Whitelist (dm_network dm)
    else if m = ''blacklist'' then setDeviceWhiteBlacklistMode Blacklist (dm_network dm) else dm_network dm)"
  have 0: "net_inv nw0 \<and> \<not> m_bShouldRun nw0"
    using assms(1)
    by (simp add: nw0_def Let_def stopped_def daemon_ready_def daemon_inv_def net_inv_def setDeviceWhiteBlacklistMode_def)
  from configure_parts [OF assms(2) nw0_def] obtain l1 nw l2 t dm1 ds where
      s: "fold_r (addDeviceWhiteBlacklistEntry env) l1 nw0 = Inr nw"
      "fold_r (serve_entry bind_of) l2 (dm\<lparr>dm_network :=
          setPingBroadcastInterval (doubleValue ''network'' ''ping-broadcast-interval'' 10 cfg)
            (setUpdateInterval (doubleValue ''network'' ''update-interval'' 10 cfg)
              (setMaxMACAge (doubleValue ''network'' ''max-mac-age'' 300 cfg) nw)),
        dm_keepAliveInterval := t\<rparr>) = Inr dm1"
      "dm' = dm1\<lparr>dm_discovery := ds\<rparr>" by blast
  have "\<not> m_bShouldRun nw" using stopped_listing.fold_r_inv [OF 0 _ s(1)] by simp
  then have "\<not> m_bShouldRun (dm_network dm1)"
    by (intro stopped_serving.fold_r_inv [OF _ _ s(2)])
      (simp_all add: setPingBroadcastInterval_def setUpdateInterval_def setMaxMACAge_def)
  with s(3) show ?thesis by simp
qed

lemma stopped_step:
  assumes "daemon_step dm dm'" "stopped dm"
  shows "stopped dm'"
proof -
  have "daemon_ready dm'" using assms daemon_step_ready by (simp add: stopped_def)
  moreover from assms have "\<not> m_bShouldRun (dm_network dm')"
  proof (cases rule: daemon_step.cases)
    case (do_cycle env b)
    with stopped_cycle(2) [of env dm b dm'] assms(2) show ?thesis by (simp add: stopped_def)
  next
    case (do_config env bind_of files path b)
    then show ?thesis
      using stopped_configure [OF assms(2)] assms(2)
      by (auto simp: parseConfigFile_def bind_r_Inr_iff stopped_def split: if_splits)
  next
    case (do_serve fd bound d port b)
    with assms(2) show ?thesis by (auto simp: daemon_serve_def bind_r_Inr_iff stopped_def)
  next
    case do_shutdown
    then show ?thesis by (simp add: daemon_shutdown_def shutdown_def)
  qed
  ultimately show ?thesis by (simp add: stopped_def)
qed

lemma stopped_steps: "daemon_step\<^sup>*\<^sup>* dm dm' \<Longrightarrow> stopped dm \<Longrightarrow> stopped dm'"
  by (induction rule: rtranclp_induct) (auto intro: stopped_step)

lemma shutdown_stopped: "daemon_ready dm \<Longrightarrow> stopped (daemon_shutdown dm)"
  using daemon_step_ready [OF do_shutdown] by (simp add: stopped_def daemon_shutdown_def shutdown_def)

text \<open>C24: after \<open>shutdown\<close> no cycle returns true any more, whatever is configured or served in between.\<close>

theorem daemon_shutdown_final:
  assumes "daemon_ready dm" "daemon_step\<^sup>*\<^sup>* (daemon_shutdown dm) dm1" "env_ok (de_net env)"
    "daemon_cycle env dm1 = Inr (b, dm2)"
  shows "b = False"
  using stopped_cycle(1) [OF assms(3) stopped_steps [OF assms(2) shutdown_stopped [OF assms(1)]] assms(4)] by simp

theorem daemon_shutdown_final_witness:
  "\<exists>b dm2. daemon_cycle sample_daemon_env (daemon_shutdown sample_ready) = Inr (b, dm2) \<and> \<not> b"
proof -
  have "daemon_ready (daemon_shutdown sample_ready)"
    using shutdown_stopped [OF sample_ready_ok] by (simp add: stopped_def)
  moreover have "patterns_ok sample_env (dm_network (daemon_shutdown sample_ready))"
    using sample_patterns by (simp add: daemon_shutdown_def shutdown_def patterns_ok_def)
  moreover from this obtain nw where
    "cycle sample_env (dm_network (daemon_shutdown sample_ready)) = Inr (False, nw)"
    using cycle_runs [of sample_env "dm_network (daemon_shutdown sample_ready)"] calculation(1)
    by (auto simp: daemon_ready_def daemon_inv_def daemon_shutdown_def shutdown_def)
  ultimately have "daemon_cycle sample_daemon_env (daemon_shutdown sample_ready) =
      Inr (False, (daemon_shutdown sample_ready)\<lparr>dm_network := nw\<rparr>)"
    by (simp add: daemon_cycle_def)
  with daemon_shutdown_final [OF sample_ready_ok rtranclp.rtrancl_refl _ this] show ?thesis by auto
qed

section \<open>Requests for the stream of another device\<close>

text \<open>C31: the requests about streams test for a stream of the device the client is connected on, whatever device
  they name: with such a stream, a request to enable the stream of another device is refused as already
  enabled, and one to disable it is reported as a success and disables the stream of the client's own
  device instead.\<close>

theorem stream_requests_wrong_device:
  assumes "key v = ''request''" "sub_value ''device-name'' v = Some (Value ''device-name'' d [])"
    "(p, here) \<in> set (dm_streams dm)" "distinct (dm_streams dm)" "d \<noteq> here"
  shows "(content v = ''enable-stream'' \<longrightarrow> answer env p here v dm =
      Inr (Value ''result'' ''already-enabled'' [Value ''device-name'' d []], dm)) \<and>
    (content v = ''disable-stream'' \<longrightarrow> (\<exists>dm'. answer env p here v dm =
      Inr (Value ''result'' ''success'' [Value ''device-name'' d []], dm') \<and>
      set (dm_streams dm') = set (dm_streams dm) - {(p, here)}))"
proof -
  have "erase_first (\<lambda>s. fst s = p \<and> snd s = here) (dm_streams dm) \<noteq> None"
    using assms(3) by (auto simp: erase_first_None_iff intro!: bexI [of _ "(p, here)"])
  then obtain s ss where e: "erase_first (\<lambda>s. fst s = p \<and> snd s = here) (dm_streams dm) = Some (s, ss)" by auto
  from erase_first_SomeD [OF e] obtain us vs where
    "dm_streams dm = us @ s # vs" "ss = us @ vs" "s = (p, here)" by (auto simp: prod_eq_iff)
  with assms(4) have "set ss = set (dm_streams dm) - {(p, here)}" by auto
  with e assms show ?thesis
    by (auto simp: answer_def answer_enable_def answer_disable_def streamEnabled_def disableStream_def)
qed

theorem stream_requests_wrong_device_witness:
  "\<exists>dm'. answer sample_env 0 ''eth0'' (Value ''request'' ''disable-stream'' [Value ''device-name'' ''eth1'' []]) sample_ready =
     Inr (Value ''result'' ''success'' [Value ''device-name'' ''eth1'' []], dm') \<and>
   set (dm_streams dm') = {(1, ''eth1'')}"
proof -
  let ?v = "Value ''request'' ''disable-stream'' [Value ''device-name'' ''eth1'' []]"
  have "sub_value ''device-name'' ?v = Some (Value ''device-name'' ''eth1'' [])" by (simp add: sub_value_def)
  from stream_requests_wrong_device [OF _ this, of 0 "''eth0''" sample_ready sample_env] show ?thesis by auto
qed

end
