(* ===== verification/Tracking.thy ===== *)
theory Tracking
  imports Daemon_Cycle
begin

text \<open>
  What a client knows that listens for many cycles. It may start from nothing: the answer to a list request
  tells it the whole state at some moment of a cycle, the packets about events that it receives before and
  after it change that state one step at a time. Devices and addresses are tracked in the same way; the
  locale \<open>tracker\<close> holds what both need.
\<close>

section \<open>Changes that forget\<close>

text \<open>
  Each event puts one name into a set or takes one out. A sequence of such changes does not depend on what it
  overwrites, so applying it twice is applying it once. This is why it does no harm that the events of a cycle
  are told after the requests of that cycle were answered.
\<close>

definition overwriting :: "('a set \<Rightarrow> 'a set) \<Rightarrow> bool" where
  "overwriting f \<longleftrightarrow> (\<exists>T A. A \<subseteq> T \<and> (\<forall>s. f s = (s - T) \<union> A))"

lemma overwriting_id: "overwriting (\<lambda>s. s)"
  unfolding overwriting_def by (rule exI [of _ "{}"], rule exI [of _ "{}"]) simp

lemma overwriting_insert: "overwriting (insert x)"
  unfolding overwriting_def by (rule exI [of _ "{x}"], rule exI [of _ "{x}"]) auto

lemma overwriting_remove: "overwriting (\<lambda>s. s - {x})"
  unfolding overwriting_def by (rule exI [of _ "{x}"], rule exI [of _ "{}"]) auto

lemma overwriting_comp:
  assumes "overwriting f" "overwriting g"
  shows "overwriting (\<lambda>s. g (f s))"
proof -
  from assms obtain T A U B where "A \<subseteq> T" "\<And>s. f s = (s - T) \<union> A" "B \<subseteq> U" "\<And>s. g s = (s - U) \<union> B"
    unfolding overwriting_def by metis
  then have "(A - U) \<union> B \<subseteq> T \<union> U" "\<forall>s. g (f s) = (s - (T \<union> U)) \<union> ((A - U) \<union> B)" by auto
  then show ?thesis unfolding overwriting_def by blast
qed

lemma overwriting_idem: "overwriting f \<Longrightarrow> f (f s) = f s"
  unfolding overwriting_def by auto

section \<open>A client that tracks\<close>

text \<open>\<open>listed\<close> is the set that a packet names as a whole, \<open>follow\<close> the change that it tells.\<close>

definition track :: "(val \<Rightarrow> string set \<Rightarrow> string set) \<Rightarrow> (val \<Rightarrow> string set option) \<Rightarrow> val \<Rightarrow> string set \<Rightarrow> string set" where
  "track follow listed v s = (case listed v of None \<Rightarrow> follow v s | Some l \<Rightarrow> l)"

definition listed_devices :: "val \<Rightarrow> string set option" where
  "listed_devices v =
     (if key v = ''response'' \<and> content v = ''devices-list''
      then map_option (\<lambda>l. key ` set (subValues l)) (sub_value ''devices-list'' v) else None)"

definition listed_macs :: "string \<Rightarrow> val \<Rightarrow> string set option" where
  "listed_macs d v =
     (if key v = ''response'' \<and> content v = ''known-mac-addresses''
      then map_option (\<lambda>l. key ` {s \<in> set (subValues l). map_option content (sub_value ''device-name'' s) = Some d})
             (sub_value ''known-mac-addresses'' v)
      else None)"

text \<open>Cycles of the daemon after each of which something holds, that a client is connected, say.\<close>

inductive cycles_keeping :: "(daemon \<Rightarrow> bool) \<Rightarrow> daemon \<Rightarrow> daemon \<Rightarrow> bool" for P where
  no_cycle: "cycles_keeping P dm dm"
| one_more: "cycles_keeping P dm dm1 \<Longrightarrow> env_ok (de_net env) \<Longrightarrow> daemon_cycle env dm1 = Inr (True, dm2) \<Longrightarrow>
    P dm2 \<Longrightarrow> cycles_keeping P dm dm2"

text \<open>Packets about events are no answers.\<close>

lemma events_info:
  assumes "fold_r (handle_event env) evs dm = Inr dm'"
  shows "\<exists>outs. sv_out (dm_server dm') = sv_out (dm_server dm) @ outs \<and> (\<forall>(q, v) \<in> set outs. key v = ''info'')"
  using assms
proof (induction evs arbitrary: dm)
  case (Cons ev evs)
  from Cons.prems obtain dm1 where
      1: "handle_event env ev dm = Inr dm1" "fold_r (handle_event env) evs dm1 = Inr dm'"
    by (auto simp: bind_r_Inr_iff)
  from handle_event_Inr [OF 1(1)] have
    "\<exists>o1. sv_out (dm_server dm1) = sv_out (dm_server dm) @ o1 \<and> (\<forall>(q, v) \<in> set o1. key v = ''info'')"
    by (auto simp: tell_eq end_streams_eq stream_disabled_def event_packet_laws(1))
  with Cons.IH [OF 1(2)] show ?case by fastforce
qed simp

lemma sent_to_all: "\<forall>(q, v) \<in> set outs. P v \<Longrightarrow> \<forall>v \<in> set (sent_to p outs). P v"
  by (auto simp: sent_to_def)

lemma hello_info [simp]: "key (hello s) = ''info''"
  by (simp add: hello_def)

section \<open>The common part\<close>

text \<open>
  \<open>obs\<close> is the set that is tracked, \<open>entitled\<close> who is told about it. An event changes the set by overwriting;
  the packets that are sent for a sequence of events tell the change to those who are entitled; a packet that
  lists the set lists it as it is when the request is answered.
\<close>

locale tracker =
  fixes follow :: "val \<Rightarrow> string set \<Rightarrow> string set"
    and listed :: "val \<Rightarrow> string set option"
    and obs :: "view \<Rightarrow> string set"
    and entitled :: "served_ptr \<Rightarrow> daemon \<Rightarrow> bool"
  assumes event_overwrites: "\<exists>f. overwriting f \<and> (\<forall>vw. obs (apply_event ev vw) = f (obs vw))"
    and events_told: "fold_r (handle_event env) evs dm = Inr dm' \<Longrightarrow> distinct (map fst (sv_served (dm_server dm))) \<Longrightarrow>
      p \<in> fst ` set (sv_served (dm_server dm)) \<Longrightarrow> entitled p dm' \<Longrightarrow>
      \<exists>outs. sv_out (dm_server dm') = sv_out (dm_server dm) @ outs \<and>
        fold follow (sent_to p outs) (obs vw) = obs (replay evs vw)"
    and answer_lists: "env_ok env \<Longrightarrow> handle_request env q dm = Inr dm' \<Longrightarrow>
      sv_out (dm_server dm') = sv_out (dm_server dm) @ [(q', v)] \<Longrightarrow>
      listed v \<in> {None, Some (obs (view_of (dm_network dm)))}"
    and listed_response: "listed v \<noteq> None \<Longrightarrow> key v = ''response''"
    and follow_mute: "mute v \<Longrightarrow> follow v s = s"
    and entitled_streams: "dm_streams dm = dm_streams dm' \<Longrightarrow> entitled p dm = entitled p dm'"
begin

abbreviation tracks :: "val \<Rightarrow> string set \<Rightarrow> string set" where
  "tracks \<equiv> track follow listed"

lemma track_other: "key v = ''info'' \<Longrightarrow> tracks v = follow v"
  using listed_response [of v] by (auto simp: track_def fun_eq_iff split: option.splits)

lemma track_mute: "key v = ''info'' \<Longrightarrow> mute v \<Longrightarrow> tracks v s = s"
  by (simp add: track_other follow_mute)

lemma fold_track_mute: "\<forall>v \<in> set vs. key v = ''info'' \<and> mute v \<Longrightarrow> fold tracks vs s = s"
  by (induction vs) (simp_all add: track_mute)

lemma fold_track_info: "\<forall>v \<in> set vs. key v = ''info'' \<Longrightarrow> fold tracks vs s = fold follow vs s"
  by (induction vs arbitrary: s) (simp_all add: track_other)

lemma replay_overwrites: "\<exists>f. overwriting f \<and> (\<forall>vw. obs (replay evs vw) = f (obs vw))"
proof (induction evs)
  case Nil
  then show ?case using overwriting_id by (intro exI [of _ "\<lambda>s. s"]) (simp add: replay_def)
next
  case (Cons ev evs)
  then obtain g where g: "overwriting g" "\<And>vw. obs (replay evs vw) = g (obs vw)" by blast
  from event_overwrites obtain f where f: "overwriting f" "\<And>vw. obs (apply_event ev vw) = f (obs vw)" by blast
  with g overwriting_comp [OF f(1) g(1)] show ?case by (intro exI [of _ "\<lambda>s. g (f s)"]) (simp add: replay_def)
qed

lemma replay_settled:
  assumes "obs vw \<in> {obs vw0, obs (replay evs vw0)}"
  shows "obs (replay evs vw) = obs (replay evs vw0)"
proof -
  from replay_overwrites obtain f where "overwriting f" "\<And>vw. obs (replay evs vw) = f (obs vw)" by blast
  with assms overwriting_idem [of f] show ?thesis by auto
qed

text \<open>Events: the client makes the same changes, from whatever set it has.\<close>

lemma events_tracked:
  assumes "fold_r (handle_event env) evs dm = Inr dm'" "distinct (map fst (sv_served (dm_server dm)))"
    "p \<in> fst ` set (sv_served (dm_server dm))" "entitled p dm'"
  shows "\<exists>outs. sv_out (dm_server dm') = sv_out (dm_server dm) @ outs \<and>
    (\<forall>vw. fold tracks (sent_to p outs) (obs vw) = obs (replay evs vw)) \<and>
    (\<forall>v \<in> set (sent_to p outs). listed v = None)"
proof -
  from events_info [OF assms(1)] obtain outs where
      o: "sv_out (dm_server dm') = sv_out (dm_server dm) @ outs" "\<forall>(q, v) \<in> set outs. key v = ''info''" by blast
  then have info: "\<forall>v \<in> set (sent_to p outs). key v = ''info''" by (auto simp: sent_to_def)
  have "fold tracks (sent_to p outs) (obs vw) = obs (replay evs vw)" for vw
    using events_told [OF assms, of vw] o(1) by (auto simp: fold_track_info [OF info])
  moreover have "\<forall>v \<in> set (sent_to p outs). listed v = None" using info listed_response by fastforce
  ultimately show ?thesis using o(1) by blast
qed

text \<open>Requests: the last list that is sent is up to date, nothing else changes the set.\<close>

lemma requests_tracked:
  assumes env: "env_ok env" and r: "fold_r (handle_request env) qs dm = Inr dm'"
  shows "\<exists>outs. sv_out (dm_server dm') = sv_out (dm_server dm) @ outs \<and>
    (\<forall>s. fold tracks (sent_to p outs) s =
       (if \<exists>v \<in> set (sent_to p outs). listed v \<noteq> None then obs (view_of (dm_network dm)) else s))"
  using r
proof (induction qs arbitrary: dm)
  case Nil
  then show ?case by (simp add: sent_to_def)
next
  case (Cons q qs)
  from Cons.prems obtain dm1 where
      h: "handle_request env q dm = Inr dm1" "fold_r (handle_request env) qs dm1 = Inr dm'"
    by (auto simp: bind_r_Inr_iff)
  from handle_request_Inr [OF h(1)] obtain w dm2 v where
      a: "answer env (qv_served q) (strDeviceName (servingByID (qv_servingID q) (dm_server dm))) (qv_value q) dm =
        Inr (w, dm2)" and d: "dm1 = post_to (qv_served q) v dm2"
      and v: "v = Value ''response'' (content (qv_value q)) [w]" by blast
  note l = answer_laws [OF env a]
  have out: "sv_out (dm_server dm1) = sv_out (dm_server dm) @ [(qv_served q, v)]"
    and vw: "view_of (dm_network dm1) = view_of (dm_network dm)"
    using l(1,2) by (simp_all add: d net_same_def)
  have one: "tracks v s = (if listed v \<noteq> None then obs (view_of (dm_network dm)) else s)" for s
    using answer_lists [OF env h(1) out] follow_mute [of v s] by (auto simp: track_def v)
  from Cons.IH [OF h(2)] obtain outs where
      o: "sv_out (dm_server dm') = sv_out (dm_server dm1) @ outs"
        "\<forall>s. fold tracks (sent_to p outs) s =
          (if \<exists>v \<in> set (sent_to p outs). listed v \<noteq> None then obs (view_of (dm_network dm)) else s)"
    by (auto simp: vw)
  then show ?case using one
    by (intro exI [of _ "(qv_served q, v) # outs"]) (auto simp: out sent_to_def)
qed

lemma cycle_tracked:
  assumes env: "env_ok (de_net env)" and ready: "daemon_ready dm" and c: "daemon_cycle env dm = Inr (True, dm')"
    and p: "p \<in> fst ` set (sv_served (dm_server dm'))" and e: "entitled p dm'"
  shows "\<exists>outs. sv_out (dm_server dm') = sv_out (dm_server dm) @ outs \<and>
    (\<forall>s. s = obs (view_of (dm_network dm)) \<or> (\<exists>v \<in> set (sent_to p outs). listed v \<noteq> None) \<longrightarrow>
      fold tracks (sent_to p outs) s = obs (view_of (dm_network dm')))"
proof -
  obtain evs qs dmq dm1 dm2 o1 o2' o4 where g:
    "sv_out (dm_server dmq) = sv_out (dm_server dm) @ o1" "\<forall>(q, v) \<in> set o1. \<exists>n. v = hello n"
    "fold_r (handle_request (de_net env)) qs dmq = Inr dm1" "view_of (dm_network dmq) = view_of (dm_network dm')"
    "sv_out (dm_server dm1) = sv_out (dm_server dmq) @ o2'" "answers qs o2'"
    "fold_r (handle_event (de_net env)) evs dm1 = Inr dm2"
    "replay evs (view_of (dm_network dm)) = view_of (dm_network dm')"
    "sv_served (dm_server dm1) = sv_served (dm_server dm')" "distinct (map fst (sv_served (dm_server dm')))"
    "dm_streams dm2 = dm_streams dm'"
    "sv_out (dm_server dm') = sv_out (dm_server dm2) @ o4" "\<forall>(q, v) \<in> set o4. v = Value ''info'' ''keepalive'' []"
    by (rule cycle_stages [OF env ready c])
  from requests_tracked [OF env g(3), of p] obtain o2 where
      o2: "sv_out (dm_server dm1) = sv_out (dm_server dmq) @ o2"
        "\<And>s. fold tracks (sent_to p o2) s = (if \<exists>v \<in> set (sent_to p o2). listed v \<noteq> None
          then obs (view_of (dm_network dm')) else s)" by (auto simp: g(4))
  have d: "distinct (map fst (sv_served (dm_server dm1)))" "p \<in> fst ` set (sv_served (dm_server dm1))"
      "entitled p dm2"
    using g(9,10) p e entitled_streams [OF g(11), of p] by simp_all
  from events_tracked [OF g(7) d] obtain o3 where
      o3: "sv_out (dm_server dm2) = sv_out (dm_server dm1) @ o3"
        "\<And>vw. fold tracks (sent_to p o3) (obs vw) = obs (replay evs vw)"
        "\<forall>v \<in> set (sent_to p o3). listed v = None" by blast
  have m1: "\<forall>v \<in> set (sent_to p o1). key v = ''info'' \<and> mute v"
    using sent_to_all [of o1 "\<lambda>v. \<exists>n. v = hello n" p] g(2) by auto
  have m4: "\<forall>v \<in> set (sent_to p o4). key v = ''info'' \<and> mute v"
    using sent_to_all [OF g(13), of p] by auto
  have n: "\<forall>v \<in> set (sent_to p o1) \<union> set (sent_to p o4). listed v = None"
    using m1 m4 listed_response by fastforce
  have "fold tracks (sent_to p (o1 @ o2 @ o3 @ o4)) s = obs (view_of (dm_network dm'))"
    if "s = obs (view_of (dm_network dm)) \<or> (\<exists>v \<in> set (sent_to p (o1 @ o2 @ o3 @ o4)). listed v \<noteq> None)" for s
  proof -
    from that n o3(3) have "s = obs (view_of (dm_network dm)) \<or> (\<exists>v \<in> set (sent_to p o2). listed v \<noteq> None)" by auto
    then have "fold tracks (sent_to p o2) s \<in> {obs (view_of (dm_network dm)), obs (view_of (dm_network dm'))}"
      by (auto simp: o2(2))
    then have "\<exists>vw. fold tracks (sent_to p o2) s = obs vw \<and>
        obs vw \<in> {obs (view_of (dm_network dm)), obs (replay evs (view_of (dm_network dm)))}"
      unfolding g(8) by blast
    then obtain vw where vw: "fold tracks (sent_to p o2) s = obs vw"
        "obs vw \<in> {obs (view_of (dm_network dm)), obs (replay evs (view_of (dm_network dm)))}" by blast
    from replay_settled [OF vw(2)] show ?thesis
      by (simp add: fold_track_mute [OF m1] fold_track_mute [OF m4] vw(1) o3(2) g(8))
  qed
  then show ?thesis using g(1,12) o2(1) o3(1) by (intro exI [of _ "o1 @ o2 @ o3 @ o4"]) simp
qed

lemma run_tracked:
  assumes "cycles_keeping (\<lambda>dm. p \<in> fst ` set (sv_served (dm_server dm)) \<and> entitled p dm) dm dm'" "daemon_ready dm"
  shows "daemon_ready dm' \<and> (\<exists>outs. sv_out (dm_server dm') = sv_out (dm_server dm) @ outs \<and>
    (\<forall>s. s = obs (view_of (dm_network dm)) \<or> (\<exists>v \<in> set (sent_to p outs). listed v \<noteq> None) \<longrightarrow>
      fold tracks (sent_to p outs) s = obs (view_of (dm_network dm'))))"
  using assms
proof (induction rule: cycles_keeping.induct)
  case (no_cycle dm)
  then show ?case by (simp add: sent_to_def)
next
  case (one_more dm dm1 env dm2)
  then have ready: "daemon_ready dm1" by blast
  from one_more obtain o1 where
      o1: "sv_out (dm_server dm1) = sv_out (dm_server dm) @ o1"
        "\<And>s. s = obs (view_of (dm_network dm)) \<or> (\<exists>v \<in> set (sent_to p o1). listed v \<noteq> None) \<Longrightarrow>
          fold tracks (sent_to p o1) s = obs (view_of (dm_network dm1))" by blast
  from cycle_tracked [OF one_more.hyps(2) ready one_more.hyps(3)] one_more.hyps(4) obtain o2 where
      o2: "sv_out (dm_server dm2) = sv_out (dm_server dm1) @ o2"
        "\<And>s. s = obs (view_of (dm_network dm1)) \<or> (\<exists>v \<in> set (sent_to p o2). listed v \<noteq> None) \<Longrightarrow>
          fold tracks (sent_to p o2) s = obs (view_of (dm_network dm2))" by blast
  have "fold tracks (sent_to p (o1 @ o2)) s = obs (view_of (dm_network dm2))"
    if "s = obs (view_of (dm_network dm)) \<or> (\<exists>v \<in> set (sent_to p (o1 @ o2)). listed v \<noteq> None)" for s
    using that o1(2) [of s] o2(2) [of "fold tracks (sent_to p o1) s"] by auto
  moreover have "daemon_ready dm2" by (rule daemon_cycle_ready [OF one_more.hyps(2) ready one_more.hyps(3)])
  ultimately show ?case using o1(1) o2(1) by (intro conjI exI [of _ "o1 @ o2"]) simp_all
qed

end


section \<open>Devices\<close>

lemma answered_value:
  assumes "env_ok env" "handle_request env q dm = Inr dm'" "sv_out (dm_server dm') = sv_out (dm_server dm) @ [(q', v)]"
  obtains here w dm1 where "answer env (qv_served q) here (qv_value q) dm = Inr (w, dm1)"
    "key (qv_value q) = ''request''" "v = Value ''response'' (content (qv_value q)) [w]"
proof -
  from handle_request_Inr [OF assms(2)] obtain here w dm1 where
      a: "answer env (qv_served q) here (qv_value q) dm = Inr (w, dm1)" "key (qv_value q) = ''request''"
        "dm' = post_to (qv_served q) (Value ''response'' (content (qv_value q)) [w]) dm1" by blast
  with answer_laws(1) [OF assms(1) a(1)] assms(3) that show thesis by auto
qed

lemma device_overwrites: "\<exists>f. overwriting f \<and> (\<forall>vw. fst (apply_event ev vw) = f (fst vw))"
proof -
  let ?d = "ev_deviceName (event_base ev)"
  have "\<forall>vw. fst (apply_event ev vw) = (case ev_type (event_base ev) of
      DeviceAdded \<Rightarrow> insert ?d | DeviceRemoved \<Rightarrow> (\<lambda>s. s - {?d}) | _ \<Rightarrow> (\<lambda>s. s)) (fst vw)"
    by (cases ev; cases "ev_type (event_base ev)") auto
  moreover have "overwriting (case ev_type (event_base ev) of
      DeviceAdded \<Rightarrow> insert ?d | DeviceRemoved \<Rightarrow> (\<lambda>s. s - {?d}) | _ \<Rightarrow> (\<lambda>s. s))"
    by (cases "ev_type (event_base ev)") (simp_all add: overwriting_id overwriting_insert overwriting_remove)
  ultimately show ?thesis by blast
qed

lemma devices_listed:
  assumes "env_ok env" "handle_request env q dm = Inr dm'" "sv_out (dm_server dm') = sv_out (dm_server dm) @ [(q', v)]"
  shows "listed_devices v \<in> {None, Some (fst (view_of (dm_network dm)))}"
proof -
  obtain here w dm1 where a: "answer env (qv_served q) here (qv_value q) dm = Inr (w, dm1)"
    "key (qv_value q) = ''request''" "v = Value ''response'' (content (qv_value q)) [w]"
    by (rule answered_value [OF assms])
  have k: "key (device_value m dv) = m_strDeviceName dv" for m dv by (simp add: device_value_def)
  have n: "m_strDeviceName (snd (mac_of env dv)) = m_strDeviceName dv" for dv by (simp add: mac_of_def Let_def)
  have "key ` set (subValues (fst (answer_devices env nw))) = fst (view_of nw)" for nw
    by (auto simp: answer_devices_def view_of_def image_image case_prod_beta k n)
  note names = this
  show ?thesis
  proof (cases "content (qv_value q) = ''devices-list''")
    case True
    with a have "w = fst (answer_devices env (dm_network dm))" by (auto simp: answer_def split: prod.splits)
    with names [of "dm_network dm"] True a(3) show ?thesis
      by (simp add: listed_devices_def sub_value_def answer_devices_def)
  next
    case False
    with a(3) show ?thesis by (simp add: listed_devices_def)
  qed
qed

interpretation devices: tracker follow_devices listed_devices fst "\<lambda>p dm. True"
proof (unfold_locales, goal_cases)
  case (1 ev)
  show ?case by (rule device_overwrites)
next
  case (2 env evs dm dm' p vw)
  from events_follow [OF 2(1-3), of vw] show ?case by blast
next
  case 3
  then show ?case by (rule devices_listed)
next
  case 4
  then show ?case by (auto simp: listed_devices_def split: if_splits)
qed (simp_all add: mute_def)

section \<open>Addresses\<close>

lemma mac_overwrites: "\<exists>f. overwriting f \<and> (\<forall>vw. on_device d (apply_event ev vw) = f (on_device d vw))"
proof (cases ev)
  case (DeviceEvent e)
  then have "\<forall>vw. on_device d (apply_event ev vw) = on_device d vw"
    by (cases "ev_type e") (auto simp: on_device_def)
  then show ?thesis using overwriting_id by blast
next
  case (MACEvent e m)
  let ?f = "if ev_deviceName e \<noteq> d then (\<lambda>s. s) else case ev_type e of
    MACAddressDiscovered \<Rightarrow> insert m | MACAddressDisappeared \<Rightarrow> (\<lambda>s. s - {m}) | _ \<Rightarrow> (\<lambda>s. s)"
  have "\<forall>vw. on_device d (apply_event ev vw) = ?f (on_device d vw)"
    by (cases "ev_type e") (auto simp: MACEvent on_device_def)
  moreover have "overwriting ?f"
    by (cases "ev_type e") (simp_all add: overwriting_id overwriting_insert overwriting_remove)
  ultimately show ?thesis by blast
qed

definition of_device :: "string \<Rightarrow> val list \<Rightarrow> string set" where
  "of_device d vs = key ` {s \<in> set vs. map_option content (sub_value ''device-name'' s) = Some d}"

lemma of_device_append [simp]: "of_device d (vs @ ws) = of_device d vs \<union> of_device d ws"
  by (auto simp: of_device_def)

lemma of_device_single:
  "of_device d [v] = (if map_option content (sub_value ''device-name'' v) = Some d then {key v} else {})"
  by (auto simp: of_device_def)

lemma macs_of_answer:
  assumes "answer_macs nw = Inr w"
  shows "key w = ''known-mac-addresses'' \<and> of_device d (subValues w) = on_device d (view_of nw)"
proof -
  have "key w' = key v \<and> of_device d (subValues w') = of_device d (subValues v) \<union> {m. (m, d) \<in> set (seen_pairs es)}"
    if "fold_r (\<lambda>e v. bind_r (mac_value nw e) (\<lambda>w. Inr (add_sub w v))) es v = Inr w'" for es v w'
    using that
  proof (induction es arbitrary: v)
    case (Cons e es)
    then obtain u where u: "mac_value nw e = Inr u"
        "fold_r (\<lambda>e v. bind_r (mac_value nw e) (\<lambda>w. Inr (add_sub w v))) es (add_sub u v) = Inr w'"
      by (auto simp: bind_r_Inr_iff)
    from u(1) have "of_device d [u] = (if me_strDeviceName e = d then {me_strMAC e} else {})"
      by (auto simp: of_device_single mac_value_def bind_r_Inr_iff sub_value_def)
    with Cons.IH [OF u(2)] show ?case by auto
  qed simp
  from this [of "m_lstMACSeen nw" "Value ''known-mac-addresses'' [] []" w] assms show ?thesis
    by (simp add: answer_macs_def view_of_def on_device_def of_device_def)
qed

lemma macs_listed:
  assumes "env_ok env" "handle_request env q dm = Inr dm'" "sv_out (dm_server dm') = sv_out (dm_server dm) @ [(q', v)]"
  shows "listed_macs d v \<in> {None, Some (on_device d (view_of (dm_network dm)))}"
proof -
  obtain here w dm1 where a: "answer env (qv_served q) here (qv_value q) dm = Inr (w, dm1)"
    "key (qv_value q) = ''request''" "v = Value ''response'' (content (qv_value q)) [w]"
    by (rule answered_value [OF assms])
  show ?thesis
  proof (cases "content (qv_value q) = ''known-mac-addresses''")
    case True
    with a have "answer_macs (dm_network dm) = Inr w" by (auto simp: answer_def bind_r_Inr_iff)
    from macs_of_answer [OF this, of d] True a(3) show ?thesis
      by (simp add: listed_macs_def sub_value_def of_device_def)
  next
    case False
    with a(3) show ?thesis by (simp add: listed_macs_def)
  qed
qed

interpretation addresses: tracker "follow_macs d" "listed_macs d" "on_device d" "\<lambda>p dm. (p, d) \<in> set (dm_streams dm)" for d
proof (unfold_locales, goal_cases)
  case (1 ev)
  show ?case by (rule mac_overwrites)
next
  case (2 env evs dm dm' p vw)
  from events_follow [OF 2(1-3), of vw d] 2(4) show ?case by blast
next
  case 3
  then show ?case by (rule macs_listed)
next
  case 4
  then show ?case by (auto simp: listed_macs_def split: if_splits)
qed (simp_all add: mute_def)


section \<open>Properties\<close>

text \<open>C9: a client that asks for the list of devices once, at any time, knows from then on, at the end of every
  cycle in which it stays connected, which devices the daemon observes, whatever it believed before: it
  takes over the list of the answer and applies the packets about devices that it is sent before and
  after, in the order in which they are sent. A client that knew the devices at the start need not ask.\<close>

theorem client_learns_devices:
  assumes "daemon_ready dm"
    and "cycles_keeping (\<lambda>dm. p \<in> fst ` set (sv_served (dm_server dm))) dm dm'"
  shows "\<exists>outs. sv_out (dm_server dm') = sv_out (dm_server dm) @ outs \<and>
    (\<forall>believed. believed = m_strDeviceName ` set (m_lstDevices (dm_network dm)) \<or>
        (\<exists>v \<in> set (sent_to p outs). listed_devices v \<noteq> None) \<longrightarrow>
      fold (track follow_devices listed_devices) (sent_to p outs) believed =
        m_strDeviceName ` set (m_lstDevices (dm_network dm')))"
  using devices.run_tracked [of p dm dm'] assms by (simp add: view_of_def)

lemma sample_cycles:
  assumes "daemon_cycle sample_daemon_env sample_ready = Inr (True, dm')"
  shows "cycles_keeping (\<lambda>dm. 0 \<in> fst ` set (sv_served (dm_server dm)) \<and> (0, ''eth0'') \<in> set (dm_streams dm))
      sample_ready dm'"
    "cycles_keeping (\<lambda>dm. 0 \<in> fst ` set (sv_served (dm_server dm))) sample_ready dm'"
  using sample_served [OF assms] sample_stream [OF assms]
  by (auto intro!: one_more [OF no_cycle _ assms])

theorem client_learns_devices_witness:
  "\<exists>dm' outs. daemon_cycle sample_daemon_env sample_ready = Inr (True, dm') \<and> sv_out (dm_server dm') = outs \<and>
     fold (track follow_devices listed_devices) (sent_to 0 outs) {''eth0'', ''eth1''} =
       m_strDeviceName ` set (m_lstDevices (dm_network dm'))"
proof -
  from sample_cycle obtain dm' where c: "daemon_cycle sample_daemon_env sample_ready = Inr (True, dm')" ..
  have "m_strDeviceName ` set (m_lstDevices sample_net) = {''eth0'', ''eth1''}"
    using sample_view by (simp add: view_of_def)
  with client_learns_devices [OF sample_ready_ok sample_cycles(2) [OF c]] c show ?thesis by auto
qed

text \<open>C10: and a client that keeps a stream of a device and asks for the known addresses once knows the addresses
  that the daemon has recorded on this device, at the end of every later cycle.\<close>

theorem client_learns_addresses:
  assumes "daemon_ready dm"
    and "cycles_keeping (\<lambda>dm. p \<in> fst ` set (sv_served (dm_server dm)) \<and> (p, d) \<in> set (dm_streams dm)) dm dm'"
  shows "\<exists>outs. sv_out (dm_server dm') = sv_out (dm_server dm) @ outs \<and>
    (\<forall>believed. believed = {m. (m, d) \<in> set (seen_pairs (m_lstMACSeen (dm_network dm)))} \<or>
        (\<exists>v \<in> set (sent_to p outs). listed_macs d v \<noteq> None) \<longrightarrow>
      fold (track (follow_macs d) (listed_macs d)) (sent_to p outs) believed =
        {m. (m, d) \<in> set (seen_pairs (m_lstMACSeen (dm_network dm')))})"
  using addresses.run_tracked [OF assms(2,1)] by (simp add: view_of_def on_device_def)


theorem client_learns_addresses_witness:
  "\<exists>dm' outs. daemon_cycle sample_daemon_env sample_ready = Inr (True, dm') \<and> sv_out (dm_server dm') = outs \<and>
     fold (track (follow_macs ''eth0'') (listed_macs ''eth0'')) (sent_to 0 outs) {''02:00:00:00:00:05''} =
       {m. (m, ''eth0'') \<in> set (seen_pairs (m_lstMACSeen (dm_network dm')))}"
proof -
  from sample_cycle obtain dm' where c: "daemon_cycle sample_daemon_env sample_ready = Inr (True, dm')" ..
  have "{m. (m, ''eth0'') \<in> set (seen_pairs (m_lstMACSeen sample_net))} = {''02:00:00:00:00:05''}"
    using sample_view by (auto simp: view_of_def)
  with client_learns_addresses [OF sample_ready_ok sample_cycles(1) [OF c]] c show ?thesis by auto
qed

end
