(* ===== verification/Arguments.thy ===== *)
theory Arguments
  imports Prelude
begin

text \<open>
  \<open>utils/src/ArgumentParser.cpp\<close>: the command line of the daemon. The vector of arguments is the list
  \<open>vecArtifacts\<close>; the position \<open>unI\<close>, which the inner loop over the prototypes moves when it takes the
  value of a token, is kept as in the code.
\<close>

datatype ArgumentType = Switch | Token | Parameter

record argument_prototype =
  ap_strShort :: string
  ap_strLong :: string
  ap_atType :: ArgumentType

record argument =
  arg_strKey :: string
  arg_strValue :: string
  arg_atType :: ArgumentType

record argument_parser =
  m_lstValidArguments :: "argument_prototype list"
  m_lstArguments :: "argument list"

definition new_parser :: "argument_prototype list \<Rightarrow> argument_parser" where
  "new_parser lstValidArguments = \<lparr>m_lstValidArguments = lstValidArguments, m_lstArguments = []\<rparr>"

definition addArgument :: "argument \<Rightarrow> argument_parser \<Rightarrow> argument_parser" where
  "addArgument argAdd ap = ap\<lparr>m_lstArguments := m_lstArguments ap @ [argAdd]\<rparr>"

text \<open>\<open>strKey\<close>, \<open>bLong\<close> and \<open>bParameter\<close> of an artifact.\<close>

definition classify :: "string \<Rightarrow> string \<times> bool \<times> bool" where
  "classify strArtifact =
     (if take 2 strArtifact = ''--'' then (drop 2 strArtifact, True, False)
      else if take 1 strArtifact = ''-'' then (drop 1 strArtifact, False, False)
      else (strArtifact, False, True))"

definition prototype_fits :: "bool \<Rightarrow> string \<Rightarrow> argument_prototype \<Rightarrow> bool" where
  "prototype_fits bLong strKey p \<longleftrightarrow>
     (bLong \<and> ap_strLong p = strKey) \<or> (\<not> bLong \<and> ap_strShort p = strKey)"

text \<open>One prototype of the inner loop.\<close>

definition match_prototype ::
  "string list \<Rightarrow> bool \<Rightarrow> string \<Rightarrow> argument_prototype \<Rightarrow> nat \<times> argument_parser \<Rightarrow> nat \<times> argument_parser" where
  "match_prototype vecArtifacts bLong strKey p = (\<lambda>(unI, ap).
     if prototype_fits bLong strKey p then
       (case ap_atType p of
          Switch \<Rightarrow> (unI, addArgument \<lparr>arg_strKey = strKey, arg_strValue = [], arg_atType = Switch\<rparr> ap)
        | Token \<Rightarrow>
            if unI < length vecArtifacts - 1 then
              (unI + 1, addArgument \<lparr>arg_strKey = strKey, arg_strValue = vecArtifacts ! (unI + 1),
                          arg_atType = Token\<rparr> ap)
            else (unI, ap)
        | Parameter \<Rightarrow> (unI, ap))
     else (unI, ap))"

lemma match_prototype_le: "fst s \<le> fst (match_prototype vs b k p s)"
  by (cases s) (simp add: match_prototype_def split: ArgumentType.split)

lemma fold_match_le: "fst s \<le> fst (fold (match_prototype vs b k) ps s)"
proof (induction ps arbitrary: s)
  case (Cons p ps)
  from match_prototype_le [of s vs b k p] Cons.IH [of "match_prototype vs b k p s"] show ?case by simp
qed simp

function parse_from :: "string list \<Rightarrow> nat \<Rightarrow> argument_parser \<Rightarrow> argument_parser" where
  "parse_from vecArtifacts unI ap =
     (if unI < length vecArtifacts then
        let (strKey, bLong, bParameter) = classify (vecArtifacts ! unI) in
        if \<not> bParameter then
          let s = fold (match_prototype vecArtifacts bLong strKey) (m_lstValidArguments ap) (unI, ap)
          in parse_from vecArtifacts (fst s + 1) (snd s)
        else
          parse_from vecArtifacts (unI + 1)
            (addArgument \<lparr>arg_strKey = [], arg_strValue = strKey, arg_atType = Parameter\<rparr> ap)
      else ap)"
  by pat_completeness auto
termination
proof (relation "measure (\<lambda>(vs, i, ap). length vs - i)", goal_cases)
  case (2 vs i ap x k y b c s)
  then show ?case using fold_match_le [of "(i, ap)" vs b k "m_lstValidArguments ap"] by simp
qed simp_all

declare parse_from.simps [simp del]

text \<open>\<open>parse\<close>: the first string is the name of the program.\<close>

definition parse :: "string list \<Rightarrow> argument_parser \<Rightarrow> argument_parser" where
  "parse carrArgs ap = parse_from (drop 1 carrArgs) 0 ap"

definition keyFitsArgument :: "string \<Rightarrow> argument \<Rightarrow> argument_parser \<Rightarrow> bool" where
  "keyFitsArgument strKey a ap =
     (case find (\<lambda>p. ap_strShort p = strKey \<or> ap_strLong p = strKey) (m_lstValidArguments ap) of
        None \<Rightarrow> False
      | Some p \<Rightarrow> arg_strKey a = ap_strShort p \<or> arg_strKey a = ap_strLong p)"

definition switched :: "string \<Rightarrow> argument_parser \<Rightarrow> bool" where
  "switched strKey ap \<longleftrightarrow>
     (\<exists>a \<in> set (m_lstArguments ap). arg_atType a = Switch \<and> keyFitsArgument strKey a ap)"

definition argument_value :: "string \<Rightarrow> argument_parser \<Rightarrow> string" where
  "argument_value strKey ap =
     (case find (\<lambda>a. arg_atType a = Token \<and> keyFitsArgument strKey a ap) (m_lstArguments ap) of
        None \<Rightarrow> []
      | Some a \<Rightarrow> arg_strValue a)"

definition parameters :: "argument_parser \<Rightarrow> string list" where
  "parameters ap = map arg_strValue (filter (\<lambda>a. arg_atType a = Parameter) (m_lstArguments ap))"

section \<open>A reference parser\<close>

text \<open>
  When no two prototypes share a name, the loop is a recursion over the list of artifacts that looks
  at one or two of them at a time.
\<close>

definition unambiguous :: "argument_prototype list \<Rightarrow> bool" where
  "unambiguous ps \<longleftrightarrow> distinct (map ap_strShort ps @ map ap_strLong ps)"

fun reference_parse :: "argument_prototype list \<Rightarrow> string list \<Rightarrow> argument list" where
  "reference_parse ps [] = []"
| "reference_parse ps (a # as) =
     (let (k, long, par) = classify a in
      if par then \<lparr>arg_strKey = [], arg_strValue = a, arg_atType = Parameter\<rparr> # reference_parse ps as
      else case find (prototype_fits long k) ps of
          None \<Rightarrow> reference_parse ps as
        | Some p \<Rightarrow> (case ap_atType p of
              Switch \<Rightarrow> \<lparr>arg_strKey = k, arg_strValue = [], arg_atType = Switch\<rparr> # reference_parse ps as
            | Token \<Rightarrow> (case as of
                  [] \<Rightarrow> []
                | v # as \<Rightarrow> \<lparr>arg_strKey = k, arg_strValue = v, arg_atType = Token\<rparr> # reference_parse ps as)
            | Parameter \<Rightarrow> reference_parse ps as))"

lemma fold_match_find:
  assumes "unambiguous ps"
  shows "fold (match_prototype vs b k) ps s =
    (case find (prototype_fits b k) ps of None \<Rightarrow> s | Some p \<Rightarrow> match_prototype vs b k p s)"
  using assms
proof (induction ps arbitrary: s)
  case (Cons p ps)
  have none: "prototype_fits b k p \<Longrightarrow> find (prototype_fits b k) ps = None"
    using Cons.prems by (auto simp: find_None_iff unambiguous_def prototype_fits_def image_iff)
  have skip: "\<not> prototype_fits b k p \<Longrightarrow> match_prototype vs b k p s = s"
    by (cases s) (simp add: match_prototype_def)
  have "unambiguous ps" using Cons.prems by (simp add: unambiguous_def)
  with Cons.IH none skip show ?case by (cases "prototype_fits b k p") simp_all
qed simp

lemma parse_from_reference:
  assumes "unambiguous (m_lstValidArguments ap)"
  shows "parse_from vs i ap =
    ap\<lparr>m_lstArguments := m_lstArguments ap @ reference_parse (m_lstValidArguments ap) (drop i vs)\<rparr>"
  using assms
proof (induction "length vs - i" arbitrary: i ap rule: less_induct)
  case less
  show ?case
  proof (cases "i < length vs")
    case False
    then show ?thesis by (simp add: parse_from.simps)
  next
    case True
    then have d: "drop i vs = vs ! i # drop (i + 1) vs" by (simp add: Cons_nth_drop_Suc)
    obtain k b par where c: "classify (vs ! i) = (k, b, par)" by (cases "classify (vs ! i)")
    have kp: "par \<Longrightarrow> k = vs ! i" using c by (auto simp: classify_def split: if_splits)
    have IH: "i < j \<Longrightarrow> unambiguous (m_lstValidArguments ap') \<Longrightarrow> parse_from vs j ap' =
        ap'\<lparr>m_lstArguments := m_lstArguments ap' @ reference_parse (m_lstValidArguments ap') (drop j vs)\<rparr>" for j ap'
      using less.hyps [of j ap'] True by simp
    show ?thesis
    proof (cases par)
      case True
      with kp c d \<open>i < length vs\<close> IH [of "i + 1"] less.prems show ?thesis
        by (simp add: parse_from.simps [of vs i] addArgument_def)
    next
      case False
      have n: "i < length vs - 1 \<Longrightarrow> drop (i + 1) vs = vs ! (i + 1) # drop (i + 2) vs"
        by (simp add: Cons_nth_drop_Suc)
      have e: "\<not> i < length vs - 1 \<Longrightarrow> drop (i + 1) vs = []" by simp
      show ?thesis
      proof (cases "find (prototype_fits b k) (m_lstValidArguments ap)")
        case None
        with False c d \<open>i < length vs\<close> IH [of "i + 1" ap] less.prems show ?thesis
          by (simp add: parse_from.simps [of vs i] fold_match_find [OF less.prems])
      next
        case (Some p)
        then have "prototype_fits b k p" by (auto simp: find_Some_iff)
        with Some False c d n e \<open>i < length vs\<close> less.prems show ?thesis
          by (cases "ap_atType p"; cases "i < length vs - 1")
             (simp_all add: parse_from.simps [of vs i] fold_match_find [OF less.prems] match_prototype_def
               addArgument_def IH)
      qed
    qed
  qed
qed

section \<open>Properties\<close>

text \<open>C34: when no name belongs to two prototypes, the parser with its moving position does what the reference
  recursion does: it takes the artifacts from the left, each once, a token together with the next.\<close>

theorem parse_is_reference:
  assumes "unambiguous ps"
  shows "m_lstArguments (parse carrArgs (new_parser ps)) = reference_parse ps (drop 1 carrArgs)"
  using parse_from_reference [of "new_parser ps" "drop 1 carrArgs" 0] assms
  by (simp add: parse_def new_parser_def)

text \<open>A command line as a user means it, and how it is written.\<close>

datatype item = ISwitch argument_prototype bool | IToken argument_prototype bool string | IParameter string

definition flag :: "argument_prototype \<Rightarrow> bool \<Rightarrow> string" where
  "flag p long = (if long then ''--'' @ ap_strLong p else ''-'' @ ap_strShort p)"

definition flag_name :: "argument_prototype \<Rightarrow> bool \<Rightarrow> string" where
  "flag_name p long = (if long then ap_strLong p else ap_strShort p)"

fun write_item :: "item \<Rightarrow> string list" where
  "write_item (ISwitch p long) = [flag p long]"
| "write_item (IToken p long v) = [flag p long, v]"
| "write_item (IParameter s) = [s]"

fun item_ok :: "argument_prototype list \<Rightarrow> item \<Rightarrow> bool" where
  "item_ok ps (ISwitch p long) = (p \<in> set ps \<and> ap_atType p = Switch)"
| "item_ok ps (IToken p long v) = (p \<in> set ps \<and> ap_atType p = Token)"
| "item_ok ps (IParameter s) = (take 1 s \<noteq> ''-'')"

fun argument_of :: "item \<Rightarrow> argument" where
  "argument_of (ISwitch p long) = \<lparr>arg_strKey = flag_name p long, arg_strValue = [], arg_atType = Switch\<rparr>"
| "argument_of (IToken p long v) = \<lparr>arg_strKey = flag_name p long, arg_strValue = v, arg_atType = Token\<rparr>"
| "argument_of (IParameter s) = \<lparr>arg_strKey = [], arg_strValue = s, arg_atType = Parameter\<rparr>"

lemma unambiguous_inj:
  assumes "unambiguous ps" "p \<in> set ps" "q \<in> set ps"
  shows "ap_strShort p = ap_strShort q \<Longrightarrow> p = q" "ap_strLong p = ap_strLong q \<Longrightarrow> p = q"
    "ap_strShort p \<noteq> ap_strLong q"
  using assms by (auto simp: unambiguous_def distinct_map dest: inj_onD)

lemma find_flag:
  assumes "unambiguous ps" "p \<in> set ps"
  shows "find (prototype_fits long (flag_name p long)) ps = Some p"
proof -
  have "\<exists>q. find (prototype_fits long (flag_name p long)) ps = Some q"
    using assms(2) by (cases "find (prototype_fits long (flag_name p long)) ps")
      (auto simp: find_None_iff prototype_fits_def flag_name_def split: if_splits)
  then obtain q where q: "find (prototype_fits long (flag_name p long)) ps = Some q" ..
  then have "q \<in> set ps" "prototype_fits long (flag_name p long) q" by (auto simp: find_Some_iff)
  then have "q = p"
    using unambiguous_inj [OF assms(1) _ assms(2), of q] by (auto simp: prototype_fits_def flag_name_def split: if_splits)
  with q show ?thesis by simp
qed

lemma classify_flag:
  "long \<or> take 1 (ap_strShort p) \<noteq> ''-'' \<Longrightarrow> classify (flag p long) = (flag_name p long, long, False)"
  by (cases "ap_strShort p") (auto simp: classify_def flag_def flag_name_def)

lemma reference_items:
  assumes "unambiguous ps" "\<forall>p \<in> set ps. take 1 (ap_strShort p) \<noteq> ''-''" "\<forall>i \<in> set is. item_ok ps i"
  shows "reference_parse ps (concat (map write_item is)) = map argument_of is"
  using assms(3)
proof (induction "is")
  case (Cons i "is")
  have cl: "p \<in> set ps \<Longrightarrow> classify (flag p long) = (flag_name p long, long, False)" for p long
    using assms(2) by (intro classify_flag) auto
  have par: "take 1 s \<noteq> ''-'' \<Longrightarrow> classify s = (s, False, True)" for s
    by (cases s) (auto simp: classify_def)
  from Cons show ?case
    by (cases i) (auto simp: cl par find_flag [OF assms(1)])
qed simp

text \<open>A command line of options in either spelling, tokens with any value and parameters that do not start
  with a dash is read back item by item, and the values of the tokens are not interpreted.\<close>

theorem arguments_roundtrip:
  assumes "unambiguous ps" "\<forall>p \<in> set ps. take 1 (ap_strShort p) \<noteq> ''-''" "\<forall>i \<in> set is. item_ok ps i"
  shows "m_lstArguments (parse (name # concat (map write_item is)) (new_parser ps)) = map argument_of is"
  using reference_items [OF assms] parse_from_reference [of "new_parser ps" _ 0] assms(1)
  by (simp add: parse_def new_parser_def)

text \<open>What the program asks of the parser.\<close>

lemma parse_valid: "unambiguous (m_lstValidArguments ap) \<Longrightarrow>
    m_lstValidArguments (parse args ap) = m_lstValidArguments ap"
  by (simp add: parse_def parse_from_reference)

lemma key_fits_item:
  assumes "unambiguous (m_lstValidArguments ap)" "p \<in> set (m_lstValidArguments ap)" "q \<in> set (m_lstValidArguments ap)"
    "k \<in> {ap_strShort p, ap_strLong p}" "arg_strKey a = flag_name q long"
  shows "keyFitsArgument k a ap \<longleftrightarrow> q = p"
proof -
  let ?P = "\<lambda>p. ap_strShort p = k \<or> ap_strLong p = k"
  have "?P p" using assms(4) by auto
  with assms(2) obtain p' where p': "find ?P (m_lstValidArguments ap) = Some p'"
    by (cases "find ?P (m_lstValidArguments ap)") (auto simp: find_None_iff)
  then have "p' \<in> set (m_lstValidArguments ap)" "?P p'" by (auto simp: find_Some_iff)
  with assms(4) unambiguous_inj [OF assms(1) this(1) assms(2)] unambiguous_inj(3) [OF assms(1) assms(2) this(1)]
  have "p' = p" by auto
  with p' assms(5) unambiguous_inj [OF assms(1) assms(3,2)] unambiguous_inj(3) [OF assms(1) assms(2,3)]
  show ?thesis by (auto simp: keyFitsArgument_def flag_name_def)
qed

text \<open>After parsing such a command line, \<open>switched\<close> answers whether the switch was given, and \<open>value\<close> gives
  the value of the first occurrence of the token, under the short and the long name alike, and an
  empty string when it was not given.\<close>

theorem arguments_answer:
  assumes "unambiguous ps" "\<forall>p \<in> set ps. take 1 (ap_strShort p) \<noteq> ''-''" "\<forall>i \<in> set is. item_ok ps i"
    and "p \<in> set ps" "k \<in> {ap_strShort p, ap_strLong p}"
  shows "(switched k (parse (name # concat (map write_item is)) (new_parser ps)) \<longleftrightarrow>
      (\<exists>long. ISwitch p long \<in> set is)) \<and>
    argument_value k (parse (name # concat (map write_item is)) (new_parser ps)) =
      (case find (\<lambda>i. \<exists>long v. i = IToken p long v) is of Some (IToken q long v) \<Rightarrow> v | _ \<Rightarrow> [])"
proof -
  define ap where "ap = parse (name # concat (map write_item is)) (new_parser ps)"
  have v: "m_lstValidArguments ap = ps" using assms(1) unfolding ap_def by (subst parse_valid) (simp_all add: new_parser_def)
  have a: "m_lstArguments ap = map argument_of is"
    using reference_items [OF assms(1-3)] parse_from_reference [of "new_parser ps" _ 0] assms(1)
    by (simp add: ap_def parse_def new_parser_def)
  have kf: "q \<in> set ps \<Longrightarrow> arg_strKey x = flag_name q long \<Longrightarrow> keyFitsArgument k x ap \<longleftrightarrow> q = p" for q x long
    using key_fits_item [of ap p q k x long] assms(1,4,5) by (simp add: v)
  have sw: "arg_atType (argument_of i) = Switch \<and> keyFitsArgument k (argument_of i) ap \<longleftrightarrow>
      (\<exists>long. i = ISwitch p long)" if "i \<in> set is" for i
  proof -
    have "item_ok ps i" using that assms(3) by blast
    then show ?thesis by (cases i) (auto simp: kf)
  qed
  have tk: "arg_atType (argument_of i) = Token \<and> keyFitsArgument k (argument_of i) ap \<longleftrightarrow>
      (\<exists>long v. i = IToken p long v)" if "i \<in> set is" for i
  proof -
    have "item_ok ps i" using that assms(3) by blast
    then show ?thesis by (cases i) (auto simp: kf)
  qed
  have "find (\<lambda>a. arg_atType a = Token \<and> keyFitsArgument k a ap) (map argument_of js) =
      map_option argument_of (find (\<lambda>i. \<exists>long v. i = IToken p long v) js)" if "set js \<subseteq> set is" for js
    using that tk by (induction js) auto
  note f = this [OF order_refl]
  have "argument_value k ap =
      (case find (\<lambda>i. \<exists>long v. i = IToken p long v) is of Some (IToken q long v) \<Rightarrow> v | _ \<Rightarrow> [])"
  proof (cases "find (\<lambda>i. \<exists>long v. i = IToken p long v) is")
    case None
    with f show ?thesis by (simp add: argument_value_def a)
  next
    case (Some i)
    then obtain long v where "i = IToken p long v" by (auto simp: find_Some_iff)
    with Some f show ?thesis by (simp add: argument_value_def a)
  qed
  moreover have "switched k ap \<longleftrightarrow> (\<exists>long. ISwitch p long \<in> set is)"
    unfolding switched_def a using sw by auto
  ultimately show ?thesis by (simp add: ap_def)
qed

section \<open>The command line of the daemon\<close>

definition daemon_arguments :: "argument_prototype list" where
  "daemon_arguments =
     [\<lparr>ap_strShort = ''d'', ap_strLong = ''daemon'', ap_atType = Switch\<rparr>,
      \<lparr>ap_strShort = ''c'', ap_strLong = ''config-file'', ap_atType = Token\<rparr>]"

lemma daemon_arguments_ok:
  "unambiguous daemon_arguments" "\<forall>p \<in> set daemon_arguments. take 1 (ap_strShort p) \<noteq> ''-''"
  by (simp_all add: unambiguous_def daemon_arguments_def)

theorem parse_is_reference_witness:
  "m_lstArguments (parse [''macdetectd'', ''-c'', ''--daemon''] (new_parser daemon_arguments)) =
     [\<lparr>arg_strKey = ''c'', arg_strValue = ''--daemon'', arg_atType = Token\<rparr>]"
  using parse_is_reference [OF daemon_arguments_ok(1), of "[''macdetectd'', ''-c'', ''--daemon'']"]
  by (simp add: classify_def daemon_arguments_def prototype_fits_def)

abbreviation "sample_items \<equiv>
  [ISwitch \<lparr>ap_strShort = ''d'', ap_strLong = ''daemon'', ap_atType = Switch\<rparr> False,
   IToken \<lparr>ap_strShort = ''c'', ap_strLong = ''config-file'', ap_atType = Token\<rparr> True ''-a'', IParameter ''b'']"

theorem arguments_roundtrip_witness:
  "m_lstArguments (parse [''macdetectd'', ''-d'', ''--config-file'', ''-a'', ''b''] (new_parser daemon_arguments)) =
     [\<lparr>arg_strKey = ''d'', arg_strValue = [], arg_atType = Switch\<rparr>,
      \<lparr>arg_strKey = ''config-file'', arg_strValue = ''-a'', arg_atType = Token\<rparr>,
      \<lparr>arg_strKey = [], arg_strValue = ''b'', arg_atType = Parameter\<rparr>]"
  using arguments_roundtrip [OF daemon_arguments_ok, of sample_items "''macdetectd''"]
  by (simp add: daemon_arguments_def flag_def flag_name_def)

theorem arguments_answer_witness:
  "switched ''daemon'' (parse [''macdetectd'', ''-d'', ''--config-file'', ''-a'', ''b''] (new_parser daemon_arguments)) \<and>
   argument_value ''config-file'' (parse [''macdetectd'', ''-d'', ''--config-file'', ''-a'', ''b'']
     (new_parser daemon_arguments)) = ''-a''"
  using arguments_answer [OF daemon_arguments_ok, of sample_items
      "\<lparr>ap_strShort = ''d'', ap_strLong = ''daemon'', ap_atType = Switch\<rparr>" "''daemon''" "''macdetectd''"]
    arguments_answer [OF daemon_arguments_ok, of sample_items
      "\<lparr>ap_strShort = ''c'', ap_strLong = ''config-file'', ap_atType = Token\<rparr>" "''config-file''" "''macdetectd''"]
  by (simp add: daemon_arguments_def flag_def ex_bool_eq)

end
