(* ===== verification/Startup.thy ===== *)
theory Startup
  imports Daemon_Cycle Arguments
begin

text \<open>
  \<open>macdetectd/src/daemon.cpp\<close> and \<open>macdetectd/src/Globals.cpp\<close>: the start of the daemon, its choice of a
  configuration file, the main loop, which a signal ends, and the exit code. What the operating system
  answers (privileges, \<open>fork\<close>, \<open>setsid\<close>) is a parameter, as is the moment a signal arrives. Here
  signals are handled between two cycles; \<open>Interrupts\<close> is about those that arrive within one.
\<close>

section \<open>Messages\<close>

datatype MessagePriority = Normal | Error

datatype log_output = Syslog int string | Stdout string

text \<open>
  \<open>log\<close> for a format without conversions, as all messages of the start are. \<open>LOG_ERR\<close> is 3 and
  \<open>LOG_NOTICE\<close> is 5.
\<close>

definition log_message :: "bool \<Rightarrow> MessagePriority \<Rightarrow> string \<Rightarrow> log_output" where
  "log_message bDaemon mpPriority carrFormat =
     (if bDaemon then
        Syslog (case mpPriority of Normal \<Rightarrow> 5 | Error \<Rightarrow> 3) carrFormat
      else
        Stdout ((case mpPriority of Normal \<Rightarrow> CHR 0x1B # ''[0m'' | Error \<Rightarrow> CHR 0x1B # ''[0;31m'') @
          ''[macdetectd] '' @ carrFormat @ [CHR 0x0A] @ CHR 0x1B # ''[0m''))"

section \<open>The start\<close>

definition EXIT_SUCCESS :: int where "EXIT_SUCCESS = 0"
definition EXIT_FAILURE :: int where "EXIT_FAILURE = 1"

text \<open>The exit code so far, whether this process runs the daemon, \<open>g_bDaemon\<close>, and the messages.\<close>

record process =
  ps_nReturnvalue :: int
  ps_bRunnable :: bool
  ps_bDaemon :: bool
  ps_log :: "log_output list"

definition say :: "MessagePriority \<Rightarrow> string \<Rightarrow> process \<Rightarrow> process" where
  "say mp msg ps = ps\<lparr>ps_log := ps_log ps @ [log_message (ps_bDaemon ps) mp msg]\<rparr>"

definition start_process :: "bool \<Rightarrow> int \<Rightarrow> int \<Rightarrow> argument_parser \<Rightarrow> process" where
  "start_process bPrivilegesSuffice pPid pSid apArguments =
     (let ps = \<lparr>ps_nReturnvalue = EXIT_FAILURE, ps_bRunnable = False, ps_bDaemon = False, ps_log = []\<rparr> in
      if bPrivilegesSuffice then
        if switched ''daemon'' apArguments then
          let ps = ps\<lparr>ps_bDaemon := True\<rparr> in
          if pPid = 0 then
            let ps = say Normal ''Started macdetectd daemon.'' (ps\<lparr>ps_bRunnable := True\<rparr>);
                ps = (if pSid < 0
                      then say Error ''Could not create process group (failed during `setsid()`).'' ps
                      else ps\<lparr>ps_nReturnvalue := EXIT_SUCCESS\<rparr>)
            in if ps_nReturnvalue ps = EXIT_SUCCESS then ps\<lparr>ps_bRunnable := True\<rparr> else ps
          else if pPid < 0 then ps
          else ps\<lparr>ps_nReturnvalue := EXIT_SUCCESS\<rparr>
        else ps\<lparr>ps_bRunnable := True\<rparr>
      else say Error ''User privileges don't suffice. Exiting.'' ps)"

definition config_files :: "argument_parser \<Rightarrow> string list" where
  "config_files apArguments =
     [argument_value ''config-file'' apArguments,
      ''~/.macdetectd/macdetectd.config'',
      ''/usr/local/share/macdetect/config/default.config'',
      ''/usr/share/macdetect/config/default.config'']"

text \<open>The first file that can be loaded is taken.\<close>

fun load_config ::
  "net_env \<Rightarrow> (string \<Rightarrow> u16 \<Rightarrow> int \<times> bool) \<Rightarrow> (string \<Rightarrow> string option) \<Rightarrow> string list \<Rightarrow> daemon \<Rightarrow>
     (bool \<times> daemon) result" where
  "load_config env bind_of files [] dm = Inr (False, dm)"
| "load_config env bind_of files (f # fs) dm =
     bind_r (parseConfigFile env bind_of files f dm) (\<lambda>(bConfigLoaded, dm).
       if bConfigLoaded then Inr (True, dm) else load_config env bind_of files fs dm)"

section \<open>The main loop\<close>

text \<open>\<open>catchHandler\<close>: \<open>SIGINT\<close> is 2, \<open>SIGTERM\<close> is 15.\<close>

definition catchHandler :: "int \<Rightarrow> daemon \<Rightarrow> daemon" where
  "catchHandler nSignum dm = (if nSignum = 15 \<or> nSignum = 2 then daemon_shutdown dm else dm)"

text \<open>
  The loop in its \<open>n\<close>-th iteration: the signals that have arrived since the last cycle are handled, then
  the cycle runs. The value is \<open>None\<close> when the loop does not end.
\<close>

partial_function (option) main_loop ::
  "(nat \<Rightarrow> daemon_env) \<Rightarrow> (nat \<Rightarrow> int list) \<Rightarrow> nat \<Rightarrow> daemon \<Rightarrow> daemon result option" where
  "main_loop envs signals n dm =
     (case daemon_cycle (envs n) (fold catchHandler (signals n) dm) of
        Inl e \<Rightarrow> Some (Inl e)
      | Inr (b, dm) \<Rightarrow> if b then main_loop envs signals (Suc n) dm else Some (Inr dm))"

definition run_daemon ::
  "net_env \<Rightarrow> (string \<Rightarrow> u16 \<Rightarrow> int \<times> bool) \<Rightarrow> (string \<Rightarrow> string option) \<Rightarrow> argument_parser \<Rightarrow>
     (nat \<Rightarrow> daemon_env) \<Rightarrow> (nat \<Rightarrow> int list) \<Rightarrow> process \<Rightarrow> daemon \<Rightarrow> (process \<times> daemon) result option" where
  "run_daemon env bind_of files apArguments envs signals ps dm =
     (case load_config env bind_of files (config_files apArguments) dm of
        Inl e \<Rightarrow> Some (Inl e)
      | Inr (bConfigLoaded, dm) \<Rightarrow>
          let ps = (if \<not> bConfigLoaded
                then say Error ''Didn't find any valid configuration files. The daemon will run unconfigured.'' ps
                else ps);
              ps = say Normal ''Entering main loop.'' ps
          in map_option (map_sum id (\<lambda>dm. (say Normal ''Exiting gracefully.'' ps, dm)))
               (main_loop envs signals 0 dm))"

definition daemon_main ::
  "bool \<Rightarrow> int \<Rightarrow> int \<Rightarrow> net_env \<Rightarrow> (string \<Rightarrow> u16 \<Rightarrow> int \<times> bool) \<Rightarrow> (string \<Rightarrow> string option) \<Rightarrow> string list \<Rightarrow>
     (nat \<Rightarrow> daemon_env) \<Rightarrow> (nat \<Rightarrow> int list) \<Rightarrow> daemon \<Rightarrow> (process \<times> daemon) result option" where
  "daemon_main bPrivilegesSuffice pPid pSid env bind_of files argv envs signals dm =
     (let apArguments = parse argv (new_parser daemon_arguments);
          ps = start_process bPrivilegesSuffice pPid pSid apArguments
      in if ps_bRunnable ps then run_daemon env bind_of files apArguments envs signals ps dm
         else Some (Inr (ps, dm)))"

section \<open>The flags that stop the daemon\<close>

definition running :: "daemon \<Rightarrow> bool" where
  "running dm \<longleftrightarrow> m_bShouldRun (dm_network dm) \<and> sv_run (dm_server dm)"

lemma server_cycle_run:
  assumes "server_inv sv" "server_cycle env sv = Inr (True, sv')"
  shows "sv_run sv'"
proof -
  have run: "sv_run sv" using assms(2) by (auto simp: server_cycle_eq split: if_splits)
  from server_cycle_Inr [OF assms(1) run server_cycle_receives [OF assms(1) run assms(2)]] assms(2)
    listening_laws(6) [OF assms(1), of env] run
  show ?thesis by auto
qed

lemma handle_request_run:
  assumes "env_ok env" "handle_request env q dm = Inr dm'"
  shows "sv_run (dm_server dm') = sv_run (dm_server dm)"
  using handle_request_Inr [OF assms(2)] answer_laws(1) [OF assms(1)] by (fastforce simp: post_def)

interpretation running_requests: preserving_r "\<lambda>_. env_ok env" "\<lambda>dm. sv_run (dm_server dm)" "handle_request env"
  for env
  by unfold_locales (simp add: handle_request_run)

lemma cycle_flags:
  assumes env: "env_ok (de_net env)" and ready: "daemon_ready dm" and c: "daemon_cycle env dm = Inr (b, dm')"
  shows "b = running dm" "b \<Longrightarrow> running dm'"
proof -
  have inv: "net_inv (dm_network dm)" "server_inv (dm_server dm)"
    using ready by (simp_all add: daemon_ready_def daemon_inv_def)
  have net: "r = m_bShouldRun (dm_network dm) \<and> m_bShouldRun nw = m_bShouldRun (dm_network dm)"
    if "cycle (de_net env) (dm_network dm) = Inr (r, nw)" for r nw
    using cycle_SomeD [OF env inv(1) that] configD(6) [OF cycle_config [OF env inv(1) that]] by auto
  have yes: "running dm \<and> running dm'" if t: "daemon_cycle env dm = Inr (True, dm')"
  proof -
    obtain nw sv dm1 dm2 ds where s: "cycle (de_net env) (dm_network dm) = Inr (True, nw)"
        "server_cycle (de_sock env) (dm_server dm) = Inr (True, sv)"
        "handle_queue (de_net env) (received_state nw sv dm) = Inr dm1"
        "fold_r (handle_event (de_net env)) (m_lstEvents (dm_network dm1)) dm1 = Inr dm2"
        "dm' = keepalive (de_net env) (dm2\<lparr>dm_discovery := ds\<rparr>)"
      by (rule daemon_cycle_True [OF t])
    have "sv_run (dm_server dm)" using s(2) by (auto simp: server_cycle_eq split: if_splits)
    with net [OF s(1)] have r: "running dm" by (simp add: running_def)
    have "sv_run sv" by (rule server_cycle_run [OF inv(2) s(2)])
    then have "sv_run (dm_server ((received_state nw sv dm)\<lparr>dm_server :=
        (dm_server (received_state nw sv dm))\<lparr>sv_queue := []\<rparr>\<rparr>))"
      by (simp add: received_state_def handle_removed_eq)
    from running_requests.fold_r_inv [OF this _ s(3) [unfolded handle_queue_eq]] env
    have r1: "sv_run (dm_server dm1)" by simp
    have nw: "net_inv nw" by (rule cycle_inv [OF env inv(1) s(1)])
    have "\<forall>q \<in> set (sv_queue (dm_server (received_state nw sv dm))).
        qv_served q \<in> fst ` set (sv_served (dm_server (received_state nw sv dm)))"
      using received_state_inv(2) [OF ready nw s(2)] by (simp add: received_state_def handle_removed_eq)
    from handle_queue_ok [OF env s(3) this] have cf: "config (dm_network dm1) = config nw"
      by (simp add: answers_ok_def net_same_def received_state_def handle_removed_eq)
    have r2: "m_bShouldRun (dm_network dm1)" using net [OF s(1)] configD(6) [OF cf] by simp
    from events_frameD [OF s(4)] r1 r2 have "running (dm2\<lparr>dm_discovery := ds\<rparr>)"
      by (auto simp: events_frame_def running_def)
    then have "running dm'" by (simp add: s(5) keepalive_eq running_def Let_def)
    with r show ?thesis ..
  qed
  have no: "\<not> running dm" if f: "daemon_cycle env dm = Inr (False, dm')"
  proof -
    from daemon_cycle_False [OF f] obtain r nw where
      "cycle (de_net env) (dm_network dm) = Inr (r, nw)" "r \<longrightarrow> \<not> sv_run (dm_server dm)" by blast
    with net show ?thesis by (auto simp: running_def)
  qed
  show "b = running dm" using c yes no by (cases b) auto
  show "b \<Longrightarrow> running dm'" using c yes by auto
qed

section \<open>Signals\<close>

lemma catchHandler_ready: "daemon_ready dm \<Longrightarrow> daemon_ready (catchHandler s dm)"
  by (simp add: catchHandler_def daemon_step_ready [OF do_shutdown])

interpretation catching: preserving "\<lambda>_. True" daemon_ready catchHandler
  by unfold_locales (rule catchHandler_ready)

lemma catch_other: "s \<notin> {2, 15} \<Longrightarrow> catchHandler s dm = dm"
  by (simp add: catchHandler_def)

lemma catch_stops:
  assumes "daemon_ready dm" "\<exists>s \<in> set ss. s \<in> {2, 15}"
  shows "stopped (fold catchHandler ss dm)"
  using assms
proof (induction ss arbitrary: dm)
  case (Cons s ss)
  have keep: "stopped dm1 \<Longrightarrow> stopped (fold catchHandler ts dm1)" for ts dm1
  proof (induction ts arbitrary: dm1)
    case (Cons t ts)
    then show ?case by (auto simp: catchHandler_def intro: stopped_step do_shutdown)
  qed simp
  show ?case
  proof (cases "s \<in> {2, 15}")
    case True
    then have "stopped (catchHandler s dm)"
      using Cons.prems(1) shutdown_stopped by (auto simp: catchHandler_def)
    with keep show ?thesis by simp
  next
    case False
    with Cons show ?thesis by (simp add: catch_other)
  qed
qed simp

lemma main_loop_stopped:
  assumes "env_ok (de_net (envs n))" "stopped (fold catchHandler (signals n) dm)"
  shows "\<exists>r. main_loop envs signals n dm = Some r"
proof (cases "daemon_cycle (envs n) (fold catchHandler (signals n) dm)")
  case (Inr x)
  then obtain b dm' where "daemon_cycle (envs n) (fold catchHandler (signals n) dm) = Inr (b, dm')" by (cases x) auto
  with stopped_cycle(1) [OF assms this] show ?thesis by (subst main_loop.simps) simp
qed (subst main_loop.simps, simp)

lemma main_loop_ends:
  assumes "\<forall>i. env_ok (de_net (envs i))" "\<exists>s \<in> set (signals k). s \<in> {2, 15}"
  shows "daemon_ready dm \<Longrightarrow> n \<le> k \<Longrightarrow> \<exists>r. main_loop envs signals n dm = Some r"
proof (induction "k - n" arbitrary: n dm)
  case 0
  with assms show ?case by (intro main_loop_stopped catch_stops) auto
next
  case (Suc m)
  let ?dm = "fold catchHandler (signals n) dm"
  have ready: "daemon_ready ?dm" using Suc.prems(1) by (intro catching.fold_inv) auto
  show ?case
  proof (cases "daemon_cycle (envs n) ?dm")
    case (Inl e)
    then show ?thesis by (subst main_loop.simps) simp
  next
    case (Inr x)
    then obtain b dm' where c: "daemon_cycle (envs n) ?dm = Inr (b, dm')" by (cases x) auto
    have "daemon_ready dm'" using daemon_cycle_ready [OF _ ready c] assms(1) by blast
    with Suc have "\<exists>r. main_loop envs signals (Suc n) dm' = Some r" by simp
    with c show ?thesis by (subst main_loop.simps) (cases b; simp)
  qed
qed

text \<open>The daemon ends when it is told to: if at some time a SIGINT or a SIGTERM arrives, the main loop
  returns, whatever the network and the clients do.\<close>

theorem signal_ends_main_loop:
  assumes "daemon_ready dm" "\<forall>i. env_ok (de_net (envs i))" "\<exists>s \<in> set (signals k). s \<in> {2, 15}" "n \<le> k"
  shows "\<exists>r. main_loop envs signals n dm = Some r"
  using main_loop_ends [of envs signals k dm n] assms by blast

theorem signal_ends_main_loop_witness:
  "\<exists>r. main_loop (\<lambda>i. sample_daemon_env) (\<lambda>i. if i = 3 then [15] else []) 0 sample_ready = Some r"
  by (rule signal_ends_main_loop [where k = 3]) simp_all

text \<open>The states in which an iteration of the loop begins.\<close>

inductive loop_state ::
  "(nat \<Rightarrow> daemon_env) \<Rightarrow> (nat \<Rightarrow> int list) \<Rightarrow> nat \<Rightarrow> daemon \<Rightarrow> nat \<Rightarrow> daemon \<Rightarrow> bool" for envs signals where
  now: "loop_state envs signals n dm n dm"
| later: "daemon_cycle (envs n) (fold catchHandler (signals n) dm) = Inr (True, dm1) \<Longrightarrow>
    loop_state envs signals (Suc n) dm1 i dm' \<Longrightarrow> loop_state envs signals n dm i dm'"

text \<open>The conditions under which a cycle does not fault.\<close>

definition well_served :: "daemon_env \<Rightarrow> daemon \<Rightarrow> bool" where
  "well_served env dm \<longleftrightarrow> env_ok (de_net env) \<and> patterns_ok (de_net env) (dm_network dm) \<and>
     clients_ask (de_sock env) (dm_server dm) \<and>
     (\<exists>rd. discovery_cycle (de_stale env) (de_multicast env) (junk_of (de_sock env)) (dm_discovery dm) = Inr rd)"

lemma well_served_cycle:
  "well_served env dm \<Longrightarrow> daemon_ready dm \<Longrightarrow> \<exists>b dm'. daemon_cycle env dm = Inr (b, dm') \<and> daemon_ready dm'"
  using daemon_cycle_runs daemon_cycle_ready unfolding well_served_def by blast

lemma main_loop_graceful:
  assumes "\<exists>s \<in> set (signals k). s \<in> {2, 15}"
  shows "daemon_ready dm \<Longrightarrow> n \<le> k \<Longrightarrow>
    (\<And>i dm'. loop_state envs signals n dm i dm' \<Longrightarrow> well_served (envs i) (fold catchHandler (signals i) dm')) \<Longrightarrow>
    \<exists>dm'. main_loop envs signals n dm = Some (Inr dm')"
proof (induction "k - n" arbitrary: n dm)
  case 0
  let ?dm = "fold catchHandler (signals n) dm"
  have w: "well_served (envs n) ?dm" by (rule "0.prems"(3) [OF now])
  have "stopped ?dm" using 0 assms by (intro catch_stops) auto
  moreover obtain b dm' where c: "daemon_cycle (envs n) ?dm = Inr (b, dm')"
    using well_served_cycle [OF w] "0.prems"(1) catching.fold_inv by fastforce
  ultimately have "\<not> b" using stopped_cycle(1) w by (auto simp: well_served_def)
  with c show ?case by (subst main_loop.simps) simp
next
  case (Suc m)
  let ?dm = "fold catchHandler (signals n) dm"
  have w: "well_served (envs n) ?dm" by (rule Suc.prems(3) [OF now])
  have "daemon_ready ?dm" using Suc.prems(1) by (intro catching.fold_inv) auto
  from well_served_cycle [OF w this] obtain b dm' where
      c: "daemon_cycle (envs n) ?dm = Inr (b, dm')" "daemon_ready dm'" by blast
  show ?case
  proof (cases b)
    case True
    have "\<exists>dm''. main_loop envs signals (Suc n) dm' = Some (Inr dm'')"
    proof (rule Suc.hyps(1))
      show "well_served (envs i) (fold catchHandler (signals i) x)" if "loop_state envs signals (Suc n) dm' i x" for i x
        by (rule Suc.prems(3) [OF later [OF _ that]]) (use c True in simp)
    qed (use Suc c in auto)
    with c True show ?thesis by (subst main_loop.simps) simp
  next
    case False
    with c show ?thesis by (subst main_loop.simps) simp
  qed
qed

text \<open>The daemon ends when it is told to: if at some time a SIGINT or a SIGTERM arrives, and until then the
  clients send complete requests, the packets of the multicast group can be read and the patterns of the
  configuration are well-formed, the main loop returns, without a fault.\<close>

theorem graceful_shutdown:
  assumes "daemon_ready dm" "\<exists>s \<in> set (signals k). s \<in> {2, 15}" "n \<le> k"
    and "\<forall>i dm'. loop_state envs signals n dm i dm' \<longrightarrow> well_served (envs i) (fold catchHandler (signals i) dm')"
  shows "\<exists>dm'. main_loop envs signals n dm = Some (Inr dm')"
  using assms(4) by (intro main_loop_graceful [where signals = signals and k = k, OF assms(2,1,3)]) blast

lemma loop_state_ready:
  "loop_state envs signals n dm i dm' \<Longrightarrow> \<forall>i. env_ok (de_net (envs i)) \<Longrightarrow> daemon_ready dm \<Longrightarrow> daemon_ready dm'"
proof (induction rule: loop_state.induct)
  case (later n dm dm1 i dm')
  have "daemon_ready (fold catchHandler (signals n) dm)" using later.prems(2) by (intro catching.fold_inv) auto
  with later daemon_cycle_ready show ?case by blast
qed

definition quiet_env :: daemon_env where
  "quiet_env = sample_daemon_env\<lparr>de_sock := sample_sock\<lparr>recv_of := \<lambda>fd n. RecvError True\<rparr>\<rparr>"

lemma quiet_well_served:
  assumes "daemon_ready dm"
  shows "well_served quiet_env dm"
proof -
  let ?sock = "sample_sock\<lparr>recv_of := \<lambda>fd n. RecvError True\<rparr>"
  have "server_inv (dm_server dm)" using assms by (simp add: daemon_ready_def daemon_inv_def)
  from listening_laws(1) [OF this, of ?sock] have
    "\<forall>(p, i) \<in> set (sv_served (listening ?sock (dm_server dm))). sv_heap (listening ?sock (dm_server dm)) p \<noteq> None"
    by (auto simp: server_inv_def)
  moreover have "receive (\<lambda>n. RecvError True) junk False pe = Inr (None, False, pe, 0)" for junk pe
    by (simp add: receive_def peek_loop.simps [of _ 0] int_max_def Let_def)
  ultimately have "clients_ask ?sock (dm_server dm)"
    by (fastforce simp: clients_ask_def client_receive_def)
  moreover have "\<exists>rd. discovery_cycle False (\<lambda>n. RecvError True) (junk_of ?sock) (dm_discovery dm) = Inr rd"
    using discovery_idle_fails [of "\<lambda>n. RecvError True" False "junk_of ?sock" "dm_discovery dm"] by blast
  ultimately show ?thesis
    by (simp add: well_served_def quiet_env_def patterns_ok_def sample_env_def [THEN arg_cong [where f = regex_match]])
qed

theorem graceful_shutdown_witness:
  "\<exists>dm'. main_loop (\<lambda>i. quiet_env) (\<lambda>i. if i = 3 then [15] else []) 0 sample_ready = Some (Inr dm')"
proof -
  let ?envs = "\<lambda>i :: nat. quiet_env" and ?signals = "\<lambda>i :: nat. if i = 3 then [15] else []"
  have w: "\<forall>i dm'. loop_state ?envs ?signals 0 sample_ready i dm' \<longrightarrow>
      well_served (?envs i) (fold catchHandler (?signals i) dm')"
  proof (intro allI impI)
    fix i dm'
    assume "loop_state ?envs ?signals 0 sample_ready i dm'"
    from loop_state_ready [OF this] have "daemon_ready dm'" by (simp add: quiet_env_def)
    then show "well_served (?envs i) (fold catchHandler (?signals i) dm')"
      by (intro quiet_well_served catching.fold_inv) auto
  qed
  have s: "\<exists>s \<in> set (?signals 3). s \<in> {2, 15}" by simp
  show ?thesis by (rule graceful_shutdown [where signals = ?signals and k = 3, OF sample_ready_ok s _ w]) simp
qed

lemma no_signal: "\<forall>s \<in> set ss. s \<notin> {2, 15} \<Longrightarrow> fold catchHandler ss dm = dm"
  by (induction ss) (simp_all add: catch_other)

definition undisturbed :: "(nat \<Rightarrow> daemon_env) \<Rightarrow> (nat \<Rightarrow> int list) \<Rightarrow> daemon \<Rightarrow> bool" where
  "undisturbed envs signals dm \<longleftrightarrow> (\<forall>i. env_ok (de_net (envs i))) \<and> (\<forall>i. \<forall>s \<in> set (signals i). s \<notin> {2, 15}) \<and>
     daemon_ready dm \<and> running dm"

lemma main_loop_running:
  assumes "main_loop envs signals n dm = Some r" "undisturbed envs signals dm"
  shows "\<exists>e. r = Inl e"
proof -
  have "undisturbed envs signals dm \<longrightarrow> (\<exists>e. r = Inl e)"
  proof (rule main_loop.raw_induct [where P = "\<lambda>envs signals n dm r. undisturbed envs signals dm \<longrightarrow> (\<exists>e. r = Inl e)",
        OF _ assms(1)], intro impI)
    fix ml envs signals n dm r
    assume IH: "\<And>envs signals n dm r. ml envs signals n dm = Some r \<Longrightarrow>
        undisturbed envs signals dm \<longrightarrow> (\<exists>e. r = (Inl e :: daemon result))"
      and step: "(case daemon_cycle (envs n) (fold catchHandler (signals n) dm) of
          Inl e \<Rightarrow> Some (Inl e)
        | Inr (b, dm) \<Rightarrow> if b then ml envs signals (Suc n) dm else Some (Inr dm)) = Some r"
      and u: "undisturbed envs signals dm"
    have env: "env_ok (de_net (envs n))" and ready: "daemon_ready dm" and run: "running dm"
      and f: "fold catchHandler (signals n) dm = dm"
      using u by (auto simp: undisturbed_def intro: no_signal)
    show "\<exists>e. r = Inl e"
    proof (cases "daemon_cycle (envs n) dm")
      case (Inl e)
      with step show ?thesis by (auto simp: f)
    next
      case (Inr x)
      then obtain b dm' where c: "daemon_cycle (envs n) dm = Inr (b, dm')" by (cases x) auto
      note fl = cycle_flags [OF env ready c]
      have b: "b" using fl(1) run by simp
      have "undisturbed envs signals dm'"
        using u fl(2) [OF b] daemon_cycle_ready [OF env ready c] by (simp add: undisturbed_def)
      with IH [of envs signals "Suc n" dm' r] step show ?thesis by (simp add: f c b)
    qed
  qed
  with assms(2) show ?thesis by blast
qed

text \<open>And only then: a daemon that was not shut down and receives neither SIGINT nor SIGTERM never leaves
  its main loop gracefully.\<close>

theorem no_exit_without_signal:
  assumes "daemon_ready dm" "m_bShouldRun (dm_network dm)" "sv_run (dm_server dm)"
    "\<forall>i. env_ok (de_net (envs i))" "\<forall>i. \<forall>s \<in> set (signals i). s \<notin> {2, 15}"
  shows "main_loop envs signals n dm \<noteq> Some (Inr dm')"
  using main_loop_running [of envs signals n dm "Inr dm'"] assms by (auto simp: running_def undisturbed_def)

theorem no_exit_without_signal_witness:
  "main_loop (\<lambda>i. sample_daemon_env) (\<lambda>i. [1]) 0 sample_ready \<noteq> Some (Inr sample_ready)"
proof -
  have "m_bShouldRun (dm_network sample_ready)" "sv_run (dm_server sample_ready)"
    using sample_server_run by simp_all (simp add: sample_net_def)
  then show ?thesis by (intro no_exit_without_signal) simp_all
qed

section \<open>Exit code and configuration\<close>

lemma start_foreground:
  "\<not> switched ''daemon'' ap \<Longrightarrow> start_process True pid sid ap =
     \<lparr>ps_nReturnvalue = EXIT_FAILURE, ps_bRunnable = True, ps_bDaemon = False, ps_log = []\<rparr>"
  by (simp add: start_process_def Let_def)

lemma say_simps [simp]:
  "ps_nReturnvalue (say mp m ps) = ps_nReturnvalue ps" "ps_bRunnable (say mp m ps) = ps_bRunnable ps"
  "ps_bDaemon (say mp m ps) = ps_bDaemon ps"
  by (simp_all add: say_def)

lemma map_sum_Inr_iff: "map_sum f g x = Inr y \<longleftrightarrow> (\<exists>z. x = Inr z \<and> y = g z)"
  by (cases x) auto

lemma run_daemon_code:
  assumes "run_daemon env bind_of files ap envs signals ps dm = Some (Inr (ps', dm'))"
  shows "ps_nReturnvalue ps' = ps_nReturnvalue ps"
  using assms by (auto simp: run_daemon_def Let_def map_sum_Inr_iff split: sum.splits prod.splits if_splits)

text \<open>In the foreground the daemon reports failure to its caller also when it was started, configured and
  ended without any error: nothing sets the exit code to success.\<close>

theorem foreground_exit_code:
  assumes "\<not> switched ''daemon'' (parse argv (new_parser daemon_arguments))"
    "daemon_main True pid sid env bind_of files argv envs signals dm = Some (Inr (ps, dm'))"
  shows "ps_nReturnvalue ps = EXIT_FAILURE"
  using assms run_daemon_code by (fastforce simp: daemon_main_def start_foreground Let_def)

lemma load_config_none: "load_config env bind_of (\<lambda>p. None) fs dm = Inr (False, dm)"
  by (induction fs) (simp_all add: parseConfigFile_def loadFromFile_def)

theorem foreground_exit_code_witness:
  "\<exists>ps dm'. daemon_main True 0 0 sample_env (\<lambda>d p. (5, True)) (\<lambda>p. None) [''macdetectd'']
     (\<lambda>i. sample_daemon_env) (\<lambda>i. [2]) sample_ready = Some (Inr (ps, dm')) \<and> ps_nReturnvalue ps = 1"
proof -
  have sw: "\<not> switched ''daemon'' (parse [''macdetectd''] (new_parser daemon_arguments))"
    by (simp add: parse_def parse_from.simps switched_def new_parser_def)
  have "daemon_ready (daemon_shutdown sample_ready)"
    using shutdown_stopped [OF sample_ready_ok] by (simp add: stopped_def)
  moreover have "patterns_ok sample_env (dm_network (daemon_shutdown sample_ready))"
    using sample_patterns by (simp add: daemon_shutdown_def shutdown_def patterns_ok_def)
  ultimately obtain nw where "cycle sample_env (dm_network (daemon_shutdown sample_ready)) = Inr (False, nw)"
    using cycle_runs [of sample_env "dm_network (daemon_shutdown sample_ready)"]
    by (auto simp: daemon_ready_def daemon_inv_def daemon_shutdown_def shutdown_def)
  then have "main_loop (\<lambda>i. sample_daemon_env) (\<lambda>i. [2]) 0 sample_ready =
      Some (Inr ((daemon_shutdown sample_ready)\<lparr>dm_network := nw\<rparr>))"
    by (subst main_loop.simps) (simp add: daemon_cycle_def catchHandler_def)
  with sw obtain ps dm' where m: "daemon_main True 0 0 sample_env (\<lambda>d p. (5, True)) (\<lambda>p. None) [''macdetectd'']
      (\<lambda>i. sample_daemon_env) (\<lambda>i. [2]) sample_ready = Some (Inr (ps, dm'))"
    by (simp add: daemon_main_def start_foreground run_daemon_def load_config_none Let_def)
  with foreground_exit_code [OF sw m] show ?thesis by (simp add: EXIT_FAILURE_def)
qed

section \<open>The configuration that comes with the daemon\<close>

definition default_config :: string where
  "default_config = concat (map (\<lambda>l. l @ [CHR 0x0A])
    [''# This is a default config file for the macdetectd daemon.'', [],
     ''[server]'',
     ''serve=\"lo:7090\", \"wlan0:7090\", \"eth1:7090\", \"eth0:7090\"'',
     ''keepalive-interval=1.0'',
     ''name=\"Test Server\"'', [],
     ''[network]'',
     ''list-mode=whitelist'',
     ''allowed-devices=\"(wlan)(.*)\", \"(wifi)(.*)\", \"(eth)(.*)\", \"(en)(.*)\"'',
     ''max-mac-age=300.0'' @ CHR 0x09 # ''      # The maximum age of a MAC before it gets deleted'',
     ''update-interval=10.0'' @ CHR 0x09 # ''      # Interval in which a MAC address is updated'',
     ''ping-broadcast-interval=10.0  # Interval in which ping request are broadcast''])"

definition default_sections :: sections where
  "default_sections =
    [(''network'', [(''allowed-devices'', ''\"(wlan)(.*)\", \"(wifi)(.*)\", \"(eth)(.*)\", \"(en)(.*)\"''),
       (''list-mode'', ''whitelist''), (''max-mac-age'', ''300.0''), (''ping-broadcast-interval'', ''10.0''),
       (''update-interval'', ''10.0'')]),
     (''server'', [(''keepalive-interval'', ''1.0''), (''name'', ''\"Test Server\"''),
       (''serve'', ''\"lo:7090\", \"wlan0:7090\", \"eth1:7090\", \"eth0:7090\"'')])]"

lemma default_sections_read:
  "loadFromString default_config = Inr default_sections"
  "config_list ''server'' ''serve'' default_sections = Inr [''lo:7090'', ''wlan0:7090'', ''eth1:7090'', ''eth0:7090'']"
  "config_list ''network'' ''allowed-devices'' default_sections =
     Inr [''(wlan)(.*)'', ''(wifi)(.*)'', ''(eth)(.*)'', ''(en)(.*)'']"
  "config_value ''network'' ''list-mode'' ''whitelist'' True default_sections = ''whitelist''"
  "config_value ''server'' ''name'' ''New Server'' True default_sections = ''Test Server''"
  by code_simp+

lemma default_doubles:
  "doubleValue ''network'' ''max-mac-age'' 300 default_sections = 300"
  "doubleValue ''network'' ''update-interval'' 10 default_sections = 10"
  "doubleValue ''network'' ''ping-broadcast-interval'' 10 default_sections = 10"
  "doubleValue ''server'' ''keepalive-interval'' 1 default_sections = 1"
proof -
  have v: "config_value ''network'' ''max-mac-age'' [] True default_sections = ''300.0''"
    "config_value ''network'' ''update-interval'' [] True default_sections = ''10.0''"
    "config_value ''network'' ''ping-broadcast-interval'' [] True default_sections = ''10.0''"
    "config_value ''server'' ''keepalive-interval'' [] True default_sections = ''1.0''"
    by code_simp+
  have "scan_double ''300.0'' = Some 300" "scan_double ''10.0'' = Some 10" "scan_double ''1.0'' = Some 1"
    by (simp_all add: scan_double_def scan_sign_def is_space_def is_dec_def dec_value_def dec_nat_def
        scan_exponent_def pow10_def Let_def)
  then show "doubleValue ''network'' ''max-mac-age'' 300 default_sections = 300"
    "doubleValue ''network'' ''update-interval'' 10 default_sections = 10"
    "doubleValue ''network'' ''ping-broadcast-interval'' 10 default_sections = 10"
    "doubleValue ''server'' ''keepalive-interval'' 1 default_sections = 1"
    by (simp_all add: doubleValue_def v)
qed

text \<open>Which of the served devices get a socket.\<close>

definition bindable :: "(string \<Rightarrow> u16 \<Rightarrow> int \<times> bool) \<Rightarrow> string \<times> u16 \<Rightarrow> bool" where
  "bindable bind_of = (\<lambda>(d, port). fst (bind_of d port) \<noteq> - 1 \<and> snd (bind_of d port))"

definition served_on :: "server \<Rightarrow> (string \<times> u16) list" where
  "served_on sv = map (\<lambda>s. (strDeviceName s, usPort s)) (sv_servings sv)"

lemma scan_7090: "scan_int ''7090'' = Some 7090"
  using scan_examples(1) .

lemma serve_entry_7090:
  assumes "CHR 0x3A \<notin> set d" "length d < 16" "(d, 7090) \<notin> set (served_on (dm_server dm))"
  shows "\<exists>sv. serve_entry bind_of (d @ '':7090'') dm = Inr (dm\<lparr>dm_server := sv\<rparr>) \<and>
    served_on sv = served_on (dm_server dm) @ filter (bindable bind_of) [(d, 7090)]"
proof -
  have f: "find_first (\<lambda>c. c = CHR 0x3A) (d @ '':7090'') = Some (length d)"
    using assms(1) by (induction d) auto
  have p: "\<not> (\<exists>s \<in> set (sv_servings (dm_server dm)). strDeviceName s = d \<and> usPort s = 7090)"
    using assms(3) by (auto simp: served_on_def)
  obtain fd b where b: "bind_of d 7090 = (fd, b)" by (cases "bind_of d 7090")
  note defs = serve_entry_def f scan_7090 int_max_def b daemon_serve_def serve_def served_on_def bindable_def Let_def
  show ?thesis
  proof (cases "fd \<noteq> - 1 \<and> b")
    case True
    with p assms(2) show ?thesis by (auto simp: defs)
  next
    case False
    with p assms(2) show ?thesis by (intro exI [of _ "dm_server dm"]) (auto simp: defs)
  qed
qed

lemma entries_without_devices:
  "m_lstDevices nw = [] \<Longrightarrow> fold_r (addDeviceWhiteBlacklistEntry env) ps nw =
     Inr (nw\<lparr>m_lstDeviceWhiteBlackList := m_lstDeviceWhiteBlackList nw @ ps\<rparr>)"
  by (induction ps arbitrary: nw) (simp_all add: addDeviceWhiteBlacklistEntry_def)

lemma default_serves:
  assumes "sv_servings (dm_server dm) = []"
  shows "\<exists>sv. fold_r (serve_entry bind_of) [''lo:7090'', ''wlan0:7090'', ''eth1:7090'', ''eth0:7090''] dm =
      Inr (dm\<lparr>dm_server := sv\<rparr>) \<and>
    served_on sv = filter (bindable bind_of) [(''lo'', 7090), (''wlan0'', 7090), (''eth1'', 7090), (''eth0'', 7090)]"
proof -
  have n: "served_on (dm_server dm) = []" using assms by (simp add: served_on_def)
  from serve_entry_7090 [of "''lo''" dm bind_of] n obtain s1 where
    1: "serve_entry bind_of ''lo:7090'' dm = Inr (dm\<lparr>dm_server := s1\<rparr>)"
      "served_on s1 = filter (bindable bind_of) [(''lo'', 7090)]" by auto
  from serve_entry_7090 [of "''wlan0''" "dm\<lparr>dm_server := s1\<rparr>" bind_of] 1(2) obtain s2 where
    2: "serve_entry bind_of ''wlan0:7090'' (dm\<lparr>dm_server := s1\<rparr>) = Inr (dm\<lparr>dm_server := s2\<rparr>)"
      "served_on s2 = filter (bindable bind_of) [(''lo'', 7090), (''wlan0'', 7090)]"
    by (auto split: if_splits)
  from serve_entry_7090 [of "''eth1''" "dm\<lparr>dm_server := s2\<rparr>" bind_of] 2(2) obtain s3 where
    3: "serve_entry bind_of ''eth1:7090'' (dm\<lparr>dm_server := s2\<rparr>) = Inr (dm\<lparr>dm_server := s3\<rparr>)"
      "served_on s3 = filter (bindable bind_of) [(''lo'', 7090), (''wlan0'', 7090), (''eth1'', 7090)]"
    by (auto split: if_splits)
  from serve_entry_7090 [of "''eth0''" "dm\<lparr>dm_server := s3\<rparr>" bind_of] 3(2) obtain s4 where
    4: "serve_entry bind_of ''eth0:7090'' (dm\<lparr>dm_server := s3\<rparr>) = Inr (dm\<lparr>dm_server := s4\<rparr>)"
      "served_on s4 = filter (bindable bind_of) [(''lo'', 7090), (''wlan0'', 7090), (''eth1'', 7090), (''eth0'', 7090)]"
    by (auto split: if_splits)
  with 1(1) 2(1) 3(1) show ?thesis by (intro exI [of _ s4]) simp
qed

text \<open>The configuration file that comes with the daemon, comments and tabulators included, configures a new
  daemon without a fault: the whitelist, the ages and intervals it states, the name, and a serving for
  each of its devices whose socket can be bound.\<close>

theorem default_configuration:
  assumes "files path = Some default_config" "m_lstDevices (dm_network dm) = []" "sv_servings (dm_server dm) = []"
    "m_lstDeviceWhiteBlackList (dm_network dm) = []"
  shows "\<exists>dm'. parseConfigFile env bind_of files path dm = Inr (True, dm') \<and>
    m_wbmDevices (dm_network dm') = Whitelist \<and>
    m_lstDeviceWhiteBlackList (dm_network dm') = [''(wlan)(.*)'', ''(wifi)(.*)'', ''(eth)(.*)'', ''(en)(.*)''] \<and>
    m_dMaxMACAge (dm_network dm') = 300 \<and> m_dUpdateInterval (dm_network dm') = 10 \<and>
    m_dPingBroadcastInterval (dm_network dm') = 10 \<and> dm_keepAliveInterval dm' = 1 \<and>
    ds_identifier (dm_discovery dm') = ''Test Server'' \<and>
    served_on (dm_server dm') =
      filter (bindable bind_of) [(''lo'', 7090), (''wlan0'', 7090), (''eth1'', 7090), (''eth0'', 7090)]"
proof -
  let ?nw = "(setDeviceWhiteBlacklistMode Whitelist (dm_network dm))\<lparr>m_lstDeviceWhiteBlackList :=
    [''(wlan)(.*)'', ''(wifi)(.*)'', ''(eth)(.*)'', ''(en)(.*)'']\<rparr>"
  let ?dm = "dm\<lparr>dm_network := setPingBroadcastInterval 10 (setUpdateInterval 10 (setMaxMACAge 300 ?nw)),
    dm_keepAliveInterval := 1\<rparr>"
  from default_serves [of ?dm bind_of] assms(3) obtain sv where
    sv: "fold_r (serve_entry bind_of) [''lo:7090'', ''wlan0:7090'', ''eth1:7090'', ''eth0:7090''] ?dm =
        Inr (?dm\<lparr>dm_server := sv\<rparr>)"
      "served_on sv = filter (bindable bind_of) [(''lo'', 7090), (''wlan0'', 7090), (''eth1'', 7090), (''eth0'', 7090)]"
    by auto
  have "m_lstDevices ((dm_network dm)\<lparr>m_wbmDevices := Whitelist\<rparr>) = []" using assms(2) by simp
  note e = entries_without_devices [OF this, of env]
  have "configure env bind_of default_sections dm = Inr (?dm\<lparr>dm_server := sv,
      dm_discovery := setIdentifier ''Test Server'' (dm_discovery dm)\<rparr>)"
    unfolding configure_def default_sections_read default_doubles Let_def
    using sv(1) assms(4) by (simp add: e setDeviceWhiteBlacklistMode_def del: fold_r.simps)
  with assms(1) sv(2) show ?thesis
    by (simp add: parseConfigFile_def loadFromFile_def default_sections_read(1) setIdentifier_def
        setDeviceWhiteBlacklistMode_def setPingBroadcastInterval_def setUpdateInterval_def setMaxMACAge_def
        del: filter.simps)
qed

theorem default_configuration_witness:
  "\<exists>dm'. parseConfigFile sample_env (\<lambda>d p. (5, d \<noteq> ''wlan0'')) (\<lambda>p. Some default_config)
     ''/usr/share/macdetect/config/default.config'' (new_daemon ''test-server'' sample_new 4) = Inr (True, dm') \<and>
   served_on (dm_server dm') = [(''lo'', 7090), (''eth1'', 7090), (''eth0'', 7090)]"
proof -
  let ?dm = "new_daemon ''test-server'' sample_new 4"
  have "m_lstDevices (dm_network ?dm) = []" "sv_servings (dm_server ?dm) = []"
    "m_lstDeviceWhiteBlackList (dm_network ?dm) = []"
    by (simp_all add: new_daemon_def sample_new_def new_server_def setDeviceWhiteBlacklistMode_def
        setAutoManageDevices_def)
  from default_configuration [where files = "\<lambda>p. Some default_config" and env = sample_env and
      bind_of = "\<lambda>d p. (5, d \<noteq> ''wlan0'')", OF refl this] show ?thesis
    by (auto simp: bindable_def)
qed

end
