(* ===== verification/Interrupts.thy ===== *)
theory Interrupts
  imports Startup
begin

text \<open>
  Signals that arrive while a cycle of the daemon runs. \<open>catchHandler\<close> writes two flags: \<open>m_bShouldRun\<close> of
  the network, which \<open>Network::cycle\<close> reads once, in its last line, and \<open>m_bRun\<close> of the server, which
  \<open>Server::cycle\<close> reads twice, for its result and for the decision whether to do anything. Between these
  three readings it makes no difference when the handler runs, which is proved for the long stretch, the
  work of \<open>Network::cycle\<close>; so a cycle has four places at which signals are handled.
\<close>

section \<open>Loops that do not look at a field\<close>

text \<open>The contract of a step that neither reads nor writes what \<open>set_field\<close> changes.\<close>

locale commuting =
  fixes set_field :: "'s \<Rightarrow> 's"
    and step :: "'a \<Rightarrow> 's \<Rightarrow> 's"
  assumes step_comm: "step x (set_field s) = set_field (step x s)"
begin

lemma fold_comm: "fold step xs (set_field s) = set_field (fold step xs s)"
  by (induction xs arbitrary: s) (simp_all add: step_comm)

end

text \<open>The same for a step that can fault.\<close>

locale commuting_r =
  fixes set_field :: "'s \<Rightarrow> 's"
    and step :: "'a \<Rightarrow> 's \<Rightarrow> 's result"
  assumes step_comm: "step x (set_field s) = map_sum id set_field (step x s)"
begin

lemma fold_r_comm: "fold_r step xs (set_field s) = map_sum id set_field (fold_r step xs s)"
proof (induction xs arbitrary: s)
  case (Cons x xs)
  then show ?case by (cases "step x s") (simp_all add: step_comm)
qed simp

end

section \<open>A signal within the cycle of the network\<close>

lemma shutdown_parts [simp]:
  "m_lstDevices (shutdown nw) = m_lstDevices nw" "m_lstMACSeen (shutdown nw) = m_lstMACSeen nw"
  "m_lstEvents (shutdown nw) = m_lstEvents nw" "m_mapMACEvidence (shutdown nw) = m_mapMACEvidence nw"
  "m_lstSystemDeviceNames (shutdown nw) = m_lstSystemDeviceNames nw" "nw_readings (shutdown nw) = nw_readings nw"
  "m_bShouldRun (shutdown nw) = False" "nw_wire (shutdown nw) = nw_wire nw"
  "m_nSocketFDControl (shutdown nw) = m_nSocketFDControl nw" "m_dMaxMACAge (shutdown nw) = m_dMaxMACAge nw"
  "m_dPingBroadcastInterval (shutdown nw) = m_dPingBroadcastInterval nw"
  "m_lstDeviceWhiteBlackList (shutdown nw) = m_lstDeviceWhiteBlackList nw" "m_wbmDevices (shutdown nw) = m_wbmDevices nw"
  "m_bIgnoreDeviceMACs (shutdown nw) = m_bIgnoreDeviceMACs nw"
  "m_dHostnamesLastChecked (shutdown nw) = m_dHostnamesLastChecked nw"
  "m_dHostnameCheckInterval (shutdown nw) = m_dHostnameCheckInterval nw"
  "m_bAutoManageDevices (shutdown nw) = m_bAutoManageDevices nw" "m_dtData (shutdown nw) = m_dtData nw"
  "net_inv (shutdown nw) = net_inv nw" "announced S (shutdown nw) = announced S nw"
  "expired t (shutdown nw) = expired t nw"
  by (simp_all add: shutdown_def net_inv_def announced_def device_names_def expired_def fun_eq_iff)

lemma shutdown_update [simp]:
  "(shutdown nw)\<lparr>m_lstDevices := dvs\<rparr> = shutdown (nw\<lparr>m_lstDevices := dvs\<rparr>)"
  "(shutdown nw)\<lparr>m_lstMACSeen := es\<rparr> = shutdown (nw\<lparr>m_lstMACSeen := es\<rparr>)"
  "(shutdown nw)\<lparr>m_lstEvents := evs\<rparr> = shutdown (nw\<lparr>m_lstEvents := evs\<rparr>)"
  "(shutdown nw)\<lparr>m_mapMACEvidence := ev\<rparr> = shutdown (nw\<lparr>m_mapMACEvidence := ev\<rparr>)"
  "(shutdown nw)\<lparr>m_lstSystemDeviceNames := ns\<rparr> = shutdown (nw\<lparr>m_lstSystemDeviceNames := ns\<rparr>)"
  "(shutdown nw)\<lparr>nw_readings := n\<rparr> = shutdown (nw\<lparr>nw_readings := n\<rparr>)"
  "(shutdown nw)\<lparr>nw_wire := w\<rparr> = shutdown (nw\<lparr>nw_wire := w\<rparr>)"
  "(shutdown nw)\<lparr>m_dHostnamesLastChecked := t\<rparr> = shutdown (nw\<lparr>m_dHostnamesLastChecked := t\<rparr>)"
  by (simp_all add: shutdown_def)

lemma comm_network [simp]:
  "scheduleEvent e (shutdown nw) = shutdown (scheduleEvent e nw)"
  "read_time env (shutdown nw) = map_prod id shutdown (read_time env nw)"
  "systemDeviceNames env (shutdown nw) = systemDeviceNames env nw"
  "knownDevice d (shutdown nw) = knownDevice d nw"
  "deviceAllowed env d (shutdown nw) = deviceAllowed env d nw"
  "systemDeviceNameExists d (shutdown nw) = systemDeviceNameExists d nw"
  "macLastSeen m d (shutdown nw) = macLastSeen m d nw"
  "deviceForMAC m (shutdown nw) = deviceForMAC m nw"
  by (simp_all add: scheduleEvent_def read_time_def systemDeviceNames_def knownDevice_def deviceAllowed_def
      systemDeviceNameExists_def macLastSeen_def deviceForMAC_def)

lemma comm_hardware [simp]: "deviceHardwareType env d (shutdown nw) = deviceHardwareType env d nw"
  unfolding deviceHardwareType_def by (simp only: comm_network)

lemma comm_mac [simp]:
  "macAllowed env m (shutdown nw) = map_prod id shutdown (macAllowed env m nw)"
  "addMAC env m d (shutdown nw) = map_prod id shutdown (addMAC env m d nw)"
  "updateMACEvidence env d m k c (shutdown nw) = shutdown (updateMACEvidence env d m k c nw)"
proof -
  show allowed: "macAllowed env m (shutdown nw) = map_prod id shutdown (macAllowed env m nw)" for m nw
    by (simp add: macAllowed_def split: prod.split)
  show "addMAC env m d (shutdown nw) = map_prod id shutdown (addMAC env m d nw)"
  proof (cases "macAllowed env m nw")
    case (Pair b nw1)
    show ?thesis
    proof (cases "touch_seen env m d (m_lstMACSeen nw1) (nw_readings nw1)")
      case (fields es n p)
      then show ?thesis by (simp add: addMAC_def allowed Pair Let_def scheduleEvent_def read_time_def)
    qed
  qed
  show "updateMACEvidence env d m k c (shutdown nw) = shutdown (updateMACEvidence env d m k c nw)"
    by (simp add: updateMACEvidence_def allowed Let_def split: prod.split)
qed

interpretation stop_hostnames: commuting shutdown "check_hostname env" for env
  by unfold_locales (simp add: check_hostname_def split: option.split)

interpretation stop_detecting: commuting shutdown "detect_device env" for env
  by unfold_locales (simp add: detect_device_def Let_def split: prod.split)

interpretation stop_removing: commuting shutdown "\<lambda>d nw. snd (removeDevice d nw)"
  by unfold_locales (simp add: removeDevice_def remove_macs_eq Let_def split: option.split)

interpretation stop_adding: commuting_r shutdown "add_step env" for env
  by unfold_locales (simp add: add_step_def addDevice_def Let_def bind_r_def split: sum.split prod.split)

lemma bind_map_sum: "bind_r (map_sum id f r) g = bind_r r (\<lambda>x. g (f x))"
  by (cases r) simp_all

lemma map_sum_bind: "map_sum id f (bind_r r h) = bind_r r (\<lambda>x. map_sum id f (h x))"
  by (cases r) simp_all

lemma cycle_shutdown:
  "cycle env (shutdown nw) = map_sum id (\<lambda>(b, nw). (False, shutdown nw)) (cycle env nw)"
proof -
  have detect: "detectNetworkActivity env (shutdown nw) = shutdown (detectNetworkActivity env nw)" for nw
    by (simp add: detectNetworkActivity_def checkHostnames_def stop_detecting.fold_comm stop_hostnames.fold_comm
        read_time_def Let_def)
  have step: "(\<lambda>d nw. bind_r (addDevice env d nw) (\<lambda>(b, nw). Inr nw)) = add_step env"
    by (simp add: add_step_def fun_eq_iff)
  have manage: "manage_devices env (shutdown nw) = map_sum id shutdown (manage_devices env nw)" for nw
    by (simp add: manage_devices_def step stop_adding.fold_r_comm stop_removing.fold_comm)
  have maintain: "maintain_devices env (shutdown nw) = shutdown (maintain_devices env nw)" for nw
    by (simp add: maintain_devices_def Let_def split: prod.split)
  have expire: "expire_macs t (shutdown nw) = shutdown (expire_macs t nw)" for t nw
    by (simp add: expire_macs_eq)
  have stamp: "stamp_updates t (shutdown nw) = shutdown (stamp_updates t nw)" for t nw
    by (simp add: stamp_updates_def) (simp add: shutdown_def)
  have ping: "ping_devices env t (shutdown nw) = map_sum id shutdown (ping_devices env t nw)" for t nw
    by (simp add: ping_devices_def bind_r_def split: sum.split prod.split)
  show ?thesis
    by (simp add: cycle_def read_time_def Let_def detect manage maintain expire stamp ping bind_map_sum map_sum_bind)
qed

section \<open>A cycle with signals\<close>

text \<open>
  The signals of one iteration of the main loop: \<open>at_network\<close> while \<open>Network::cycle\<close> works, \<open>at_server\<close> after
  it has read its flag and before \<open>Server::cycle\<close> reads its flag for its result, \<open>at_body\<close> before it reads it
  again, and \<open>at_rest\<close> from then on until the next iteration.
\<close>

record arrivals =
  at_network :: "int list"
  at_server :: "int list"
  at_body :: "int list"
  at_rest :: "int list"

definition all_signals :: "arrivals \<Rightarrow> int list" where
  "all_signals ar = at_network ar @ at_server ar @ at_body ar @ at_rest ar"

text \<open>\<open>Server::cycle\<close> from its second reading of the flag on; \<open>bReturn\<close> is what it read first.\<close>

definition server_cycle_read :: "sock_env \<Rightarrow> bool \<Rightarrow> server \<Rightarrow> (bool \<times> server) result" where
  "server_cycle_read env bReturn sv =
     (if sv_run sv then bind_r (server_cycle env sv) (\<lambda>(b, sv). Inr (bReturn, sv)) else Inr (bReturn, sv))"

text \<open>\<open>Daemon::cycle\<close> after the cycle of the server has returned true.\<close>

definition after_server :: "daemon_env \<Rightarrow> daemon \<Rightarrow> daemon result" where
  "after_server env dm =
     bind_r (handle_queue (de_net env) (handle_removed dm)) (\<lambda>dm.
     bind_r (fold_r (handle_event (de_net env)) (m_lstEvents (dm_network dm)) dm) (\<lambda>dm.
     bind_r (handle_discovery env dm) (\<lambda>dm. Inr (keepalive (de_net env) dm))))"

definition interrupted_cycle :: "daemon_env \<Rightarrow> arrivals \<Rightarrow> daemon \<Rightarrow> (bool \<times> daemon) result" where
  "interrupted_cycle env ar dm =
     bind_r (cycle (de_net env) (dm_network dm)) (\<lambda>(_, nw).
       let dm = fold catchHandler (at_network ar) (dm\<lparr>dm_network := nw\<rparr>) in
       if \<not> m_bShouldRun (dm_network dm)
       then Inr (False, fold catchHandler (at_server ar @ at_body ar @ at_rest ar) dm)
       else
         let dm = fold catchHandler (at_server ar) dm;
             bReturn = sv_run (dm_server dm);
             dm = fold catchHandler (at_body ar) dm
         in bind_r (server_cycle_read (de_sock env) bReturn (dm_server dm)) (\<lambda>(bReturn, sv).
              let dm = dm\<lparr>dm_server := sv\<rparr> in
              if \<not> bReturn then Inr (False, fold catchHandler (at_rest ar) dm)
              else bind_r (after_server env dm) (\<lambda>dm. Inr (True, fold catchHandler (at_rest ar) dm))))"

partial_function (option) interrupted_loop ::
  "(nat \<Rightarrow> daemon_env) \<Rightarrow> (nat \<Rightarrow> arrivals) \<Rightarrow> nat \<Rightarrow> daemon \<Rightarrow> daemon result option" where
  "interrupted_loop envs ars n dm =
     (case interrupted_cycle (envs n) (ars n) dm of
        Inl e \<Rightarrow> Some (Inl e)
      | Inr (b, dm) \<Rightarrow> if b then interrupted_loop envs ars (Suc n) dm else Some (Inr dm))"

section \<open>What the handler does\<close>

definition stops :: "int list \<Rightarrow> bool" where
  "stops ss \<longleftrightarrow> (\<exists>s \<in> set ss. s \<in> {2, 15})"

lemma stops_append [simp]: "stops (xs @ ys) \<longleftrightarrow> stops xs \<or> stops ys"
  by (auto simp: stops_def)

lemma shutdown_twice [simp]: "daemon_shutdown (daemon_shutdown dm) = daemon_shutdown dm"
  by (simp add: daemon_shutdown_def server_shutdown_def shutdown_def)

lemma fold_catch: "fold catchHandler ss dm = (if stops ss then daemon_shutdown dm else dm)"
  by (induction ss arbitrary: dm) (auto simp: catchHandler_def stops_def)

lemma shutdown_simps [simp]:
  "dm_network (daemon_shutdown dm) = shutdown (dm_network dm)"
  "dm_server (daemon_shutdown dm) = server_shutdown (dm_server dm)"
  "dm_streams (daemon_shutdown dm) = dm_streams dm" "dm_discovery (daemon_shutdown dm) = dm_discovery dm"
  "sv_run (server_shutdown sv) = False" "sv_queue (server_shutdown sv) = sv_queue sv"
  "sv_removed (server_shutdown sv) = sv_removed sv"
  by (simp_all add: daemon_shutdown_def server_shutdown_def)

lemma shutdown_ready: "daemon_ready dm \<Longrightarrow> daemon_ready (daemon_shutdown dm)"
  by (rule daemon_step_ready [OF do_shutdown])

text \<open>Without signals the cycle is \<open>daemon_cycle\<close>.\<close>

lemma cycle_flag: "cycle env nw = Inr (b, nw') \<Longrightarrow> b = m_bShouldRun nw'"
  by (auto simp: cycle_def Let_def bind_r_Inr_iff split: prod.splits)

lemma interrupted_plain:
  assumes "\<not> stops (at_network ar @ at_server ar @ at_body ar)"
  shows "interrupted_cycle env ar dm =
    bind_r (daemon_cycle env dm) (\<lambda>(b, dm). Inr (b, fold catchHandler (at_rest ar) dm))"
proof (cases "cycle (de_net env) (dm_network dm)")
  case (Inl e)
  then show ?thesis by (simp add: interrupted_cycle_def daemon_cycle_def)
next
  case (Inr x)
  then obtain b nw where c: "cycle (de_net env) (dm_network dm) = Inr (b, nw)" by (cases x) auto
  with cycle_flag [OF this] assms show ?thesis
    by (cases "server_cycle (de_sock env) (dm_server dm)")
      (auto simp: interrupted_cycle_def daemon_cycle_def fold_catch server_cycle_read_def after_server_def
        server_cycle_eq Let_def bind_r_def split: sum.splits prod.splits if_splits)
qed

section \<open>No signal makes a cycle fail\<close>

text \<open>When the server did nothing, the rest of the cycle handles the events and sends keepalive packets.\<close>

lemma after_server_idle:
  assumes ready: "daemon_ready dm" and ann: "announced S (dm_network dm)"
    and disc: "discovery_cycle (de_stale env) (de_multicast env) (junk_of (de_sock env)) (dm_discovery dm) = Inr rd"
  shows "\<exists>dm'. after_server env dm = Inr dm' \<and> daemon_ready dm' \<and>
    m_bShouldRun (dm_network dm') = m_bShouldRun (dm_network dm)"
proof -
  have idle: "handle_removed dm = dm" "handle_queue (de_net env) dm = Inr dm"
    using ready by (simp_all add: daemon_ready_def handle_removed_eq handle_queue_eq)
  have inv: "net_inv (dm_network dm)" using ready by (simp add: daemon_ready_def daemon_inv_def)
  from fold_events_total [OF inv ann order_refl refl] obtain dm1 where
      e: "fold_r (handle_event (de_net env)) (m_lstEvents (dm_network dm)) dm = Inr dm1" by blast
  from events_frameD [OF e] obtain outs P where
      f: "dm_network dm1 = dm_network dm" "dm_discovery dm1 = dm_discovery dm"
        "dm_server dm1 = (dm_server dm)\<lparr>sv_out := sv_out (dm_server dm) @ outs\<rparr>"
        "dm_streams dm1 = filter P (dm_streams dm)"
    by (auto simp: events_frame_def)
  have r1: "daemon_ready dm1" using ready by (auto simp: daemon_ready_def daemon_inv_def server_inv_def f)
  obtain b ds where rd: "rd = (b, ds)" by (cases rd)
  let ?dm' = "keepalive (de_net env) (dm1\<lparr>dm_discovery := ds\<rparr>)"
  have "after_server env dm = Inr ?dm'"
    using disc by (simp add: after_server_def idle e handle_discovery_def f rd)
  moreover have "daemon_inv (dm1\<lparr>dm_discovery := ds\<rparr>) = daemon_inv dm1" by (simp add: daemon_inv_def)
  then have "daemon_ready ?dm'" using r1 by (simp add: daemon_ready_def keepalive_frame)
  moreover have "m_bShouldRun (dm_network ?dm') = m_bShouldRun (dm_network dm)"
    by (simp add: keepalive_eq Let_def f)
  ultimately show ?thesis by blast
qed

text \<open>The cases in which a signal arrives before the server has read its flag for the second time.\<close>

lemma interrupted_early:
  assumes ready: "daemon_ready dm" and w: "well_served env dm"
    and s: "stops (at_network ar @ at_server ar @ at_body ar)"
  shows "\<exists>b dm'. interrupted_cycle env ar dm = Inr (b, dm') \<and> stopped dm' \<and> (stopped dm \<longrightarrow> \<not> b)"
proof -
  have env: "env_ok (de_net env)" and pats: "patterns_ok (de_net env) (dm_network dm)"
    using w by (simp_all add: well_served_def)
  have inv: "net_inv (dm_network dm)" using ready by (simp add: daemon_ready_def daemon_inv_def)
  from cycle_runs [OF env inv pats] obtain nw where
      nw: "cycle (de_net env) (dm_network dm) = Inr (m_bShouldRun (dm_network dm), nw)" by blast
  note run = cycle_flag [OF nw]
  let ?dm = "dm\<lparr>dm_network := nw\<rparr>"
  have r: "daemon_ready ?dm" by (rule daemon_ready_network [OF ready cycle_inv [OF env inv nw]])
  note st = shutdown_stopped [OF r]
  show ?thesis
  proof (cases "stops (at_network ar) \<or> \<not> m_bShouldRun nw")
    case True
    then have "interrupted_cycle env ar dm = Inr (False, daemon_shutdown ?dm)"
      using s by (auto simp: interrupted_cycle_def nw fold_catch Let_def)
    with st show ?thesis by blast
  next
    case False
    then have running: "\<not> stopped dm" using run by (simp add: stopped_def)
    show ?thesis
    proof (cases "stops (at_server ar) \<or> \<not> sv_run (dm_server dm)")
      case True
      with False s have "interrupted_cycle env ar dm = Inr (False, daemon_shutdown ?dm)"
        by (auto simp: interrupted_cycle_def nw fold_catch server_cycle_read_def Let_def)
      with st show ?thesis by blast
    next
      case serving: False
      let ?sd = "daemon_shutdown ?dm"
      have "announced (- set (systemDeviceNames (de_net env) (dm_network dm))) (dm_network ?sd)"
        using cycle_announced [OF env inv nw] by simp
      moreover obtain rd where
        "discovery_cycle (de_stale env) (de_multicast env) (junk_of (de_sock env)) (dm_discovery ?sd) = Inr rd"
        using w by (auto simp: well_served_def)
      ultimately obtain dm' where a: "after_server env ?sd = Inr dm'" "daemon_ready dm'"
          "\<not> m_bShouldRun (dm_network dm')"
        using after_server_idle [OF shutdown_ready [OF r]] by fastforce
      have "?sd\<lparr>dm_server := server_shutdown (dm_server dm)\<rparr> = ?sd" by (simp add: daemon_shutdown_def)
      then have "after_server env (?sd\<lparr>dm_server := server_shutdown (dm_server dm)\<rparr>) = Inr dm'"
        using a(1) by (rule ssubst)
      with False serving s have "interrupted_cycle env ar dm = Inr (True, fold catchHandler (at_rest ar) dm')"
        by (simp add: interrupted_cycle_def nw fold_catch server_cycle_read_def Let_def)
      moreover have "stopped (fold catchHandler (at_rest ar) dm')"
        using a(2,3) shutdown_stopped by (simp add: fold_catch stopped_def)
      ultimately show ?thesis using running by blast
    qed
  qed
qed

lemma interrupted_total:
  assumes ready: "daemon_ready dm" and w: "well_served env dm"
  shows "\<exists>b dm'. interrupted_cycle env ar dm = Inr (b, dm') \<and> daemon_ready dm' \<and>
    (stops (all_signals ar) \<longrightarrow> stopped dm') \<and> (stopped dm \<longrightarrow> \<not> b)"
proof (cases "stops (at_network ar @ at_server ar @ at_body ar)")
  case True
  from interrupted_early [OF assms True] show ?thesis by (auto simp: stopped_def)
next
  case False
  have env: "env_ok (de_net env)" using w by (simp add: well_served_def)
  from well_served_cycle [OF w ready] obtain b dm' where
      c: "daemon_cycle env dm = Inr (b, dm')" "daemon_ready dm'" by blast
  moreover have "daemon_ready (fold catchHandler (at_rest ar) dm')"
    using c(2) by (simp add: fold_catch shutdown_ready)
  moreover have "stops (all_signals ar) \<longrightarrow> stopped (fold catchHandler (at_rest ar) dm')"
    using False shutdown_stopped [OF c(2)] by (simp add: all_signals_def fold_catch)
  moreover have "stopped dm \<longrightarrow> \<not> b" using stopped_cycle(1) [OF env _ c(1)] by blast
  ultimately show ?thesis by (simp add: interrupted_plain [OF False])
qed

section \<open>The main loop\<close>

text \<open>The states in which an iteration of the loop begins.\<close>

inductive iteration ::
  "(nat \<Rightarrow> daemon_env) \<Rightarrow> (nat \<Rightarrow> arrivals) \<Rightarrow> nat \<Rightarrow> daemon \<Rightarrow> nat \<Rightarrow> daemon \<Rightarrow> bool" for envs ars where
  this_one: "iteration envs ars n dm n dm"
| next_one: "interrupted_cycle (envs n) (ars n) dm = Inr (True, dm1) \<Longrightarrow>
    iteration envs ars (Suc n) dm1 i dm' \<Longrightarrow> iteration envs ars n dm i dm'"

lemma interrupted_loop_step:
  "interrupted_cycle (envs n) (ars n) dm = Inr (b, dm') \<Longrightarrow>
     interrupted_loop envs ars n dm = (if b then interrupted_loop envs ars (Suc n) dm' else Some (Inr dm'))"
  by (subst interrupted_loop.simps) simp

lemma interrupted_loop_stopped:
  assumes "stopped dm" "well_served (envs n) dm"
  shows "\<exists>dm'. interrupted_loop envs ars n dm = Some (Inr dm')"
proof -
  have "daemon_ready dm" using assms(1) by (simp add: stopped_def)
  from interrupted_total [OF this assms(2), of "ars n"] assms(1) obtain dm' where
    "interrupted_cycle (envs n) (ars n) dm = Inr (False, dm')" by auto
  from interrupted_loop_step [of envs n ars, OF this] show ?thesis by simp
qed

lemma interrupted_loop_returns:
  assumes "stops (all_signals (ars k))"
  shows "daemon_ready dm \<Longrightarrow> n \<le> k \<Longrightarrow>
    (\<And>i dm'. iteration envs ars n dm i dm' \<Longrightarrow> daemon_ready dm' \<Longrightarrow> well_served (envs i) dm') \<Longrightarrow>
    \<exists>dm'. interrupted_loop envs ars n dm = Some (Inr dm')"
proof (induction "k - n" arbitrary: n dm)
  case 0
  from "0.prems"(3) [OF this_one "0.prems"(1)] have w: "well_served (envs n) dm" .
  have "k = n" using "0.hyps" "0.prems"(2) by simp
  with interrupted_total [OF "0.prems"(1) w, of "ars n"] assms obtain b dm' where
      c: "interrupted_cycle (envs n) (ars n) dm = Inr (b, dm')" "stopped dm'" by blast
  have ready: "daemon_ready dm'" using c(2) by (simp add: stopped_def)
  show ?case
  proof (cases b)
    case True
    have "well_served (envs (Suc n)) dm'"
      by (rule "0.prems"(3) [OF next_one [OF _ this_one] ready]) (use c True in simp)
    with c(2) interrupted_loop_stopped [of dm' envs "Suc n"] show ?thesis
      using interrupted_loop_step [of envs n ars, OF c(1)] True by simp
  qed (simp add: interrupted_loop_step [of envs n ars, OF c(1)])
next
  case (Suc m)
  from Suc.prems(3) [OF this_one Suc.prems(1)] have w: "well_served (envs n) dm" .
  from interrupted_total [OF Suc.prems(1) w] obtain b dm' where
      c: "interrupted_cycle (envs n) (ars n) dm = Inr (b, dm')" "daemon_ready dm'" by blast
  show ?case
  proof (cases b)
    case True
    have "\<exists>dm''. interrupted_loop envs ars (Suc n) dm' = Some (Inr dm'')"
    proof (rule Suc.hyps(1))
      show "well_served (envs i) x" if "iteration envs ars (Suc n) dm' i x" "daemon_ready x" for i x
        by (rule Suc.prems(3) [OF next_one [OF _ that(1)] that(2)]) (use c True in simp)
    qed (use Suc c in auto)
    with True show ?thesis by (simp add: interrupted_loop_step [of envs n ars, OF c(1)])
  qed (simp add: interrupted_loop_step [of envs n ars, OF c(1)])
qed


text \<open>A SIGTERM between the two readings of the flag of the server.\<close>

definition sample_arrivals :: "nat \<Rightarrow> arrivals" where
  "sample_arrivals i = \<lparr>at_network = [1], at_server = [], at_body = (if i = 3 then [15] else []), at_rest = []\<rparr>"


text \<open>Without such a signal the loop is the loop that is never interrupted.\<close>

lemma interrupted_loop_plain:
  assumes "interrupted_loop envs ars n dm = Some r" "\<forall>i. \<not> stops (all_signals (ars i))"
  shows "main_loop envs (\<lambda>i. []) n dm = Some r"
proof -
  have "(\<forall>i. \<not> stops (all_signals (ars i))) \<longrightarrow> main_loop envs (\<lambda>i. []) n dm = Some r"
  proof (rule interrupted_loop.raw_induct [OF _ assms(1)], intro impI)
    fix il envs ars n dm r
    assume IH: "\<And>envs ars n dm r. il envs ars n dm = Some r \<Longrightarrow>
        (\<forall>i. \<not> stops (all_signals (ars i))) \<longrightarrow> main_loop envs (\<lambda>i. []) n dm = Some r"
      and step: "(case interrupted_cycle (envs n) (ars n) dm of
          Inl e \<Rightarrow> Some (Inl e)
        | Inr (b, dm) \<Rightarrow> if b then il envs ars (Suc n) dm else Some (Inr dm)) = Some r"
      and s: "\<forall>i. \<not> stops (all_signals (ars i))"
    have "interrupted_cycle (envs n) (ars n) dm = daemon_cycle (envs n) dm"
      using s by (subst interrupted_plain) (auto simp: all_signals_def fold_catch bind_r_def split: sum.splits)
    with step s IH show "main_loop envs (\<lambda>i. []) n dm = Some r"
      by (subst main_loop.simps) (auto split: sum.splits prod.splits if_splits)
  qed
  with assms(2) show ?thesis by blast
qed

text \<open>C19: and only then: a daemon that was not shut down and receives neither SIGINT nor SIGTERM at any moment
  never leaves its main loop gracefully.\<close>

theorem no_end_without_signal:
  assumes "daemon_ready dm" "m_bShouldRun (dm_network dm)" "sv_run (dm_server dm)"
    "\<forall>i. env_ok (de_net (envs i))" "\<forall>i. \<forall>s \<in> set (all_signals (ars i)). s \<notin> {2, 15}"
  shows "interrupted_loop envs ars n dm \<noteq> Some (Inr dm')"
proof
  assume "interrupted_loop envs ars n dm = Some (Inr dm')"
  moreover have "\<forall>i. \<not> stops (all_signals (ars i))" using assms(5) by (simp add: stops_def)
  ultimately have "main_loop envs (\<lambda>i. []) n dm = Some (Inr dm')" by (rule interrupted_loop_plain)
  from main_loop_running [OF this] assms(1-4) show False by (simp add: undisturbed_def running_def)
qed

theorem no_end_without_signal_witness:
  "interrupted_loop (\<lambda>i. sample_daemon_env)
     (\<lambda>i. \<lparr>at_network = [1], at_server = [], at_body = [10], at_rest = [12]\<rparr>) 0 sample_ready \<noteq> Some (Inr sample_ready)"
proof -
  have "m_bShouldRun (dm_network sample_ready)" "sv_run (dm_server sample_ready)"
    using sample_server_run by simp_all (simp add: sample_net_def)
  then show ?thesis by (intro no_end_without_signal) (simp_all add: all_signals_def)
qed

end
