(* ===== verification/Descriptors.thy ===== *)
theory Descriptors
  imports Daemon_Cycle "HOL-Library.Multiset"
begin

text \<open>
  Who opens and who closes the descriptors of the server: \<open>Server.cpp\<close>, the destructors of
  \<open>PacketEntity.cpp\<close>, \<open>Server.cpp\<close> and \<open>Network.cpp\<close>, and \<open>Daemon.cpp\<close>, whose list of streams shares the
  objects of the clients. An object is destroyed when the last \<open>shared_ptr\<close> to it is gone; its destructor
  closes the socket. The kernel is known to hand out descriptors that are not open.
\<close>

section \<open>Owners\<close>

definition socket_of :: "server \<Rightarrow> served_ptr \<Rightarrow> int" where
  "socket_of sv p = (case sv_heap sv p of Some pe \<Rightarrow> m_nSocketFD pe | None \<Rightarrow> - 1)"

text \<open>The objects that the daemon has a pointer to.\<close>

definition holders :: "daemon \<Rightarrow> served_ptr set" where
  "holders dm =
     fst ` set (sv_served (dm_server dm)) \<union> set (sv_removed (dm_server dm)) \<union>
     qv_served ` set (sv_queue (dm_server dm)) \<union> fst ` set (dm_streams dm)"

text \<open>
  The objects destroyed between two states: they had a pointer or were made in between, and have none
  any more.
\<close>

definition destroyed :: "daemon \<Rightarrow> daemon \<Rightarrow> served_ptr list" where
  "destroyed dm dm' =
     filter (\<lambda>p. (p \<in> holders dm \<or> sv_next (dm_server dm) \<le> p) \<and> p \<notin> holders dm') [0..<sv_next (dm_server dm')]"

text \<open>\<open>~PacketEntity\<close>.\<close>

definition destroy_pentity :: "pentity \<Rightarrow> int list" where
  "destroy_pentity pe = [m_nSocketFD pe]"

definition destroy_object :: "server \<Rightarrow> served_ptr \<Rightarrow> int list" where
  "destroy_object sv p = (case sv_heap sv p of Some pe \<Rightarrow> destroy_pentity pe | None \<Rightarrow> [])"

text \<open>The descriptors that a cycle opens with \<open>accept4\<close>, and those that it closes.\<close>

definition cycle_opens :: "daemon \<Rightarrow> daemon \<Rightarrow> int list" where
  "cycle_opens dm dm' = map (socket_of (dm_server dm')) [sv_next (dm_server dm)..<sv_next (dm_server dm')]"

definition cycle_closes :: "daemon \<Rightarrow> daemon \<Rightarrow> int list" where
  "cycle_closes dm dm' =
     drop (length (sv_closed (dm_server dm))) (sv_closed (dm_server dm')) @
     concat (map (destroy_object (dm_server dm')) (destroyed dm dm'))"

definition client_fds :: "server \<Rightarrow> int list" where
  "client_fds sv = map (\<lambda>pr. socket_of sv (fst pr)) (sv_served sv)"

definition serving_fds :: "server \<Rightarrow> int list" where
  "serving_fds sv = map nSocketFD (sv_servings sv)"

section \<open>What a cycle does to the objects\<close>

lemma accept_step_sockets:
  assumes "accept_step env sg sv = (sg', sv')"
  shows "nSocketFD sg' = nSocketFD sg" "sv_closed sv' = sv_closed sv" "sv_next sv \<le> sv_next sv'"
    "\<forall>p < sv_next sv. sv_heap sv' p = sv_heap sv p"
    "sv_served sv' = sv_served sv @ map (\<lambda>p. (p, nID sg)) [sv_next sv..<sv_next sv']"
    "map (socket_of sv') [sv_next sv..<sv_next sv'] = accepted env sg"
    "\<forall>p \<in> {sv_next sv..<sv_next sv'}. sv_heap sv' p \<noteq> None"
  using assms
  by (auto simp: accept_step_def accepted_def post_def new_pentity_def socket_of_def Let_def
      split: accept_res.splits if_splits)

lemma accept_all_sockets:
  "accept_all env sgs sv = (sgs', sv') \<Longrightarrow>
     map nSocketFD sgs' = map nSocketFD sgs \<and> sv_closed sv' = sv_closed sv \<and> sv_next sv \<le> sv_next sv' \<and>
     (\<forall>p < sv_next sv. sv_heap sv' p = sv_heap sv p) \<and>
     (\<exists>prs. sv_served sv' = sv_served sv @ prs \<and> map fst prs = [sv_next sv..<sv_next sv']) \<and>
     map (socket_of sv') [sv_next sv..<sv_next sv'] = concat (map (accepted env) sgs)"
proof (induction sgs arbitrary: sv sgs' sv')
  case (Cons sg sgs)
  obtain sg1 sv1 where 1: "accept_step env (listen_step env sg) sv = (sg1, sv1)"
    by (cases "accept_step env (listen_step env sg) sv")
  obtain sgs2 sv2 where 2: "accept_all env sgs sv1 = (sgs2, sv2)" by (cases "accept_all env sgs sv1")
  from Cons.prems 1 2 have e: "sgs' = sg1 # sgs2" "sv' = sv2" by simp_all
  note s = accept_step_sockets [OF 1] and IH = Cons.IH [OF 2]
  have up: "[sv_next sv..<sv_next sv2] = [sv_next sv..<sv_next sv1] @ [sv_next sv1..<sv_next sv2]"
    using s(3) IH by (metis le_add_diff_inverse upt_add_eq_append)
  have old: "map (socket_of sv2) [sv_next sv..<sv_next sv1] = map (socket_of sv1) [sv_next sv..<sv_next sv1]"
    using IH by (simp add: socket_of_def)
  have "accepted env (listen_step env sg) = accepted env sg" by (simp add: accepted_def)
  moreover from IH obtain prs where "sv_served sv2 = sv_served sv1 @ prs" "map fst prs = [sv_next sv1..<sv_next sv2]"
    by blast
  then have "\<exists>prs. sv_served sv2 = sv_served sv @ prs \<and> map fst prs = [sv_next sv..<sv_next sv2]"
    using s(5) up by (intro exI [of _ "map (\<lambda>p. (p, nID (listen_step env sg))) [sv_next sv..<sv_next sv1] @ prs"])
      (simp add: o_def)
  ultimately show ?case using s IH by (simp add: e up old)
qed simp

lemma receive_socket:
  "receive recv junk d pe = Inr (v, d', pe', n) \<Longrightarrow> m_nSocketFD pe' = m_nSocketFD pe"
  by (auto simp: receive_def bind_r_def Let_def split: sum.splits prod.splits recv_res.splits if_splits)

text \<open>What receiving and removing leave alone.\<close>

definition same_sockets :: "server \<Rightarrow> server \<Rightarrow> bool" where
  "same_sockets sv sv' \<longleftrightarrow>
     socket_of sv' = socket_of sv \<and> dom (sv_heap sv') = dom (sv_heap sv) \<and> sv_next sv' = sv_next sv \<and>
     sv_closed sv' = sv_closed sv \<and> sv_servings sv' = sv_servings sv"

lemma same_sockets_refl [simp]: "same_sockets sv sv"
  by (simp add: same_sockets_def)

interpretation receiving_sockets: preserving_r "\<lambda>_. True" "\<lambda>s. same_sockets sv0 (fst s)" "receive_step env"
  for sv0 env
proof unfold_locales
  fix pr s s'
  assume same: "same_sockets sv0 (fst s)" and r: "receive_step env pr s = Inr s'"
  obtain p i sv rem where e: "pr = (p, i)" "s = (sv, rem)" by (cases pr, cases s)
  from r obtain v pe where c: "client_receive env (sv_heap sv) p = Inr (v, pe)"
      "fst s' = sv\<lparr>sv_heap := (sv_heap sv)(p \<mapsto> pe), sv_queue := sv_queue sv @ got env (sv_heap sv) (p, i)\<rparr>"
    by (auto simp: e receive_step_eq bind_r_Inr_iff)
  then obtain pe0 where "sv_heap sv p = Some pe0" "m_nSocketFD pe = m_nSocketFD pe0"
    by (auto simp: client_receive_def bind_r_Inr_iff split: option.splits dest: receive_socket)
  then have "socket_of (fst s') = socket_of sv" "dom (sv_heap (fst s')) = dom (sv_heap sv)"
    by (auto simp: c(2) socket_of_def fun_eq_iff)
  with same show "same_sockets sv0 (fst s')" by (simp add: same_sockets_def e c(2))
qed

interpretation removing_sockets: preserving "\<lambda>_. True" "same_sockets sv0" remove_step for sv0
  by unfold_locales (auto simp: remove_step_def same_sockets_def socket_of_def [abs_def] split: option.splits)

lemma mset_split: "mset xs = mset (filter P xs) + mset (filter (\<lambda>x. \<not> P x) xs)"
  by (induction xs) auto

lemma listening_sockets:
  assumes inv: "server_inv sv"
  shows "sv_next sv \<le> sv_next (listening env sv)"
    "\<forall>p < sv_next sv. sv_heap (listening env sv) p = sv_heap sv p"
    "map fst (sv_served (listening env sv)) = map fst (sv_served sv) @ [sv_next sv..<sv_next (listening env sv)]"
    "\<exists>dropped. sv_closed (listening env sv) = sv_closed sv @ dropped \<and>
       mset (serving_fds sv) = mset (serving_fds (listening env sv)) + mset dropped"
proof -
  obtain sgs sv1 where a: "accept_all env (sv_servings sv) sv = (sgs, sv1)"
    by (cases "accept_all env (sv_servings sv) sv")
  have e: "listening env sv = drop_servings (sv1\<lparr>sv_servings := sgs\<rparr>)" by (simp add: listening_def a)
  note l = accept_all_sockets [OF a]
  from l show "sv_next sv \<le> sv_next (listening env sv)"
    "\<forall>p < sv_next sv. sv_heap (listening env sv) p = sv_heap sv p"
    "map fst (sv_served (listening env sv)) = map fst (sv_served sv) @ [sv_next sv..<sv_next (listening env sv)]"
    by (auto simp: e drop_servings_eq)
  let ?up = "\<lambda>sg. stStatus sg = Started"
  have "mset (serving_fds sv) = image_mset nSocketFD (mset sgs)"
    using l by (simp add: serving_fds_def flip: mset_map)
  also have "\<dots> = image_mset nSocketFD (mset (filter ?up sgs)) + image_mset nSocketFD (mset (filter (\<lambda>sg. \<not> ?up sg) sgs))"
    unfolding mset_split [of sgs ?up] by (simp only: image_mset_union)
  finally show "\<exists>dropped. sv_closed (listening env sv) = sv_closed sv @ dropped \<and>
       mset (serving_fds sv) = mset (serving_fds (listening env sv)) + mset dropped"
    using l by (simp add: e drop_servings_eq serving_fds_def)
qed

lemma server_cycle_sockets:
  assumes c: "server_cycle env sv = Inr (True, sv')"
  shows "same_sockets (listening env sv) sv'"
proof -
  from c obtain s where f: "fold_r (receive_step env) (sv_served (listening env sv)) (listening env sv, []) = Inr s"
      and sv': "sv' = fold remove_step (snd s) (fst s)"
    by (auto simp: server_cycle_eq bind_r_Inr_iff split: if_splits)
  have "same_sockets (listening env sv) (fst s)"
    using receiving_sockets.fold_r_inv [of "listening env sv", OF _ _ f] by simp
  then show ?thesis unfolding sv' by (intro removing_sockets.fold_inv) simp_all
qed

text \<open>After the cycle of the server the daemon only takes from its lists and sends.\<close>

definition quiet_server :: "server \<Rightarrow> server \<Rightarrow> bool" where
  "quiet_server sv sv' \<longleftrightarrow> same_sockets sv sv' \<and> sv_served sv' = sv_served sv"

lemma quiet_server_post [simp]: "quiet_server sv (sv\<lparr>sv_out := out\<rparr>)"
  by (simp add: quiet_server_def same_sockets_def socket_of_def [abs_def])

lemma quiet_server_trans: "quiet_server a b \<Longrightarrow> quiet_server b c \<Longrightarrow> quiet_server a c"
  by (simp add: quiet_server_def same_sockets_def)

interpretation answering_sockets: preserving_r "\<lambda>_. env_ok env" "\<lambda>dm. quiet_server sv0 (dm_server dm)" "handle_request env"
  for sv0 env
proof unfold_locales
  fix q dm dm'
  assume env: "env_ok env" and q: "quiet_server sv0 (dm_server dm)" and h: "handle_request env q dm = Inr dm'"
  from handle_request_Inr [OF h] obtain w dm1 where
      a: "answer env (qv_served q) (strDeviceName (servingByID (qv_servingID q) (dm_server dm))) (qv_value q) dm =
        Inr (w, dm1)"
      "dm' = post_to (qv_served q) (Value ''response'' (content (qv_value q)) [w]) dm1" by blast
  then have "quiet_server (dm_server dm) (dm_server dm')"
    using answer_laws(1) [OF env a(1)] by (simp add: post_def)
  with q show "quiet_server sv0 (dm_server dm')" by (rule quiet_server_trans)
qed

lemma daemon_cycle_quiet:
  assumes env: "env_ok (de_net env)" and ready: "daemon_ready dm" and c: "daemon_cycle env dm = Inr (True, dm')"
  shows "\<exists>sv. server_cycle (de_sock env) (dm_server dm) = Inr (True, sv) \<and> quiet_server sv (dm_server dm')"
proof -
  from c obtain nw sv dm1 dm2 ds where s: "cycle (de_net env) (dm_network dm) = Inr (True, nw)"
      "server_cycle (de_sock env) (dm_server dm) = Inr (True, sv)"
      "handle_queue (de_net env) (received_state nw sv dm) = Inr dm1"
      "fold_r (handle_event (de_net env)) (m_lstEvents (dm_network dm1)) dm1 = Inr dm2"
      "dm' = keepalive (de_net env) (dm2\<lparr>dm_discovery := ds\<rparr>)"
    by (auto elim: daemon_cycle_True)
  have "quiet_server sv (dm_server dm1)"
    by (rule answering_sockets.fold_r_inv [OF _ _ s(3) [unfolded handle_queue_eq]])
      (simp_all add: env received_state_def handle_removed_eq quiet_server_def same_sockets_def socket_of_def [abs_def])
  moreover from events_frameD [OF s(4)] have "quiet_server (dm_server dm1) (dm_server dm2)"
    by (auto simp: events_frame_def)
  moreover have "quiet_server (dm_server dm2) (dm_server dm')" by (simp add: s(5) keepalive_eq Let_def quiet_server_def
      same_sockets_def socket_of_def [abs_def])
  ultimately show ?thesis using s(2) quiet_server_trans by blast
qed

lemma ready_holders: "daemon_ready dm \<Longrightarrow> holders dm = fst ` set (sv_served (dm_server dm))"
  by (auto simp: holders_def daemon_ready_def daemon_inv_def)

lemma ready_server: "daemon_ready dm \<Longrightarrow> server_inv (dm_server dm)"
  by (simp add: daemon_ready_def daemon_inv_def)

lemma client_fds_eq: "client_fds sv = map (socket_of sv) (map fst (sv_served sv))"
  by (simp add: client_fds_def)

lemma destroy_objects:
  "\<forall>p \<in> set ps. sv_heap sv p \<noteq> None \<Longrightarrow> concat (map (destroy_object sv) ps) = map (socket_of sv) ps"
  by (induction ps) (auto simp: destroy_object_def destroy_pentity_def socket_of_def)

text \<open>The clients of the state in which the cycle receives are those that stay and those that go.\<close>

lemma cycle_clients:
  assumes env: "env_ok (de_net env)" and ready: "daemon_ready dm" and c: "daemon_cycle env dm = Inr (True, dm')"
  defines "l \<equiv> listening (de_sock env) (dm_server dm)"
  shows "same_sockets l (dm_server dm')"
    "mset (map fst (sv_served l)) = mset (map fst (sv_served (dm_server dm'))) + mset (destroyed dm dm')"
    "\<forall>p \<in> set (destroyed dm dm'). sv_heap (dm_server dm') p \<noteq> None"
proof -
  note inv = ready_server [OF ready]
  from daemon_cycle_quiet [OF env ready c] obtain sv where
      sv: "server_cycle (de_sock env) (dm_server dm) = Inr (True, sv)" "quiet_server sv (dm_server dm')" by blast
  from server_cycle_sockets [OF sv(1)] sv(2) show same: "same_sockets l (dm_server dm')"
    by (simp add: l_def quiet_server_def same_sockets_def)
  have run: "sv_run (dm_server dm)" using sv(1) by (auto simp: server_cycle_eq split: if_splits)
  from server_cycle_Inr [OF inv run server_cycle_receives [OF inv run sv(1)]] sv obtain P where
      P: "sv_served (dm_server dm') = filter (\<lambda>pr. P (fst pr)) (sv_served l)"
    by (auto simp: l_def quiet_server_def)
  note ls = listening_sockets [OF inv, of "de_sock env", folded l_def]
    and li = listening_laws(1) [OF inv, of "de_sock env", folded l_def]
  have d: "distinct (map fst (sv_served l))" using li by (simp add: server_inv_def)
  have next': "sv_next (dm_server dm') = sv_next l" using same by (simp add: same_sockets_def)
  have P': "map fst (sv_served (dm_server dm')) = filter P (map fst (sv_served l))"
    by (simp add: P filter_map o_def)
  have old: "\<forall>p \<in> fst ` set (sv_served (dm_server dm)). p < sv_next (dm_server dm)"
    using inv unfolding server_inv_def by fastforce
  have served: "fst ` set (sv_served l) = fst ` set (sv_served (dm_server dm)) \<union> {sv_next (dm_server dm)..<sv_next l}"
    using arg_cong [OF ls(3), of set] by simp
  note h = ready_holders [OF ready] ready_holders [OF daemon_cycle_ready [OF env ready c]]
  have gone: "set (destroyed dm dm') = {p \<in> fst ` set (sv_served l). \<not> P p}"
  proof -
    have "fst ` set (sv_served (dm_server dm')) = {p \<in> fst ` set (sv_served l). P p}"
      using arg_cong [OF P', of set] by simp
    with old served ls(1) show ?thesis by (auto simp: destroyed_def h next')
  qed
  have "distinct (destroyed dm dm')" by (simp add: destroyed_def)
  then have "mset (destroyed dm dm') = mset (filter (\<lambda>p. \<not> P p) (map fst (sv_served l)))"
    using d gone by (subst set_eq_iff_mset_eq_distinct [symmetric]) auto
  then show "mset (map fst (sv_served l)) = mset (map fst (sv_served (dm_server dm'))) + mset (destroyed dm dm')"
    unfolding P' using mset_split by metis
  have "sv_heap l p \<noteq> None" if "p \<in> fst ` set (sv_served l)" for p
    using li that by (force simp: server_inv_def)
  with gone same show "\<forall>p \<in> set (destroyed dm dm'). sv_heap (dm_server dm') p \<noteq> None"
    by (auto simp: same_sockets_def dom_def set_eq_iff)
qed

lemma cycle_conserves:
  assumes env: "env_ok (de_net env)" and ready: "daemon_ready dm" and c: "daemon_cycle env dm = Inr (b, dm')"
  shows "mset (serving_fds (dm_server dm) @ client_fds (dm_server dm) @ cycle_opens dm dm') =
    mset (serving_fds (dm_server dm') @ client_fds (dm_server dm') @ cycle_closes dm dm')"
proof (cases b)
  case False
  with c have "daemon_cycle env dm = Inr (False, dm')" by simp
  from daemon_cycle_False [OF this] have s: "dm_server dm' = dm_server dm" "dm_streams dm' = dm_streams dm" by auto
  then have "holders dm' = holders dm" by (simp add: holders_def)
  then have "destroyed dm dm' = []" using s by (simp add: destroyed_def filter_empty_conv)
  then show ?thesis by (simp add: s cycle_opens_def cycle_closes_def)
next
  case True
  with c have c: "daemon_cycle env dm = Inr (True, dm')" by simp
  let ?sv = "dm_server dm" and ?sv' = "dm_server dm'"
  define l where "l = listening (de_sock env) ?sv"
  note k = cycle_clients [OF env ready c, folded l_def]
  note ls = listening_sockets [OF ready_server [OF ready], of "de_sock env", folded l_def]
  have same: "socket_of ?sv' = socket_of l" "sv_next ?sv' = sv_next l" "sv_closed ?sv' = sv_closed l"
      "serving_fds ?sv' = serving_fds l"
    using k(1) by (simp_all add: same_sockets_def serving_fds_def)
  from ls(4) obtain dropped where dr: "sv_closed l = sv_closed ?sv @ dropped"
      "mset (serving_fds ?sv) = mset (serving_fds l) + mset dropped" by blast
  have "\<forall>p \<in> fst ` set (sv_served ?sv). p < sv_next ?sv"
    using ready_server [OF ready] unfolding server_inv_def by fastforce
  then have "client_fds ?sv = map (socket_of l) (map fst (sv_served ?sv))"
    using ls(2) by (simp add: client_fds_def socket_of_def)
  then have "mset (client_fds ?sv @ cycle_opens dm dm') = image_mset (socket_of l) (mset (map fst (sv_served l)))"
    by (simp add: cycle_opens_def same ls(3) multiset.map_comp)
  also have "\<dots> = mset (client_fds ?sv') + mset (map (socket_of l) (destroyed dm dm'))"
    unfolding k(2) image_mset_union by (simp only: client_fds_eq same mset_map)
  also have "map (socket_of l) (destroyed dm dm') = concat (map (destroy_object ?sv') (destroyed dm dm'))"
    using destroy_objects [OF k(3)] by (simp add: same)
  finally show ?thesis using dr by (simp add: cycle_closes_def same)
qed

section \<open>The table of open descriptors\<close>

text \<open>\<open>serve\<close> asks for a socket unless the device and port are served already.\<close>

definition serve_asks :: "int \<Rightarrow> string \<Rightarrow> u16 \<Rightarrow> server \<Rightarrow> bool" where
  "serve_asks fd d port sv \<longleftrightarrow>
     \<not> (\<exists>s \<in> set (sv_servings sv). strDeviceName s = d \<and> usPort s = port) \<and> fd \<noteq> - 1"

text \<open>
  The daemon together with the table of open descriptors. \<open>base\<close> are the descriptors opened before, as the
  control sockets, \<open>leaked\<close> the sockets of \<open>serve\<close> that could not be bound. The kernel returns descriptors
  that are not open. The other operations of a configuration leave the server and the streams alone.
\<close>

inductive fd_run :: "int list \<Rightarrow> daemon \<Rightarrow> int list \<Rightarrow> int set \<Rightarrow> bool" for base where
  fd_start: "daemon_ready dm \<Longrightarrow> sv_servings (dm_server dm) = [] \<Longrightarrow> sv_served (dm_server dm) = [] \<Longrightarrow>
    distinct base \<Longrightarrow> fd_run base dm [] (set base)"
| fd_cycle: "fd_run base dm leaked tbl \<Longrightarrow> env_ok (de_net env) \<Longrightarrow> daemon_cycle env dm = Inr (b, dm') \<Longrightarrow>
    distinct (cycle_opens dm dm') \<Longrightarrow> set (cycle_opens dm dm') \<inter> tbl = {} \<Longrightarrow>
    fd_run base dm' leaked ((tbl \<union> set (cycle_opens dm dm')) - set (cycle_closes dm dm'))"
| fd_serve: "fd_run base dm leaked tbl \<Longrightarrow> daemon_serve fd bound d port dm = Inr (b, dm') \<Longrightarrow> fd \<notin> tbl \<Longrightarrow>
    serve_asks fd d port (dm_server dm) \<Longrightarrow>
    fd_run base dm' (if b then leaked else fd # leaked) (insert fd tbl)"
| fd_refused: "fd_run base dm leaked tbl \<Longrightarrow> daemon_serve fd bound d port dm = Inr (b, dm') \<Longrightarrow>
    \<not> serve_asks fd d port (dm_server dm) \<Longrightarrow> fd_run base dm' leaked tbl"
| fd_setting: "fd_run base dm leaked tbl \<Longrightarrow> daemon_ready dm' \<Longrightarrow> dm_server dm' = dm_server dm \<Longrightarrow>
    dm_streams dm' = dm_streams dm \<Longrightarrow> fd_run base dm' leaked tbl"
| fd_shutdown: "fd_run base dm leaked tbl \<Longrightarrow> fd_run base (daemon_shutdown dm) leaked tbl"

definition live_fds :: "server \<Rightarrow> int list" where
  "live_fds sv = serving_fds sv @ client_fds sv"

lemma daemon_serve_cases:
  assumes "daemon_serve fd bound d port dm = Inr (b, dm')"
  shows "serve_asks fd d port (dm_server dm) \<Longrightarrow> b \<Longrightarrow> live_fds (dm_server dm') =
      serving_fds (dm_server dm) @ fd # client_fds (dm_server dm)"
    "\<not> b \<Longrightarrow> live_fds (dm_server dm') = live_fds (dm_server dm)"
    "\<not> serve_asks fd d port (dm_server dm) \<Longrightarrow> \<not> b"
  using assms
  by (auto simp: daemon_serve_def serve_def serve_asks_def bind_r_Inr_iff live_fds_def serving_fds_def client_fds_def
      socket_of_def Let_def split: if_splits)

text \<open>What the conservation of one cycle means for a table that is exact before it.\<close>

lemma cycle_table:
  assumes env: "env_ok (de_net env)" and ready: "daemon_ready dm" and c: "daemon_cycle env dm = Inr (b, dm')"
    and d: "distinct (rest @ live_fds (dm_server dm) @ cycle_opens dm dm')"
  shows "distinct (rest @ live_fds (dm_server dm') @ cycle_closes dm dm')"
    "set (live_fds (dm_server dm')) \<union> set (cycle_closes dm dm') =
       set (live_fds (dm_server dm)) \<union> set (cycle_opens dm dm')"
proof -
  have m: "mset (live_fds (dm_server dm) @ cycle_opens dm dm') = mset (live_fds (dm_server dm') @ cycle_closes dm dm')"
    using cycle_conserves [OF env ready c] by (simp add: live_fds_def)
  then have "mset (rest @ live_fds (dm_server dm) @ cycle_opens dm dm') =
      mset (rest @ live_fds (dm_server dm') @ cycle_closes dm dm')" by simp
  from mset_eq_imp_distinct_iff [OF this] d show "distinct (rest @ live_fds (dm_server dm') @ cycle_closes dm dm')"
    by blast
  from mset_eq_setD [OF m] show "set (live_fds (dm_server dm')) \<union> set (cycle_closes dm dm') =
       set (live_fds (dm_server dm)) \<union> set (cycle_opens dm dm')" by simp
qed

lemma fd_run_exact:
  "fd_run base dm leaked tbl \<Longrightarrow> daemon_ready dm \<and> distinct (base @ leaked @ live_fds (dm_server dm)) \<and>
     tbl = set base \<union> set leaked \<union> set (live_fds (dm_server dm))"
proof (induction rule: fd_run.induct)
  case (fd_start dm)
  then show ?case by (simp add: live_fds_def serving_fds_def client_fds_def)
next
  case (fd_cycle dm leaked op env b dm')
  have "distinct ((base @ leaked) @ live_fds (dm_server dm) @ cycle_opens dm dm')"
    using fd_cycle.IH fd_cycle.hyps by auto
  note t = cycle_table [OF fd_cycle.hyps(2) _ fd_cycle.hyps(3) this]
  have "daemon_ready dm'" using daemon_cycle_ready fd_cycle by blast
  moreover have "distinct (base @ leaked @ live_fds (dm_server dm'))" using t(1) fd_cycle.IH by auto
  moreover have "(op \<union> set (cycle_opens dm dm')) - set (cycle_closes dm dm') =
      set base \<union> set leaked \<union> set (live_fds (dm_server dm'))"
    using t fd_cycle.IH by auto
  ultimately show ?case by blast
next
  case (fd_serve dm leaked op fd bound d port b dm')
  note s = daemon_serve_cases [OF fd_serve.hyps(2)]
  have "daemon_ready dm'" using daemon_serve_ready fd_serve by blast
  with fd_serve.IH fd_serve.hyps s show ?case by (cases b) (auto simp: live_fds_def)
next
  case (fd_refused dm leaked op fd bound d port b dm')
  note s = daemon_serve_cases [OF fd_refused.hyps(2)]
  have "daemon_ready dm'" using daemon_serve_ready fd_refused by blast
  with fd_refused.IH fd_refused.hyps s show ?case by simp
next
  case (fd_setting dm leaked op dm')
  then show ?case by simp
next
  case (fd_shutdown dm leaked op)
  have "live_fds (dm_server (daemon_shutdown dm)) = live_fds (dm_server dm)"
    by (simp add: daemon_shutdown_def server_shutdown_def live_fds_def serving_fds_def client_fds_def socket_of_def)
  with fd_shutdown daemon_step_ready [OF do_shutdown] show ?case by simp
qed

section \<open>Properties\<close>



text \<open>C27: a cycle closes each descriptor at most once and none that is in use afterwards, and the socket of each
  client that the cycle removes is closed in it, when the last pointer to the client is gone.\<close>

theorem cycle_closes_once:
  assumes "env_ok (de_net env)" "daemon_ready dm" "daemon_cycle env dm = Inr (b, dm')"
    "distinct (serving_fds (dm_server dm) @ client_fds (dm_server dm) @ cycle_opens dm dm')"
  shows "distinct (cycle_closes dm dm') \<and>
    set (cycle_closes dm dm') \<inter> set (serving_fds (dm_server dm') @ client_fds (dm_server dm')) = {} \<and>
    (\<forall>pr \<in> set (sv_served (dm_server dm)). fst pr \<notin> fst ` set (sv_served (dm_server dm')) \<longrightarrow>
       socket_of (dm_server dm) (fst pr) \<in> set (cycle_closes dm dm'))"
proof -
  have "distinct ([] @ live_fds (dm_server dm) @ cycle_opens dm dm')" using assms(4) by (simp add: live_fds_def)
  note t = cycle_table [OF assms(1-3) this]
  have "socket_of (dm_server dm) (fst pr) \<in> set (cycle_closes dm dm')"
    if pr: "pr \<in> set (sv_served (dm_server dm))" "fst pr \<notin> fst ` set (sv_served (dm_server dm'))" for pr
  proof -
    have b
    proof (rule ccontr)
      assume "\<not> b"
      with assms(3) have "daemon_cycle env dm = Inr (False, dm')" by simp
      from daemon_cycle_False [OF this] pr show False by auto
    qed
    with assms(3) have c: "daemon_cycle env dm = Inr (True, dm')" by simp
    note k = cycle_clients [OF assms(1,2) c]
    note ls = listening_sockets [OF ready_server [OF assms(2)], of "de_sock env"]
    have old: "fst pr < sv_next (dm_server dm)"
      using pr(1) ready_server [OF assms(2)] unfolding server_inv_def by fastforce
    have "fst pr \<in> set (map fst (sv_served (listening (de_sock env) (dm_server dm))))" using pr(1) by (simp add: ls(3))
    then have "fst pr \<in> set (destroyed dm dm')" using arg_cong [OF k(2), of set_mset] pr(2) by auto
    moreover have "socket_of (dm_server dm') (fst pr) = socket_of (dm_server dm) (fst pr)"
      using k(1) ls(2) old by (simp add: same_sockets_def socket_of_def)
    ultimately show ?thesis using destroy_objects [OF k(3)] by (force simp: cycle_closes_def)
  qed
  with t(1) show ?thesis by (auto simp: live_fds_def)
qed

theorem cycle_closes_once_witness:
  "\<exists>dm'. daemon_cycle sample_daemon_env sample_ready = Inr (True, dm') \<and> 11 \<in> set (cycle_closes sample_ready dm')"
proof -
  from sample_cycle obtain dm' where c: "daemon_cycle sample_daemon_env sample_ready = Inr (True, dm')" ..
  have env: "env_ok (de_net sample_daemon_env)" by simp
  have "sv_next (listening sample_sock sample_server) = 2"
    by (simp add: listening_def accept_step_def listen_step_def sample_sock_def sample_server_def new_server_def
        drop_servings_eq)
  then have "cycle_opens sample_ready dm' = []"
    using cycle_clients(1) [OF env sample_ready_ok c] by (simp add: cycle_opens_def same_sockets_def sample_server_def)
  then have d: "distinct (serving_fds (dm_server sample_ready) @ client_fds (dm_server sample_ready) @
      cycle_opens sample_ready dm')"
    by (simp add: serving_fds_def client_fds_def socket_of_def)
       (simp add: sample_server_def new_server_def new_pentity_def)
  from cycle_closes_once [OF env sample_ready_ok c d] sample_served [OF c]
  have "socket_of sample_server 1 \<in> set (cycle_closes sample_ready dm')" by simp
  with c show ?thesis by (auto simp: socket_of_def sample_server_def new_pentity_def)
qed

section \<open>The end of the daemon\<close>

text \<open>
  \<open>~Server\<close>: it closes the socket of each client and then empties the list of clients, which destroys those that
  no other list has a pointer to; after its body the remaining members are destroyed, the last one first.
  \<open>~Daemon\<close> has an empty body; its members go in the order streams, network, server. The base class, which has
  the multicast socket, is not part of this.
\<close>

definition server_destructor :: "int \<Rightarrow> server \<Rightarrow> int list" where
  "server_destructor nSocketFDControl sv =
     (let queued = map qv_served (sv_queue sv); destroy = (\<lambda>ps. concat (map (destroy_object sv) ps)) in
      client_fds sv @
      destroy (filter (\<lambda>p. p \<notin> set (sv_removed sv) \<and> p \<notin> set queued) (map fst (sv_served sv))) @
      serving_fds sv @ [nSocketFDControl] @
      destroy (filter (\<lambda>p. p \<notin> set queued) (remdups (sv_removed sv))) @
      destroy (remdups queued))"

definition network_destructor :: "network \<Rightarrow> int list" where
  "network_destructor nw = [m_nSocketFDControl nw]"

definition daemon_destructor :: "int \<Rightarrow> daemon \<Rightarrow> int list" where
  "daemon_destructor nSocketFDControl dm =
     (let sv = dm_server dm;
          held = map fst (sv_served sv) @ sv_removed sv @ map qv_served (sv_queue sv)
      in concat (map (destroy_object sv) (filter (\<lambda>p. p \<notin> set held) (remdups (map fst (dm_streams dm))))) @
         network_destructor (dm_network dm) @ server_destructor nSocketFDControl sv)"

lemma count_distinct: "distinct xs \<Longrightarrow> count_list xs x = (if x \<in> set xs then 1 else 0)"
  by (induction xs) auto

lemma count_twice: "count_list (xs @ ys) x = count_list xs x + count_list ys x"
  by (induction xs) auto

lemma daemon_destructor_ready:
  assumes "daemon_ready dm"
  shows "daemon_destructor ctl dm = m_nSocketFDControl (dm_network dm) #
    client_fds (dm_server dm) @ client_fds (dm_server dm) @ serving_fds (dm_server dm) @ [ctl]"
proof -
  let ?sv = "dm_server dm"
  have none: "filter (\<lambda>p. p \<notin> set (map fst (sv_served ?sv))) (remdups (map fst (dm_streams dm))) = []"
    using assms by (auto simp: filter_empty_conv daemon_ready_def daemon_inv_def)
  have "\<forall>p \<in> set (map fst (sv_served ?sv)). sv_heap ?sv p \<noteq> None"
    using ready_server [OF assms] by (force simp: server_inv_def)
  from destroy_objects [OF this] show ?thesis
    using assms none
    by (simp add: daemon_destructor_def server_destructor_def network_destructor_def daemon_ready_def client_fds_eq Let_def)
qed

text \<open>C36: when the daemon ends while clients are connected, it closes the descriptor of each of them twice: once in
  the destructor of the server and once more in the destructor of the client. Those of the servings are
  closed once.\<close>

theorem clients_closed_twice:
  assumes "daemon_ready dm"
    "distinct (m_nSocketFDControl (dm_network dm) # ctl # serving_fds (dm_server dm) @ client_fds (dm_server dm))"
  shows "(\<forall>fd \<in> set (client_fds (dm_server dm)). count_list (daemon_destructor ctl dm) fd = 2) \<and>
    (\<forall>fd \<in> set (serving_fds (dm_server dm)). count_list (daemon_destructor ctl dm) fd = 1)"
  using assms(2)
  by (auto simp: daemon_destructor_ready [OF assms(1)] count_twice count_distinct)

theorem clients_closed_twice_witness:
  "count_list (daemon_destructor 3 (sample_ready\<lparr>dm_network := sample_net\<lparr>m_nSocketFDControl := 7\<rparr>\<rparr>)) 10 = 2"
proof -
  let ?dm = "sample_ready\<lparr>dm_network := sample_net\<lparr>m_nSocketFDControl := 7\<rparr>\<rparr>"
  have fds: "client_fds sample_server = [10, 11]" "serving_fds sample_server = [4]"
    by (simp_all add: client_fds_def serving_fds_def socket_of_def)
       (simp_all add: sample_server_def new_server_def new_pentity_def)
  have "net_inv sample_net" using sample_ready_ok by (simp add: daemon_ready_def daemon_inv_def)
  then have "daemon_ready ?dm" using sample_ready_ok by (intro daemon_ready_network) (simp_all add: net_inv_def)
  from clients_closed_twice [OF this, of 3] show ?thesis by (simp add: fds)
qed

section \<open>A serving that is lost\<close>

lemma accept_step_status:
  "fst (accept_step env sg sv) =
     (if accept_of env (nSocketFD sg) = AcceptError False then sg\<lparr>stStatus := Invalid\<rparr> else sg)"
  by (auto simp: accept_step_def Let_def split: accept_res.splits)

lemma accept_all_status:
  "fst (accept_all env sgs sv) =
     map (\<lambda>sg. if accept_of env (nSocketFD sg) = AcceptError False
               then (listen_step env sg)\<lparr>stStatus := Invalid\<rparr> else listen_step env sg) sgs"
proof (induction sgs arbitrary: sv)
  case (Cons sg sgs)
  obtain sg1 sv1 where 1: "accept_step env (listen_step env sg) sv = (sg1, sv1)"
    by (cases "accept_step env (listen_step env sg) sv")
  obtain sgs2 sv2 where 2: "accept_all env sgs sv1 = (sgs2, sv2)" by (cases "accept_all env sgs sv1")
  from Cons.IH [of sv1] 2 accept_step_status [of env "listen_step env sg" sv] 1 show ?case by simp
qed simp

lemma key_gone: "distinct (map f xs) \<Longrightarrow> y \<in> set xs \<Longrightarrow> \<not> P y \<Longrightarrow> f y \<notin> f ` set (filter P xs)"
  by (auto simp: distinct_map inj_on_def)

text \<open>Any error of \<open>accept4\<close> but \<open>EAGAIN\<close>, such as a connection that the other side aborted before it was accepted or
  a table of descriptors that is full for the moment, ends a serving for good: its socket is closed and its
  number is gone.\<close>

theorem accept_error_ends_serving:
  assumes "server_inv sv" "server_cycle env sv = Inr (True, sv')" "sg \<in> set (sv_servings sv)"
    "accept_of env (nSocketFD sg) = AcceptError False"
  shows "nID sg \<notin> nID ` set (sv_servings sv') \<and> nSocketFD sg \<in> set (sv_closed sv')"
proof -
  let ?f = "\<lambda>sg. if accept_of env (nSocketFD sg) = AcceptError False
               then (listen_step env sg)\<lparr>stStatus := Invalid\<rparr> else listen_step env sg"
  let ?sgs = "map ?f (sv_servings sv)"
  obtain sv1 where a: "accept_all env (sv_servings sv) sv = (?sgs, sv1)"
    using accept_all_status [of env "sv_servings sv" sv] by (metis prod.collapse)
  have l: "sv_servings (listening env sv) = filter (\<lambda>sg. stStatus sg = Started) ?sgs"
      "set (sv_closed (listening env sv)) = set (sv_closed sv1) \<union> nSocketFD ` {sg \<in> set ?sgs. stStatus sg \<noteq> Started}"
    by (auto simp: listening_def a drop_servings_eq)
  have same: "same_sockets (listening env sv) sv'" by (rule server_cycle_sockets [OF assms(2)])
  have f: "?f sg \<in> set ?sgs" "stStatus (?f sg) = Invalid" "nSocketFD (?f sg) = nSocketFD sg" "nID (?f sg) = nID sg"
    using assms(3,4) by auto
  have "?f sg \<in> {sg \<in> set ?sgs. stStatus sg \<noteq> Started}" using f(1,2) by simp
  then have "nSocketFD (?f sg) \<in> nSocketFD ` {sg \<in> set ?sgs. stStatus sg \<noteq> Started}" by (rule imageI)
  then have "nSocketFD sg \<in> nSocketFD ` {sg \<in> set ?sgs. stStatus sg \<noteq> Started}" unfolding f(3) .
  then have closed: "nSocketFD sg \<in> set (sv_closed sv')" using l(2) same by (simp add: same_sockets_def)
  have ids: "map nID ?sgs = map nID (sv_servings sv)" by simp
  have "distinct (map nID ?sgs)" unfolding ids using assms(1) by (simp add: server_inv_def)
  have "nID (?f sg) \<notin> nID ` set (filter (\<lambda>sg. stStatus sg = Started) ?sgs)"
    by (rule key_gone [OF \<open>distinct (map nID ?sgs)\<close> f(1)]) (simp only: f(2), simp)
  then have "nID sg \<notin> nID ` set (filter (\<lambda>sg. stStatus sg = Started) ?sgs)" unfolding f(4) .
  with closed same l(1) show ?thesis by (simp add: same_sockets_def)
qed

theorem accept_error_ends_serving_witness:
  "\<exists>sv'. server_cycle (sample_sock\<lparr>accept_of := \<lambda>fd. AcceptError False\<rparr>) sample_server = Inr (True, sv') \<and>
     0 \<notin> nID ` set (sv_servings sv') \<and> 4 \<in> set (sv_closed sv')"
proof -
  let ?env = "sample_sock\<lparr>accept_of := \<lambda>fd. AcceptError False\<rparr>"
  have l: "sv_served (listening ?env sample_server) = sv_served sample_server"
      "sv_heap (listening ?env sample_server) = sv_heap sample_server"
    by (simp_all add: listening_def accept_step_def listen_step_def sample_server_def new_server_def drop_servings_eq)
  have r: "client_receive ?env h p = client_receive sample_sock h p" for h p
    by (cases "h p") (simp_all add: client_receive_def)
  have "\<forall>pr \<in> set (sv_served (listening ?env sample_server)).
      \<exists>r. client_receive ?env (sv_heap (listening ?env sample_server)) (fst pr) = Inr r"
    using sample_receives sample_listening by (simp add: l r)
  from server_cycle_Inr [OF sample_server_inv sample_server_run this] obtain sv' where
      c: "server_cycle ?env sample_server = Inr (True, sv')" by blast
  let ?sg = "\<lparr>stStatus = Stopped, nID = 0, nSocketFD = 4, strDeviceName = ''eth0'', usPort = 7090\<rparr>"
  have "?sg \<in> set (sv_servings sample_server)" by (simp add: sample_server_def)
  from accept_error_ends_serving [OF sample_server_inv c this] c show ?thesis by auto
qed

section \<open>The devices of the system\<close>

text \<open>\<open>Server::systemDeviceNames\<close>, which has a control socket of its own and is not called, finds the devices that
  \<open>Network::systemDeviceNames\<close> finds.\<close>

definition server_systemDeviceNames :: "net_env \<Rightarrow> int \<Rightarrow> string list" where
  "server_systemDeviceNames env nSocketFDControl =
     (if nSocketFDControl \<ge> 0 then
        (case ifconf env of None \<Rightarrow> [] | Some names \<Rightarrow> take 100 names)
      else [])"

lemma systemDeviceNames_agree:
  "0 \<le> ctl \<Longrightarrow> 0 \<le> m_nSocketFDControl nw \<Longrightarrow> server_systemDeviceNames env ctl = systemDeviceNames env nw"
  by (simp add: server_systemDeviceNames_def systemDeviceNames_def)

end
