(* ===== verification/Sharing.thy ===== *)
theory Sharing
  imports Packet
begin

text \<open>
  \<open>PacketEntity\<close> as threads share it: \<open>send\<close> and \<open>receive\<close> begin with a \<open>lock_guard\<close> of \<open>m_mtxSocketAccess\<close>
  (\<open>utils/src/PacketEntity.cpp\<close>), which is released when they return. The threads take turns at the system
  calls, which are the steps here; \<open>Packet\<close> describes one call on its own.

  A thread is a number and the list of calls it still has to make. \<open>sh_wire\<close> are the bytes the kernel took,
  \<open>sh_queue\<close> those that arrived and were not taken yet. \<open>sh_sent\<close> and \<open>sh_received\<close> are the calls that
  returned, with the thread, in the order in which they released the mutex, \<open>sh_arrived\<close> the packets of the
  other side; no step depends on these three.
\<close>

section \<open>Steps\<close>

datatype call = Send val | Receive

text \<open>
  Where a thread is: outside, in the write loop of \<open>send\<close> with its buffer and the bytes sent, before the
  peek of \<open>receive\<close>, and between the peek and the final \<open>recv\<close>.
\<close>

datatype phase = Outside | Writing val "byte list" nat | Peeking | Taking "val option" nat

record shared =
  sh_owner :: "nat option"
  sh_entity :: pentity
  sh_wire :: "byte list"
  sh_queue :: "byte list"
  sh_todo :: "nat \<Rightarrow> call list"
  sh_phase :: "nat \<Rightarrow> phase"
  sh_sent :: "(nat \<times> val \<times> nat) list"
  sh_received :: "(nat \<times> val option) list"
  sh_arrived :: "val list"

definition start_shared :: "int \<Rightarrow> (nat \<Rightarrow> call list) \<Rightarrow> shared" where
  "start_shared fd prog =
     \<lparr>sh_owner = None, sh_entity = new_pentity fd, sh_wire = [], sh_queue = [], sh_todo = prog,
      sh_phase = (\<lambda>i. Outside), sh_sent = [], sh_received = [], sh_arrived = []\<rparr>"

definition move :: "nat \<Rightarrow> nat option \<Rightarrow> phase \<Rightarrow> shared \<Rightarrow> shared" where
  "move i own ph s = s\<lparr>sh_owner := own, sh_phase := (sh_phase s)(i := ph)\<rparr>"

text \<open>
  The kernel decides how many bytes a write takes; when it takes none, \<open>send\<close> returns early. The last rule
  is the other side: a packet arrives.
\<close>

inductive share_step :: "(nat \<Rightarrow> byte list) \<Rightarrow> shared \<Rightarrow> shared \<Rightarrow> bool" for junk where
  lock_send: "sh_owner s = None \<Longrightarrow> sh_phase s i = Outside \<Longrightarrow> sh_todo s i = Send v # cs \<Longrightarrow>
    send_buffer v 0 = Inr bs \<Longrightarrow>
    share_step junk s (move i (Some i) (Writing v bs 0) (s\<lparr>sh_todo := (sh_todo s)(i := cs)\<rparr>))"
| write_some: "sh_phase s i = Writing v bs n \<Longrightarrow> n < length bs \<Longrightarrow> 0 < k \<Longrightarrow> k \<le> length bs - n \<Longrightarrow>
    share_step junk s (move i (sh_owner s) (Writing v bs (n + k)) (s\<lparr>sh_wire := sh_wire s @ take k (drop n bs)\<rparr>))"
| unlock_send: "sh_phase s i = Writing v bs n \<Longrightarrow>
    share_step junk s (move i None Outside (s\<lparr>sh_sent := sh_sent s @ [(i, v, n)]\<rparr>))"
| lock_receive: "sh_owner s = None \<Longrightarrow> sh_phase s i = Outside \<Longrightarrow> sh_todo s i = Receive # cs \<Longrightarrow>
    share_step junk s (move i (Some i) Peeking (s\<lparr>sh_todo := (sh_todo s)(i := cs)\<rparr>))"
| peek: "sh_phase s i = Peeking \<Longrightarrow>
    receive (queue_peek (sh_queue s)) junk False (sh_entity s) = Inr (v, d, pe, n) \<Longrightarrow>
    share_step junk s (move i (sh_owner s) (Taking v n) (s\<lparr>sh_entity := pe\<rparr>))"
| unlock_receive: "sh_phase s i = Taking v n \<Longrightarrow>
    share_step junk s (move i None Outside
      (s\<lparr>sh_queue := drop n (sh_queue s), sh_received := sh_received s @ [(i, v)]\<rparr>))"
| arrive: "value_ok v \<Longrightarrow> length (sh_queue s @ encode v) + 2048 \<le> int_max \<Longrightarrow>
    share_step junk s (s\<lparr>sh_queue := sh_queue s @ encode v, sh_arrived := sh_arrived s @ [v]\<rparr>)"

inductive_cases share_stepE: "share_step junk s s'"

abbreviation share_run :: "(nat \<Rightarrow> byte list) \<Rightarrow> shared \<Rightarrow> shared \<Rightarrow> bool" where
  "share_run junk \<equiv> (share_step junk)\<^sup>*\<^sup>*"

lemma move_simps [simp]:
  "sh_owner (move i own ph s) = own" "sh_phase (move i own ph s) = (sh_phase s)(i := ph)"
  "sh_entity (move i own ph s) = sh_entity s" "sh_wire (move i own ph s) = sh_wire s"
  "sh_queue (move i own ph s) = sh_queue s" "sh_todo (move i own ph s) = sh_todo s"
  "sh_sent (move i own ph s) = sh_sent s" "sh_received (move i own ph s) = sh_received s"
  "sh_arrived (move i own ph s) = sh_arrived s"
  by (simp_all add: move_def)

section \<open>Mutual exclusion\<close>

text \<open>The mutex is held exactly by the thread that is inside, so there is at most one.\<close>

definition exclusive :: "shared \<Rightarrow> bool" where
  "exclusive s \<longleftrightarrow> (\<forall>i. sh_owner s = Some i \<longleftrightarrow> sh_phase s i \<noteq> Outside)"

lemma exclusive_start: "exclusive (start_shared fd prog)"
  by (simp add: exclusive_def start_shared_def)

lemma exclusiveD:
  "exclusive s \<Longrightarrow> sh_phase s i \<noteq> Outside \<Longrightarrow> sh_owner s = Some i \<and> (\<forall>j. j \<noteq> i \<longrightarrow> sh_phase s j = Outside)"
  unfolding exclusive_def by (metis option.inject)

lemma exclusive_other [simp]:
  "exclusive (s\<lparr>sh_todo := t\<rparr>) = exclusive s" "exclusive (s\<lparr>sh_wire := w\<rparr>) = exclusive s"
  "exclusive (s\<lparr>sh_sent := x\<rparr>) = exclusive s" "exclusive (s\<lparr>sh_entity := e\<rparr>) = exclusive s"
  "exclusive (s\<lparr>sh_queue := q, sh_received := y\<rparr>) = exclusive s"
  "exclusive (s\<lparr>sh_queue := q, sh_arrived := z\<rparr>) = exclusive s"
  by (simp_all add: exclusive_def)

lemma exclusive_move:
  assumes "exclusive s" "sh_owner s = None \<or> sh_phase s i \<noteq> Outside"
    "own = (if ph = Outside then None else Some i)"
  shows "exclusive (move i own ph s)"
proof -
  have "sh_phase s j = Outside" if "j \<noteq> i" for j
    using assms(1,2) that unfolding exclusive_def by (metis option.distinct(1) option.inject)
  with assms(3) show ?thesis by (auto simp: exclusive_def)
qed

lemma exclusive_step: "share_step junk s s' \<Longrightarrow> exclusive s \<Longrightarrow> exclusive s'"
  by (erule share_step.cases; hypsubst)
     (simp_all add: exclusive_move exclusiveD)

section \<open>What is on the wire\<close>

definition packet_ok :: "val \<Rightarrow> bool" where
  "packet_ok v \<longleftrightarrow> value_ok v \<and> wire_size v + 2048 \<le> int_max"

definition calls_ok :: "call list \<Rightarrow> bool" where
  "calls_ok cs \<longleftrightarrow> (\<forall>v. Send v \<in> set cs \<longrightarrow> packet_ok v)"

text \<open>The bytes of the sends that returned, and those of the send that has not.\<close>

definition sent_bytes :: "(nat \<times> val \<times> nat) list \<Rightarrow> byte list" where
  "sent_bytes sent = concat (map (\<lambda>(i, v, n). take n (encode v)) sent)"

definition phase_bytes :: "phase \<Rightarrow> byte list" where
  "phase_bytes ph = (case ph of Writing v bs n \<Rightarrow> take n bs | _ \<Rightarrow> [])"

definition phase_ok :: "phase \<Rightarrow> bool" where
  "phase_ok ph = (case ph of Writing v bs n \<Rightarrow> bs = encode v \<and> n \<le> length bs \<and> packet_ok v | _ \<Rightarrow> True)"

definition in_flight :: "shared \<Rightarrow> byte list" where
  "in_flight s = (case sh_owner s of None \<Rightarrow> [] | Some i \<Rightarrow> phase_bytes (sh_phase s i))"

definition wire_inv :: "shared \<Rightarrow> bool" where
  "wire_inv s \<longleftrightarrow> exclusive s \<and> sh_wire s = sent_bytes (sh_sent s) @ in_flight s \<and>
     (\<forall>i. phase_ok (sh_phase s i)) \<and> (\<forall>i. calls_ok (sh_todo s i)) \<and> (\<forall>(i, v, n) \<in> set (sh_sent s). packet_ok v)"

lemma phase_simps [simp]:
  "phase_bytes Outside = []" "phase_bytes Peeking = []" "phase_bytes (Taking w m) = []"
  "phase_bytes (Writing v bs n) = take n bs"
  "phase_ok Outside" "phase_ok Peeking" "phase_ok (Taking w m)"
  "phase_ok (Writing v bs n) \<longleftrightarrow> bs = encode v \<and> n \<le> length bs \<and> packet_ok v"
  by (simp_all add: phase_bytes_def phase_ok_def)

lemma in_flight_inside: "exclusive s \<Longrightarrow> sh_phase s i \<noteq> Outside \<Longrightarrow> in_flight s = phase_bytes (sh_phase s i)"
  by (simp add: in_flight_def exclusiveD)

lemma in_flight_move [simp]:
  "in_flight (move i (Some i) ph s) = phase_bytes ph" "in_flight (move i None ph s) = []"
  by (simp_all add: in_flight_def)

lemma calls_ok_Cons: "calls_ok (c # cs) \<longleftrightarrow> calls_ok cs \<and> (\<forall>v. c = Send v \<longrightarrow> packet_ok v)"
  by (auto simp: calls_ok_def)

lemma send_buffer_packet: "packet_ok v \<Longrightarrow> send_buffer v 0 = Inr (encode v)"
  by (simp add: packet_ok_def send_buffer_eq)

lemma take_more: "take n xs @ take k (drop n xs) = take (n + k) xs"
  by (simp add: take_add)

lemma wire_inv_step: "share_step junk s s' \<Longrightarrow> wire_inv s \<Longrightarrow> wire_inv s'"
proof (frule (1) exclusive_step [OF _ wire_inv_def [THEN iffD1, THEN conjunct1]])
  assume step: "share_step junk s s'" and inv: "wire_inv s" and ex': "exclusive s'"
  note w = inv [unfolded wire_inv_def]
  from step show "wire_inv s'"
  proof (cases rule: share_step.cases)
    case (lock_send i v cs bs)
    have "calls_ok (Send v # cs)" using w lock_send(4) by metis
    then have "packet_ok v" "calls_ok cs" by (auto simp: calls_ok_Cons)
    moreover have "in_flight s = []" using lock_send(2) by (simp add: in_flight_def)
    ultimately show ?thesis using w ex' lock_send(5)
      by (auto simp: wire_inv_def lock_send(1) send_buffer_packet)
  next
    case (write_some i v bs n k)
    have "phase_ok (Writing v bs n)" using w write_some(2) by metis
    moreover have "in_flight s = take n bs" "sh_owner s = Some i"
      using w write_some(2) in_flight_inside [of s i] exclusiveD [of s i] by simp_all
    ultimately show ?thesis using w ex' write_some(3-5)
      by (auto simp: wire_inv_def write_some(1) take_more)
  next
    case (unlock_send i v bs n)
    have "phase_ok (Writing v bs n)" using w unlock_send(2) by metis
    moreover have "in_flight s = take n bs" using w unlock_send(2) in_flight_inside [of s i] by simp
    ultimately show ?thesis using w ex'
      by (auto simp: wire_inv_def unlock_send(1) sent_bytes_def)
  next
    case (lock_receive i cs)
    have "calls_ok (Receive # cs)" using w lock_receive(4) by metis
    moreover have "in_flight s = []" using lock_receive(2) by (simp add: in_flight_def)
    ultimately show ?thesis using w ex' by (auto simp: wire_inv_def lock_receive(1) calls_ok_Cons)
  next
    case (peek i v d pe n)
    have "in_flight s = []" "sh_owner s = Some i"
      using w peek(2) in_flight_inside [of s i] exclusiveD [of s i] by simp_all
    then show ?thesis using w ex' by (auto simp: wire_inv_def peek(1))
  next
    case (unlock_receive i v n)
    have "in_flight s = []" using w unlock_receive(2) in_flight_inside [of s i] by simp
    then show ?thesis using w ex' by (auto simp: wire_inv_def unlock_receive(1))
  next
    case (arrive v)
    have "in_flight s' = in_flight s" by (simp add: arrive(1) in_flight_def split: option.split)
    then show ?thesis using w ex' by (auto simp: wire_inv_def arrive(1))
  qed
qed

lemma wire_inv_run: "share_run junk s s' \<Longrightarrow> wire_inv s \<Longrightarrow> wire_inv s'"
  by (induction rule: rtranclp_induct) (auto intro: wire_inv_step)

lemma wire_inv_start: "\<forall>i. calls_ok (prog i) \<Longrightarrow> wire_inv (start_shared fd prog)"
  by (simp add: wire_inv_def exclusive_start) (simp add: start_shared_def in_flight_def sent_bytes_def)

section \<open>The order of the packets\<close>

definition sends :: "call list \<Rightarrow> val list" where
  "sends cs = concat (map (\<lambda>c. case c of Send v \<Rightarrow> [v] | Receive \<Rightarrow> []) cs)"

definition phase_sends :: "phase \<Rightarrow> val list" where
  "phase_sends ph = (case ph of Writing v bs n \<Rightarrow> [v] | _ \<Rightarrow> [])"

definition sent_by :: "nat \<Rightarrow> (nat \<times> val \<times> nat) list \<Rightarrow> val list" where
  "sent_by i sent = map (\<lambda>(j, v, n). v) (filter (\<lambda>(j, v, n). j = i) sent)"

text \<open>What a thread has sent, is sending and will send.\<close>

definition all_sends :: "nat \<Rightarrow> shared \<Rightarrow> val list" where
  "all_sends i s = sent_by i (sh_sent s) @ phase_sends (sh_phase s i) @ sends (sh_todo s i)"

lemma sends_simps [simp]:
  "sends [] = []" "sends (Send v # cs) = v # sends cs" "sends (Receive # cs) = sends cs"
  "phase_sends Outside = []" "phase_sends Peeking = []" "phase_sends (Taking w n) = []"
  "phase_sends (Writing v bs n) = [v]"
  "sent_by i (xs @ ys) = sent_by i xs @ sent_by i ys" "sent_by i [] = []"
  "sent_by i [(j, v, n)] = (if j = i then [v] else [])"
  by (simp_all add: sends_def phase_sends_def sent_by_def)

lemma all_sends_step: "share_step junk s s' \<Longrightarrow> all_sends i s' = all_sends i s"
  by (erule share_step.cases; hypsubst) (auto simp: all_sends_def)

lemma all_sends_run: "share_run junk s s' \<Longrightarrow> all_sends i s' = all_sends i s"
  by (induction rule: rtranclp_induct) (simp_all add: all_sends_step)

section \<open>What the threads receive\<close>

definition received :: "shared \<Rightarrow> val list" where
  "received s = concat (map (\<lambda>(i, v). case v of Some v \<Rightarrow> [v] | None \<Rightarrow> []) (sh_received s))"

text \<open>A thread between its peek and its \<open>recv\<close> holds the first packet that was not received, or nothing.\<close>

definition holds :: "val list \<Rightarrow> phase \<Rightarrow> bool" where
  "holds pending ph \<longleftrightarrow> (case ph of
     Taking v n \<Rightarrow> (v = None \<and> n = 0) \<or> (\<exists>w ws. pending = w # ws \<and> v = Some w \<and> n = wire_size w) | _ \<Rightarrow> True)"

definition receive_inv :: "shared \<Rightarrow> bool" where
  "receive_inv s \<longleftrightarrow> exclusive s \<and> (\<exists>pending. sh_arrived s = received s @ pending \<and>
     sh_queue s = concat (map encode pending) \<and> (\<forall>v \<in> set pending. value_ok v) \<and>
     (\<forall>i. holds pending (sh_phase s i))) \<and> (sh_queue s \<noteq> [] \<longrightarrow> length (sh_queue s) + 2048 \<le> int_max)"

lemma holds_simps [simp]:
  "holds ps Outside" "holds ps Peeking" "holds ps (Writing v bs n)"
  "holds ps (Taking None 0)" "holds (w # ws) (Taking (Some w) (wire_size w))"
  by (simp_all add: holds_def)

lemma holds_more: "holds ps ph \<Longrightarrow> holds (ps @ qs) ph"
  by (auto simp: holds_def split: phase.splits)

lemma encode_not_Nil: "encode v \<noteq> []"
  using wire_size_ge [of v] length_encode [of v] by force

text \<open>What a peek finds when only whole packets arrive.\<close>

lemma peek_pending:
  assumes "sh_queue s = concat (map encode pending)" "\<forall>v \<in> set pending. value_ok v"
    "sh_queue s \<noteq> [] \<longrightarrow> length (sh_queue s) + 2048 \<le> int_max" "heap_block junk"
  shows "\<exists>v n. receive (queue_peek (sh_queue s)) junk False pe = Inr (v, False, pe, n) \<and> holds pending (Taking v n)"
proof (cases pending)
  case Nil
  then show ?thesis using receive_empty [of "queue_peek []" junk False pe] assms(1) tcp_queue_peek [of "[]"]
    by (intro exI [of _ None] exI [of _ 0]) simp
next
  case (Cons w ws)
  have q: "sh_queue s = encode w @ concat (map encode ws)" using assms(1) Cons by simp
  have "receive (queue_peek (sh_queue s)) junk False pe = Inr (Some w, False, pe, wire_size w)"
    unfolding q
  proof (rule receive_front [OF tcp_queue_peek _ _ assms(4)])
    show "value_ok w" using assms(2) Cons by simp
    show "length (encode w @ concat (map encode ws)) + 2048 \<le> int_max"
      using assms(3) encode_not_Nil [of w] by (simp add: q)
  qed
  then show ?thesis by (auto simp: Cons)
qed

lemma holds_others:
  assumes "exclusive s" "sh_phase s i \<noteq> Outside"
  shows "holds pending (((sh_phase s)(i := Outside)) j)"
  using exclusiveD [OF assms] by simp

lemma receive_invI:
  assumes "exclusive s" "sh_arrived s = received s @ ps" "sh_queue s = concat (map encode ps)"
    "\<forall>v \<in> set ps. value_ok v" "\<forall>i. holds ps (sh_phase s i)"
    "sh_queue s \<noteq> [] \<longrightarrow> length (sh_queue s) + 2048 \<le> int_max"
  shows "receive_inv s"
  using assms unfolding receive_inv_def by blast

lemma receive_inv_step:
  assumes junk: "heap_block junk" and step: "share_step junk s s'" and inv: "receive_inv s"
  shows "receive_inv s'"
proof -
  from inv have ex: "exclusive s" by (simp add: receive_inv_def)
  note ex' = exclusive_step [OF step ex]
  from inv obtain pending where p: "sh_arrived s = received s @ pending" "sh_queue s = concat (map encode pending)"
      "\<forall>v \<in> set pending. value_ok v" "\<forall>i. holds pending (sh_phase s i)"
      "sh_queue s \<noteq> [] \<longrightarrow> length (sh_queue s) + 2048 \<le> int_max"
    by (auto simp: receive_inv_def)
  have keep: "receive_inv s'" if "sh_arrived s' = sh_arrived s" "sh_queue s' = sh_queue s"
      "sh_received s' = sh_received s" "\<forall>i. holds pending (sh_phase s' i)"
    using that ex' p by (intro receive_invI [of _ pending]) (simp_all add: received_def)
  from step show ?thesis
  proof (cases rule: share_step.cases)
    case (peek i v d pe n)
    from peek_pending [OF p(2,3,5) junk, of "sh_entity s"] peek(3) have "holds pending (Taking v n)" by auto
    with p(4) show ?thesis by (intro keep) (simp_all add: peek(1))
  next
    case (unlock_receive i v n)
    have h: "holds pending (Taking v n)" using p(4) unlock_receive(2) by metis
    have o: "\<forall>j. holds qs (sh_phase s' j)" for qs
      using holds_others [OF ex, of i] unlock_receive(2) by (simp add: unlock_receive(1))
    from h consider "v = None" "n = 0" | w ws where "pending = w # ws" "v = Some w" "n = wire_size w"
      by (auto simp: holds_def)
    then show ?thesis
    proof cases
      case 1
      show ?thesis
        by (rule receive_invI [OF ex' _ _ p(3) o])
          (use 1 p in \<open>simp_all add: unlock_receive(1) received_def\<close>)
    next
      case (2 w ws)
      then have q: "drop n (sh_queue s) = concat (map encode ws)" by (simp add: p(2))
      with 2 p(5) have "concat (map encode ws) \<noteq> [] \<longrightarrow> length (concat (map encode ws)) + 2048 \<le> int_max"
        by (auto simp: p(2) encode_not_Nil)
      moreover have "\<forall>v \<in> set ws. value_ok v" using p(3) 2(1) by simp
      ultimately show ?thesis
        by (intro receive_invI [OF ex' _ _ _ o])
          (use 2 q p(1) in \<open>simp_all add: unlock_receive(1) received_def\<close>)
    qed
  next
    case (arrive v)
    have "\<forall>i. holds (pending @ [v]) (sh_phase s i)" using p(4) holds_more by blast
    then show ?thesis
      by (intro receive_invI [OF ex', of "pending @ [v]"])
        (use arrive(2,3) p in \<open>simp_all add: arrive(1) received_def\<close>)
  qed (rule keep; simp add: p(4))+
qed

lemma receive_inv_run: "share_run junk s s' \<Longrightarrow> heap_block junk \<Longrightarrow> receive_inv s \<Longrightarrow> receive_inv s'"
  by (induction rule: rtranclp_induct) (auto intro: receive_inv_step)

lemma receive_inv_start: "receive_inv (start_shared fd prog)"
  using exclusive_start [of fd prog] by (simp add: receive_inv_def) (simp add: start_shared_def received_def)

section \<open>Two threads\<close>

text \<open>Thread 0 sends a request in two writes; thread 1 waits for the mutex and then receives.\<close>

definition ask :: val where
  "ask = Value ''request'' ''devices-list'' []"

definition two_threads :: "nat \<Rightarrow> call list" where
  "two_threads i = (if i = 0 then [Send ask] else if i = 1 then [Receive] else [])"

definition no_junk :: "nat \<Rightarrow> byte list" where
  "no_junk n = replicate n 0"

lemma two_threads_ok: "heap_block no_junk" "calls_ok (two_threads i)" "packet_ok ask"
  by (simp_all add: heap_block_def no_junk_def calls_ok_def two_threads_def packet_ok_def ask_def string_ok_def int_max_def
      split: if_splits)

lemma two_threads_run:
  "\<exists>s. share_run no_junk (start_shared 4 two_threads) s \<and> sh_owner s = None \<and> sh_sent s = [(0, ask, wire_size ask)] \<and>
     sh_wire s = encode ask \<and> sh_arrived s = [ask] \<and> sh_received s = [] \<and> sh_todo s 1 = [Receive]"
proof -
  let ?s0 = "start_shared 4 two_threads"
  let ?s1 = "move 0 (Some 0) (Writing ask (encode ask) 0) (?s0\<lparr>sh_todo := (sh_todo ?s0)(0 := [])\<rparr>)"
  let ?s2 = "move 0 (Some 0) (Writing ask (encode ask) 5) (?s1\<lparr>sh_wire := take 5 (encode ask)\<rparr>)"
  let ?s3 = "?s2\<lparr>sh_queue := encode ask, sh_arrived := [ask]\<rparr>"
  let ?s4 = "move 0 (Some 0) (Writing ask (encode ask) (wire_size ask)) (?s3\<lparr>sh_wire := encode ask\<rparr>)"
  let ?s5 = "move 0 None Outside (?s4\<lparr>sh_sent := [(0, ask, wire_size ask)]\<rparr>)"
  have size: "12 \<le> wire_size ask" by (rule wire_size_ge)
  have st: "sh_owner ?s0 = None" "\<And>i. sh_phase ?s0 i = Outside" "sh_todo ?s0 = two_threads" "sh_wire ?s0 = []"
      "sh_sent ?s0 = []" "sh_queue ?s0 = []" "sh_arrived ?s0 = []" "sh_received ?s0 = []"
    by (simp_all add: start_shared_def)
  have 1: "share_step no_junk ?s0 ?s1"
    by (rule lock_send) (simp_all add: st two_threads_def send_buffer_packet two_threads_ok)
  have "share_step no_junk ?s1 (move 0 (sh_owner ?s1) (Writing ask (encode ask) (0 + 5))
      (?s1\<lparr>sh_wire := sh_wire ?s1 @ take 5 (drop 0 (encode ask))\<rparr>))"
    by (rule write_some) (use size in simp_all)
  then have 2: "share_step no_junk ?s1 ?s2" by (simp add: st)
  have "share_step no_junk ?s2 (?s2\<lparr>sh_queue := sh_queue ?s2 @ encode ask, sh_arrived := sh_arrived ?s2 @ [ask]\<rparr>)"
    by (rule arrive) (use two_threads_ok(3) in \<open>simp_all add: packet_ok_def st\<close>)
  then have 3: "share_step no_junk ?s2 ?s3" by (simp add: st)
  have "share_step no_junk ?s3 (move 0 (sh_owner ?s3) (Writing ask (encode ask) (5 + (wire_size ask - 5)))
      (?s3\<lparr>sh_wire := sh_wire ?s3 @ take (wire_size ask - 5) (drop 5 (encode ask))\<rparr>))"
    by (rule write_some) (use size in simp_all)
  moreover have "take 5 (encode ask) @ take (wire_size ask - 5) (drop 5 (encode ask)) = encode ask"
    using size by (simp add: take_more)
  ultimately have 4: "share_step no_junk ?s3 ?s4" using size by simp
  have "share_step no_junk ?s4 (move 0 None Outside (?s4\<lparr>sh_sent := sh_sent ?s4 @ [(0, ask, wire_size ask)]\<rparr>))"
    by (rule unlock_send) simp
  then have 5: "share_step no_junk ?s4 ?s5" by (simp add: st)
  from 1 2 3 4 5 have "share_run no_junk ?s0 ?s5" by (meson converse_rtranclp_into_rtranclp rtranclp.rtrancl_refl)
  then show ?thesis by (intro exI [of _ ?s5]) (simp add: st two_threads_def)
qed

section \<open>Properties\<close>

lemma sent_bytes_whole:
  "\<forall>(i, v, n) \<in> set sent. n = wire_size v \<Longrightarrow> sent_bytes sent = concat (map encode (map (\<lambda>(i, v, n). v) sent))"
  by (induction sent) (auto simp: sent_bytes_def)

text \<open>C16: threads may send over one connection at the same time: whatever the scheduler does and however the kernel
  splits the writes, when no call is under way and each returned call was sent completely, the other side
  receives whole packets, in the order in which the calls returned, and those of each thread are, in its
  order, the first of those it was told to send.\<close>

theorem shared_sends_whole:
  assumes "share_run junk (start_shared fd prog) s" "\<forall>i. calls_ok (prog i)" "sh_owner s = None"
    "\<forall>(i, v, n) \<in> set (sh_sent s). n = wire_size v"
    "length (sh_wire s) + 2048 \<le> int_max" "heap_block junk'"
  shows "receive_many junk' (length (sh_sent s)) (sh_wire s) pe = Inr (map (\<lambda>(i, v, n). Some v) (sh_sent s), []) \<and>
    (\<forall>i. sent_by i (sh_sent s) @ sends (sh_todo s i) = sends (prog i))"
proof -
  have w: "wire_inv s" by (rule wire_inv_run [OF assms(1) wire_inv_start [OF assms(2)]])
  let ?vs = "map (\<lambda>(i, v, n). v) (sh_sent s)"
  have wire: "sh_wire s = concat (map encode ?vs)"
    using w assms(3) sent_bytes_whole [OF assms(4)] by (simp add: wire_inv_def in_flight_def)
  have "\<forall>v \<in> set ?vs. value_ok v" using w by (auto simp: wire_inv_def packet_ok_def)
  from receive_many_queue [OF this assms(6), of "[]"] assms(5)
  have "receive_many junk' (length ?vs) (sh_wire s) pe = Inr (map Some ?vs, [])" by (simp add: wire)
  moreover have "map Some ?vs = map (\<lambda>(i, v, n). Some v) (sh_sent s)" by auto
  moreover have "sent_by i (sh_sent s) @ sends (sh_todo s i) = sends (prog i)" for i
  proof -
    have "sh_phase s i = Outside" using w assms(3) by (simp add: wire_inv_def exclusive_def)
    then show ?thesis using all_sends_run [OF assms(1), of i]
      by (simp add: all_sends_def) (simp add: start_shared_def)
  qed
  ultimately show ?thesis by simp
qed

theorem shared_sends_whole_witness:
  "\<exists>s. share_run no_junk (start_shared 4 two_threads) s \<and>
     receive_many no_junk 1 (sh_wire s) (new_pentity 5) = Inr ([Some ask], [])"
proof -
  from two_threads_run obtain s where s: "share_run no_junk (start_shared 4 two_threads) s" "sh_owner s = None"
      "sh_sent s = [(0, ask, wire_size ask)]" "sh_wire s = encode ask" by blast
  have "\<forall>i. calls_ok (two_threads i)" by (simp add: two_threads_ok)
  moreover have "\<forall>(i, v, n) \<in> set (sh_sent s). n = wire_size v" by (simp add: s(3))
  moreover have "length (sh_wire s) + 2048 \<le> int_max" using two_threads_ok(3) by (simp add: s(4) packet_ok_def)
  ultimately have "receive_many no_junk (length (sh_sent s)) (sh_wire s) (new_pentity 5) =
      Inr (map (\<lambda>(i, v, n). Some v) (sh_sent s), [])"
    using shared_sends_whole [OF s(1) _ s(2) _ _ two_threads_ok(1)] by blast
  with s show ?thesis by (intro exI [of _ s]) simp
qed



text \<open>The mutex never blocks all threads: as long as a thread is in a call or has calls to make, one of them can
  go on without anything arriving.\<close>

theorem shared_no_deadlock:
  assumes "share_run junk (start_shared fd prog) s" "\<forall>i. calls_ok (prog i)" "heap_block junk"
    "sh_todo s i \<noteq> [] \<or> sh_phase s i \<noteq> Outside"
  shows "\<exists>s'. share_step junk s s' \<and> sh_arrived s' = sh_arrived s"
proof -
  have w: "wire_inv s" by (rule wire_inv_run [OF assms(1) wire_inv_start [OF assms(2)]])
  have r: "receive_inv s" by (rule receive_inv_run [OF assms(1,3) receive_inv_start])
  show ?thesis
  proof (cases "sh_owner s")
    case None
    then have out: "\<forall>j. sh_phase s j = Outside" using w by (simp add: wire_inv_def exclusive_def)
    with assms(4) obtain c cs where c: "sh_todo s i = c # cs" by (cases "sh_todo s i") auto
    show ?thesis
    proof (cases c)
      case (Send v)
      have "calls_ok (sh_todo s i)" using w by (simp add: wire_inv_def)
      then have "send_buffer v 0 = Inr (encode v)" by (simp add: c Send calls_ok_Cons send_buffer_packet)
      from lock_send [OF None _ c [unfolded Send] this] out show ?thesis by fastforce
    next
      case Receive
      from lock_receive [OF None _ c [unfolded Receive]] out show ?thesis by fastforce
    qed
  next
    case (Some j)
    then have "sh_phase s j \<noteq> Outside" using w unfolding wire_inv_def exclusive_def by blast
    then show ?thesis
    proof (cases "sh_phase s j")
      case (Writing v bs n)
      from unlock_send [OF this] show ?thesis by fastforce
    next
      case Peeking
      from r obtain pending where "sh_queue s = concat (map encode pending)" "\<forall>v \<in> set pending. value_ok v"
          "sh_queue s \<noteq> [] \<longrightarrow> length (sh_queue s) + 2048 \<le> int_max"
        unfolding receive_inv_def by blast
      from peek_pending [OF this assms(3)] peek [OF Peeking] show ?thesis by fastforce
    next
      case (Taking v n)
      from unlock_receive [OF this] show ?thesis by fastforce
    qed simp
  qed
qed

theorem shared_no_deadlock_witness:
  "\<exists>s s'. share_run no_junk (start_shared 4 two_threads) s \<and> share_step no_junk s s' \<and> sh_arrived s' = [ask]"
proof -
  from two_threads_run obtain s where s: "share_run no_junk (start_shared 4 two_threads) s" "sh_arrived s = [ask]"
      "sh_todo s 1 = [Receive]" by blast
  have "\<forall>i. calls_ok (two_threads i)" by (simp add: two_threads_ok)
  from shared_no_deadlock [OF s(1) this two_threads_ok(1), of 1] s show ?thesis by auto
qed

end
