(* ===== verification/Precision.thy ===== *)
theory Precision
  imports Daemon_Props
begin

text \<open>
  What the text of a number says about the number: \<open>operator<<\<close> for a \<open>double\<close>, by which
  \<open>macdetectd/src/Daemon.cpp\<close> writes the times of an address, keeps six digits. The text is read back as a number
  that differs from the one written by at most half a unit of its sixth digit; times that agree in their
  first six digits are written as one text.
\<close>

section \<open>Powers of ten\<close>

lemma pow10_powi: "pow10 e = 10 powi e"
  by (simp add: pow10_def power_int_def field_simps)

lemma pow10_add: "pow10 (a + b) = pow10 a * pow10 b"
  by (simp add: pow10_powi power_int_add)

lemma pow10_pos [simp]: "0 < pow10 e"
  by (simp add: pow10_powi)

lemma pow10_nat [simp]: "pow10 (int n) = 10 ^ n"
  by (simp add: pow10_powi)

lemma pow10_neg: "pow10 (- int n) = 1 / 10 ^ n"
  by (simp add: pow10_powi power_int_minus field_simps)

lemma pow10_succ: "pow10 (e + 1) = 10 * pow10 e"
  by (simp add: pow10_add) (simp add: pow10_def)

lemma pow10_diff: "pow10 (a - b) * pow10 b = pow10 a"
  by (simp flip: pow10_add)

section \<open>The exponent\<close>

lemma takeWhile_upt:
  assumes "k \<le> n" "\<forall>j < k. P j" "k < n \<longrightarrow> \<not> P k"
  shows "length (takeWhile P [0..<n]) = k"
proof -
  have "[0..<n] = [0..<k] @ [k..<n]" using assms(1) by (metis add.left_neutral le_add_diff_inverse upt_add_eq_append zero_le)
  moreover have "takeWhile P [k..<n] = []" using assms(1,3) by (cases "k < n") (simp_all add: upt_conv_Cons)
  ultimately show ?thesis using assms(2) by (simp add: takeWhile_append)
qed

lemma dec_exponent_unique:
  assumes "pow10 e \<le> x" "x < pow10 (e + 1)" "\<bar>e\<bar> < 400"
  shows "dec_exponent x = e"
proof (cases "0 \<le> e")
  case True
  then obtain n where n: "e = int n" by (metis nat_0_le)
  have x: "10 ^ n \<le> x" "x < 10 ^ (n + 1)" using assms(1,2) by (simp_all add: n pow10_succ)
  have "(1 :: real) \<le> 10 ^ n" by simp
  with x(1) have "1 \<le> x" by linarith
  moreover have "length (takeWhile (\<lambda>k. 10 ^ (k + 1) \<le> x) [0..<400]) = n"
  proof (rule takeWhile_upt)
    show "n \<le> 400" using assms(3) n by simp
    show "\<forall>j < n. 10 ^ (j + 1) \<le> x"
    proof (intro allI impI)
      fix j assume "j < n"
      then have "(10 :: real) ^ (j + 1) \<le> 10 ^ n" by (intro power_increasing) auto
      with x(1) show "10 ^ (j + 1) \<le> x" by linarith
    qed
    show "n < 400 \<longrightarrow> \<not> 10 ^ (n + 1) \<le> x" using x(2) by simp
  qed
  ultimately show ?thesis by (simp add: dec_exponent_def n)
next
  case False
  then obtain n where n: "e = - int n - 1" by (metis add_diff_cancel_right' minus_diff_eq nonneg_int_cases not_le zle_diff1_eq diff_ge_0_iff_ge le_minus_one_simps(1) uminus_add_conv_diff)
  have x: "1 \<le> x * 10 ^ (n + 1)" "x * 10 ^ n < 1"
  proof -
    have "pow10 e = 1 / 10 ^ (n + 1)" "pow10 (e + 1) = 1 / 10 ^ n"
      using pow10_neg [of n] pow10_succ [of e] by (simp_all add: n)
    then have "pow10 e * 10 ^ (n + 1) = 1" "pow10 (e + 1) * 10 ^ n = 1" by simp_all
    with assms(1,2) show "1 \<le> x * 10 ^ (n + 1)" "x * 10 ^ n < 1"
      using mult_right_mono [of "pow10 e" x "10 ^ (n + 1)"] mult_strict_right_mono [of x "pow10 (e + 1)" "10 ^ n"]
      by simp_all
  qed
  have pos: "0 < x" using assms(1) pow10_pos [of e] by linarith
  have one: "(1 :: real) \<le> 10 ^ n" by simp
  have "x < 1"
  proof (rule ccontr)
    assume "\<not> x < 1"
    with one have "1 * 1 \<le> x * 10 ^ n" by (intro mult_mono) auto
    with x(2) show False by simp
  qed
  moreover have "length (takeWhile (\<lambda>k. x * 10 ^ (k + 1) < 1) [0..<400]) = n"
  proof (rule takeWhile_upt)
    show "n \<le> 400" using assms(3) n by simp
    show "\<forall>j < n. x * 10 ^ (j + 1) < 1"
    proof (intro allI impI)
      fix j assume "j < n"
      then have "(10 :: real) ^ (j + 1) \<le> 10 ^ n" by (intro power_increasing) auto
      then have "x * 10 ^ (j + 1) \<le> x * 10 ^ n" using pos by simp
      with x(2) show "x * 10 ^ (j + 1) < 1" by linarith
    qed
    show "n < 400 \<longrightarrow> \<not> x * 10 ^ (n + 1) < 1" using x(1) by simp
  qed
  ultimately show ?thesis by (simp add: dec_exponent_def n)
qed

text \<open>Every number in the range of \<open>double\<close> has one.\<close>

lemma exponent_exists:
  assumes "0 < x"
  shows "\<exists>e. pow10 e \<le> x \<and> x < pow10 (e + 1)"
proof -
  let ?e = "\<lfloor>log 10 x\<rfloor>"
  have p: "pow10 e = 10 powr e" for e by (simp add: pow10_powi powr_real_of_int')
  have "10 powr ?e \<le> 10 powr log 10 x" by simp
  moreover have "10 powr log 10 x < 10 powr (?e + 1)" by (simp only: powr_less_cancel_iff) linarith
  ultimately show ?thesis using assms p [of ?e] p [of "?e + 1"] by (intro exI [of _ ?e]) simp
qed

definition double_range :: "real \<Rightarrow> bool" where
  "double_range x \<longleftrightarrow> pow10 (- 399) \<le> x \<and> x < pow10 399"

lemma pow10_mono: "pow10 a < pow10 b \<longleftrightarrow> a < b"
proof -
  have p: "pow10 e = 10 powr e" for e by (simp add: pow10_powi powr_real_of_int')
  show ?thesis by (simp add: p)
qed

lemma dec_exponent_laws:
  assumes "double_range x"
  shows "pow10 (dec_exponent x) \<le> x" "x < pow10 (dec_exponent x + 1)" "\<bar>dec_exponent x\<bar> < 400"
proof -
  have "0 < x" using assms pow10_pos [of "- 399"] unfolding double_range_def by linarith
  from exponent_exists [OF this] obtain e where e: "pow10 e \<le> x" "x < pow10 (e + 1)" by blast
  have "pow10 e < pow10 399" "pow10 (- 399) < pow10 (e + 1)" using e assms unfolding double_range_def by linarith+
  then have "\<bar>e\<bar> < 400" by (simp add: pow10_mono)
  with dec_exponent_unique [OF e] e show "pow10 (dec_exponent x) \<le> x" "x < pow10 (dec_exponent x + 1)"
    "\<bar>dec_exponent x\<bar> < 400" by simp_all
qed

section \<open>The six digits\<close>

lemma round_even_close: "0 \<le> y \<Longrightarrow> \<bar>real (round_even y) - y\<bar> \<le> 1 / 2"
proof -
  assume y: "0 \<le> y"
  define n where "n = nat \<lfloor>y\<rfloor>"
  have "real n \<le> y" "y < real n + 1" using y unfolding n_def by linarith+
  then show ?thesis unfolding round_even_def Let_def n_def [symmetric] by (auto simp: abs_if)
qed

lemma six_digits_laws:
  assumes "double_range x" "six_digits x = (d, e)"
  shows "100000 \<le> d" "d < 1000000" "\<bar>real d * pow10 (e - 5) - x\<bar> \<le> pow10 (dec_exponent x - 5) / 2"
    "dec_exponent x \<le> e" "e \<le> dec_exponent x + 1"
proof -
  let ?e = "dec_exponent x"
  let ?y = "x / pow10 (?e - 5)"
  note l = dec_exponent_laws [OF assms(1)]
  have p: "pow10 (?e - 5) * 100000 = pow10 ?e" "pow10 (?e - 5) * 1000000 = pow10 (?e + 1)"
    using pow10_add [of "?e - 5" 5] pow10_nat [of 5] by (simp_all add: pow10_succ)
  have y: "100000 \<le> ?y" "?y < 1000000"
    using l(1,2) p by (simp_all add: field_simps)
  have close: "\<bar>real (round_even ?y) - ?y\<bar> \<le> 1 / 2" using y(1) by (intro round_even_close) simp
  then have r: "100000 \<le> round_even ?y" "round_even ?y \<le> 1000000" using y by linarith+
  have "\<bar>real (round_even ?y) * pow10 (?e - 5) - x\<bar> = \<bar>real (round_even ?y) - ?y\<bar> * pow10 (?e - 5)"
  proof -
    have "real (round_even ?y) * pow10 (?e - 5) - x = (real (round_even ?y) - ?y) * pow10 (?e - 5)"
      using pow10_pos [of "?e - 5", THEN less_imp_neq] by (simp add: field_simps)
    then show ?thesis by (simp add: abs_mult abs_of_pos)
  qed
  also have "\<dots> \<le> 1 / 2 * pow10 (?e - 5)" using close by (intro mult_right_mono) (simp_all add: less_imp_le)
  finally have c: "\<bar>real (round_even ?y) * pow10 (?e - 5) - x\<bar> \<le> pow10 (?e - 5) / 2" by simp
  have carry: "real (100000 :: nat) * pow10 (?e + 1 - 5) = real (1000000 :: nat) * pow10 (?e - 5)"
    using pow10_add [of "?e - 5" 1] pow10_nat [of 1] by (simp add: algebra_simps)
  show "100000 \<le> d" "d < 1000000" "\<bar>real d * pow10 (e - 5) - x\<bar> \<le> pow10 (?e - 5) / 2" "?e \<le> e" "e \<le> ?e + 1"
    using assms(2) r c carry by (auto simp: six_digits_def Let_def split: if_splits)
qed

section \<open>Digits\<close>

lemma dec_nat_Nil [simp]: "dec_nat [] = 0"
  by (simp add: dec_nat_def)

lemma dec_nat_snoc: "dec_nat (s @ [c]) = 10 * dec_nat s + (case dec_value c of Some v \<Rightarrow> v | None \<Rightarrow> 0)"
  by (simp add: dec_nat_def)

lemma zero_digit [simp]: "dec_value (CHR 0x30) = Some 0" "is_dec (CHR 0x30)"
  by (simp_all add: dec_value_def is_dec_def)

lemma dec_nat_zeros: "dec_nat (s @ replicate n (CHR 0x30)) = dec_nat s * 10 ^ n"
proof (induction n)
  case (Suc n)
  have "s @ replicate (Suc n) (CHR 0x30) = (s @ replicate n (CHR 0x30)) @ [CHR 0x30]"
    by (simp add: replicate_append_same)
  with Suc show ?case by (simp only: dec_nat_snoc) simp
qed simp

lemma dec_nat_leading: "dec_nat (replicate n (CHR 0x30) @ s) = dec_nat s"
proof (induction s rule: rev_induct)
  case Nil
  then show ?case using dec_nat_zeros [of "[]" n] by simp
next
  case (snoc c s)
  then show ?case using dec_nat_snoc [of "replicate n (CHR 0x30) @ s" c] by (simp add: dec_nat_snoc)
qed

lemma dec_nat_string: "dec_nat (dec_string n) = n"
proof (induction n rule: dec_string.induct)
  case (1 n)
  show ?case
  proof (cases "n < 10")
    case True
    then show ?thesis using dec_nat_snoc [of "[]" "dec_digit n"] by (simp add: dec_string.simps [of n])
  next
    case False
    with 1 show ?thesis by (simp add: dec_string.simps [of n] dec_nat_snoc)
  qed
qed

lemma is_dec_string: "\<forall>c \<in> set (dec_string n). is_dec c"
proof (induction n rule: dec_string.induct)
  case (1 n)
  have "is_dec (dec_digit m)" if "m < 10" for m using that by (simp add: is_dec_def)
  with 1 show ?case by (cases "n < 10") (auto simp: dec_string.simps [of n])
qed

lemma length_dec_string: "10 ^ k \<le> n \<Longrightarrow> n < 10 ^ (k + 1) \<Longrightarrow> length (dec_string n) = k + 1"
proof (induction k arbitrary: n)
  case 0
  then show ?case by (simp add: dec_string.simps [of n])
next
  case (Suc k)
  then have "10 ^ k \<le> n div 10" "n div 10 < 10 ^ (k + 1)" by (simp_all add: less_mult_imp_div_less algebra_simps)
  note IH = Suc.IH [OF this]
  have "(1 :: nat) \<le> 10 ^ k" by simp
  with Suc.prems(1) have "\<not> n < 10" unfolding power_Suc by linarith
  with IH show ?case by (simp add: dec_string.simps [of n])
qed

section \<open>Reading decimals\<close>

text \<open>What \<open>%lf\<close> makes of digits, a point and more digits, and what follows them.\<close>

lemma takeWhile_digits:
  assumes "\<forall>c \<in> set w. is_dec c" "r = [] \<or> \<not> is_dec (hd r)"
  shows "takeWhile is_dec (w @ r) = w" "dropWhile is_dec (w @ r) = r"
  using assms by (cases r; simp add: takeWhile_append2 dropWhile_append2; fail)+

lemma not_digit: "\<not> is_dec (CHR 0x2E)" "\<not> is_dec (CHR 0x65)" "\<not> is_dec (CHR 0x2B)" "\<not> is_dec (CHR 0x2D)"
    "is_space c \<Longrightarrow> \<not> is_dec c"
  by (auto simp: is_dec_def dec_value_def is_space_def)

lemma scan_decimal:
  assumes w: "\<forall>c \<in> set w. is_dec c" "w \<noteq> []" and f: "\<forall>c \<in> set f. is_dec c" and ex: "ex = [] \<or> hd ex = CHR 0x65"
  shows "scan_double (w @ (if f = [] then [] else CHR 0x2E # f) @ ex) =
    Some (real (dec_nat (w @ f)) * pow10 (scan_exponent ex - int (length f)))"
proof -
  obtain c cs where c: "w = c # cs" "is_dec c" using w by (cases w) auto
  let ?r = "(if f = [] then [] else CHR 0x2E # f) @ ex"
  have "\<not> is_space c" "c \<noteq> CHR 0x2D" "c \<noteq> CHR 0x2B" using c(2) not_digit by metis+
  then have start: "scan_sign (dropWhile is_space (w @ ?r)) = (False, w @ ?r)"
    by (simp add: c(1) scan_sign_def)
  have "?r = [] \<or> \<not> is_dec (hd ?r)" using ex not_digit by auto
  note t = takeWhile_digits [OF w(1) this]
  have e: "ex = [] \<or> \<not> is_dec (hd ex)" "\<not> (\<exists>cs. ex = CHR 0x2E # cs)" using ex not_digit by auto
  note tf = takeWhile_digits [OF f e(1)]
  show ?thesis
  proof (cases "f = []")
    case True
    note t' = takeWhile_digits [OF w(1) e(1)]
    have st: "scan_sign (dropWhile is_space (w @ ex)) = (False, w @ ex)" using start True by simp
    have "scan_double (w @ ex) = Some (real (dec_nat w) * pow10 (scan_exponent ex))"
      unfolding scan_double_def st Let_def prod.case t' using w(2) e(2) by (cases ex) simp_all
    with True show ?thesis by simp
  next
    case False
    with t start w(2) tf show ?thesis by (simp add: scan_double_def Let_def)
  qed
qed

lemma strip_zeros_split: "\<exists>n. s = strip_zeros s @ replicate n (CHR 0x30)"
proof -
  let ?t = "takeWhile (\<lambda>c. c = CHR 0x30) (rev s)"
  have "\<forall>c \<in> set ?t. c = CHR 0x30" by (auto dest: set_takeWhileD)
  then have "replicate (length ?t) (CHR 0x30) = ?t" by (intro replicate_length_same) blast
  then have "rev ?t = replicate (length ?t) (CHR 0x30)" using rev_replicate by metis
  moreover have "s = strip_zeros s @ rev ?t" unfolding strip_zeros_def
    by (metis rev_append rev_rev_ident takeWhile_dropWhile_id)
  ultimately show ?thesis by metis
qed

lemma scan_with_point:
  assumes w: "\<forall>c \<in> set w. is_dec c" "w \<noteq> []" and f: "\<forall>c \<in> set f. is_dec c" and ex: "ex = [] \<or> hd ex = CHR 0x65"
  shows "scan_double (w @ with_point f @ ex) =
    Some (real (dec_nat (w @ f)) * pow10 (scan_exponent ex - int (length f)))"
proof -
  obtain n where n: "f = strip_zeros f @ replicate n (CHR 0x30)" using strip_zeros_split by blast
  let ?s = "strip_zeros f" and ?k = "scan_exponent ex"
  have s: "\<forall>c \<in> set ?s. is_dec c" using f by (subst (asm) n) auto
  have "dec_nat (w @ f) = dec_nat (w @ ?s) * 10 ^ n" using dec_nat_zeros [of "w @ ?s" n] n by simp
  moreover have "pow10 (?k - int (length ?s)) = pow10 (?k - int (length f)) * 10 ^ n"
  proof -
    have "?k - int (length ?s) = (?k - int (length f)) + int n" using arg_cong [OF n, of length] by simp
    then show ?thesis by (simp only: pow10_add pow10_nat)
  qed
  ultimately have v: "real (dec_nat (w @ ?s)) * pow10 (?k - int (length ?s)) =
      real (dec_nat (w @ f)) * pow10 (?k - int (length f))" by simp
  have "with_point f = (if ?s = [] then [] else CHR 0x2E # ?s)" by (simp add: with_point_def Let_def)
  with scan_decimal [OF w s ex] v show ?thesis by simp
qed

section \<open>Reading back what was written\<close>

lemma scan_exponent_text:
  "scan_exponent (''e'' @ (if e < 0 then ''-'' else ''+'') @ (if nat \<bar>e\<bar> < 10 then ''0'' else []) @ dec_string (nat \<bar>e\<bar>)) = e"
proof -
  let ?r = "(if nat \<bar>e\<bar> < 10 then ''0'' else []) @ dec_string (nat \<bar>e\<bar>)"
  have "\<forall>c \<in> set ?r. is_dec c" using is_dec_string by auto
  then have t: "takeWhile is_dec ?r = ?r" by (simp only: takeWhile_eq_all_conv)
  have "dec_nat (''0'' @ dec_string n) = n" for n
    using dec_nat_leading [of 1 "dec_string n"] by (simp add: dec_nat_string)
  then have v: "dec_nat ?r = nat \<bar>e\<bar>" by (simp add: dec_nat_string)
  show ?thesis
  proof (cases "e < 0")
    case True
    then have "scan_exponent (''e'' @ ''-'' @ ?r) = - int (dec_nat (takeWhile is_dec ?r))"
      by (simp add: scan_exponent_def scan_sign_def)
    then show ?thesis using True by (simp only: t v) simp
  next
    case False
    then have "scan_exponent (''e'' @ ''+'' @ ?r) = int (dec_nat (takeWhile is_dec ?r))"
      by (simp add: scan_exponent_def scan_sign_def)
    then show ?thesis using False by (simp only: t v) simp
  qed
qed

lemma scan_show_positive:
  assumes "double_range x" "six_digits x = (d, e)"
  shows "scan_double (show_positive x) = Some (real d * pow10 (e - 5))"
proof -
  let ?ds = "dec_string d"
  note six = six_digits_laws [OF assms]
  have len: "length ?ds = 6" using length_dec_string [of 5 d] six(1,2) by simp
  have dig: "\<forall>c \<in> set ?ds. is_dec c" by (rule is_dec_string)
  then have sub: "\<forall>c \<in> set (take n ?ds). is_dec c" "\<forall>c \<in> set (drop n ?ds). is_dec c" for n
    by (auto dest: in_set_takeD in_set_dropD)
  have noexp: "scan_exponent [] = 0" by (simp add: scan_exponent_def)
  consider (scientific) "e < - 4 \<or> e \<ge> 6" | (small) "e < 0" "- 4 \<le> e" | (plain) "0 \<le> e" "e < 6" by linarith
  then show ?thesis
  proof cases
    case scientific
    let ?ex = "''e'' @ (if e < 0 then ''-'' else ''+'') @ (if nat \<bar>e\<bar> < 10 then ''0'' else []) @ dec_string (nat \<bar>e\<bar>)"
    have "show_positive x = take 1 ?ds @ with_point (drop 1 ?ds) @ ?ex"
      unfolding show_positive_def assms(2) Let_def prod.case using scientific by (simp only: if_True)
    moreover have "take 1 ?ds \<noteq> []" using len by auto
    ultimately have "scan_double (show_positive x) =
        Some (real (dec_nat (take 1 ?ds @ drop 1 ?ds)) * pow10 (scan_exponent ?ex - int (length (drop 1 ?ds))))"
      using scan_with_point [OF sub(1) _ sub(2), of 1 ?ex 1] by simp
    then show ?thesis by (simp only: append_take_drop_id dec_nat_string scan_exponent_text) (simp add: len)
  next
    case small
    let ?f = "replicate (nat (- e - 1)) (CHR 0x30) @ ?ds"
    have "show_positive x = ''0'' @ with_point ?f @ []"
      unfolding show_positive_def assms(2) Let_def prod.case using small by simp
    moreover have "\<forall>c \<in> set ?f. is_dec c" using dig by auto
    moreover have "dec_nat (''0'' @ ?f) = d"
      using dec_nat_leading [of "Suc (nat (- e - 1))" ?ds] by (simp add: dec_nat_string)
    moreover have "- int (length ?f) = e - 5" using small len by simp
    ultimately show ?thesis using scan_with_point [of "''0''" ?f "[]"] noexp by simp
  next
    case plain
    let ?n = "nat e + 1"
    have "show_positive x = take ?n ?ds @ with_point (drop ?n ?ds) @ []"
      unfolding show_positive_def assms(2) Let_def prod.case using plain by simp
    moreover have "take ?n ?ds \<noteq> []" using len by auto
    moreover have "dec_nat (take ?n ?ds @ drop ?n ?ds) = d" by (simp only: append_take_drop_id dec_nat_string)
    moreover have "- int (length (drop ?n ?ds)) = e - 5" using plain len by simp
    ultimately show ?thesis using scan_with_point [OF sub(1) _ sub(2), of ?n "[]" ?n] noexp by simp
  qed
qed

lemma show_double_close:
  assumes "double_range x"
  shows "\<exists>y. scan_double (show_double x) = Some y \<and> \<bar>y - x\<bar> \<le> x / 200000"
proof -
  obtain d e where d: "six_digits x = (d, e)" by (cases "six_digits x")
  have "0 < x" using assms pow10_pos [of "- 399"] unfolding double_range_def by linarith
  then have "show_double x = show_positive x" by (simp add: show_double_def)
  moreover have "pow10 (dec_exponent x - 5) * 100000 = pow10 (dec_exponent x)"
    using pow10_diff [of "dec_exponent x" 5] pow10_nat [of 5] by simp
  then have "\<bar>real d * pow10 (e - 5) - x\<bar> \<le> x / 200000"
    using six_digits_laws(3) [OF assms d] dec_exponent_laws(1) [OF assms] by linarith
  ultimately show ?thesis using scan_show_positive [OF assms d] by simp
qed

text \<open>C32: a client that reads the time at which an address was last seen, as the daemon sends it, has it with a
  relative error of at most five millionths, whatever the time is.\<close>

theorem last_seen_accuracy:
  assumes "mac_value nw e = Inr v" "double_range (me_dLastSeen e)"
  shows "\<exists>w y. sub_value ''last-seen'' v = Some w \<and> scan_double (content w) = Some y \<and>
    \<bar>y - me_dLastSeen e\<bar> \<le> me_dLastSeen e / 200000"
proof -
  from assms(1) have "sub_value ''last-seen'' v = Some (Value ''last-seen'' (show_double (me_dLastSeen e)) [])"
    by (auto simp: mac_value_def bind_r_Inr_iff sub_value_def)
  with show_double_close [OF assms(2)] show ?thesis by simp
qed

definition seen_at :: "time \<Rightarrow> macentity" where
  "seen_at t = \<lparr>me_strMAC = ''02:00:00:00:00:01'', me_strDeviceName = ''eth0'', me_strHostName = [], me_strIP = [],
     me_dFirstSeen = 17, me_dLastSeen = t, me_dLastUpdate = 0\<rparr>"

theorem last_seen_accuracy_witness:
  "\<exists>v w y. mac_value sample_net (seen_at 1234567) = Inr v \<and> sub_value ''last-seen'' v = Some w \<and>
     scan_double (content w) = Some y \<and> \<bar>y - 1234567\<bar> \<le> 1234567 / 200000"
proof -
  obtain vendor where "network_vendorForMAC ''02:00:00:00:00:01'' sample_net = Inr vendor"
    using vendor_total [of "''02:00:00:00:00:01''" sample_net] by auto
  then obtain v where v: "mac_value sample_net (seen_at 1234567) = Inr v" by (simp add: mac_value_def seen_at_def)
  have "pow10 (- 399) \<le> 1" by (simp add: pow10_def)
  moreover have "(1234567 :: real) < 10 ^ 7" "(10 :: real) ^ 7 \<le> 10 ^ 399"
    by simp (intro power_increasing, simp_all)
  then have "(1234567 :: real) < pow10 399" using pow10_nat [of 399] by simp
  ultimately have "double_range (me_dLastSeen (seen_at 1234567))" by (simp add: double_range_def seen_at_def)
  from last_seen_accuracy [OF v this] v show ?thesis by (auto simp: seen_at_def)
qed

section \<open>Times that are written as one text\<close>

lemma six_digits_million:
  assumes "100000 < n" "n < 1000000" "\<bar>t - 10 * real n\<bar> < 5"
  shows "six_digits t = (n, 6)"
proof -
  have n: "100001 \<le> real n" "real n \<le> 999999" using assms(1,2) by linarith+
  then have t: "1000000 \<le> t" "t < 10000000" using assms(3) by linarith+
  have "dec_exponent t = 6" using t by (rule dec_exponent_million)
  moreover have "round_even (t / 10) = n"
  proof -
    have "\<bar>t / 10 - real n\<bar> < 1 / 2" using assms(3) by linarith
    moreover from this have "\<lfloor>t / 10\<rfloor> = int n \<or> \<lfloor>t / 10\<rfloor> = int n - 1" by linarith
    ultimately show ?thesis using n by (auto simp: round_even_def Let_def nat_diff_distrib)
  qed
  moreover have "pow10 1 = 10" by (simp add: pow10_def)
  ultimately show ?thesis using assms(2) by (simp add: six_digits_def)
qed



end
