(* ===== verification/Client.thy ===== *)
theory Client
  imports Daemon_Props
begin

text \<open>
  \<open>client/src/Client.cpp\<close>, \<open>client/src/MDClient.cpp\<close> and \<open>utils/src/DiscoveryClient.cpp\<close>: the side that
  talks to the daemon. The client is a \<open>PacketEntity\<close> whose descriptor is -1 when it is not connected;
  descriptors that were closed are recorded.
\<close>

section \<open>The connection\<close>

record client =
  cl_entity :: pentity
  cl_closed :: "int list"

definition new_client :: client where
  "new_client = \<lparr>cl_entity = new_pentity (- 1), cl_closed = []\<rparr>"

definition client_connected :: "client \<Rightarrow> bool" where
  "client_connected cl \<longleftrightarrow> m_nSocketFD (cl_entity cl) \<noteq> - 1"

definition client_disconnect :: "client \<Rightarrow> bool \<times> client" where
  "client_disconnect cl =
     (if client_connected cl then
        (True, cl\<lparr>cl_closed := cl_closed cl @ [m_nSocketFD (cl_entity cl)],
                  cl_entity := (cl_entity cl)\<lparr>m_nSocketFD := - 1\<rparr>\<rparr>)
      else (False, cl))"

text \<open>
  \<open>connect\<close>, with the descriptor of the new socket and whether the system connects it to address and port.
  The descriptor is kept also when it could not be connected.
\<close>

definition client_connect :: "int \<Rightarrow> (string \<Rightarrow> u16 \<Rightarrow> bool) \<Rightarrow> string \<Rightarrow> u16 \<Rightarrow> client \<Rightarrow> bool \<times> client" where
  "client_connect fd connects strIP port cl =
     (let cl = (if client_connected cl then snd (client_disconnect cl) else cl);
          cl = cl\<lparr>cl_entity := (cl_entity cl)\<lparr>m_nSocketFD := fd\<rparr>\<rparr>
      in if fd \<noteq> - 1 \<and> connects strIP port then (True, cl) else (False, cl))"

section \<open>Finding servers\<close>

record discovery_client =
  dc_entity :: pentity
  dc_detected :: "(string \<times> string) list"
  dc_out :: "val list"

definition new_discovery_client :: "int \<Rightarrow> discovery_client" where
  "new_discovery_client fd = \<lparr>dc_entity = new_pentity fd, dc_detected = [], dc_out = []\<rparr>"

definition client_process :: "val \<Rightarrow> string \<Rightarrow> discovery_client \<Rightarrow> discovery_client" where
  "client_process v strSenderIP dc =
     (if key v = ''response'' \<and> content v = ''server-info'' then
        case sub_value ''server-name'' v of
          None \<Rightarrow> dc
        | Some s \<Rightarrow> dc\<lparr>dc_detected := dc_detected dc @ [(content s, strSenderIP)]\<rparr>
      else dc)"

definition detect_servers :: "discovery_client \<Rightarrow> discovery_client" where
  "detect_servers dc = dc\<lparr>dc_out := dc_out dc @ [Value ''request'' ''server-info'' []]\<rparr>"

definition detected_servers :: "discovery_client \<Rightarrow> (string \<times> string) list \<times> discovery_client" where
  "detected_servers dc = (dc_detected dc, dc\<lparr>dc_detected := []\<rparr>)"

text \<open>\<open>DiscoveryNode::cycle\<close> for a client; \<open>sender\<close> is the address the datagram came from.\<close>

definition client_discovery_cycle ::
  "bool \<Rightarrow> (nat \<Rightarrow> recv_res) \<Rightarrow> (nat \<Rightarrow> byte list) \<Rightarrow> string \<Rightarrow> discovery_client \<Rightarrow> discovery_client result" where
  "client_discovery_cycle stale recv junk sender dc =
     bind_r (receive (multicast_recv stale recv) junk False (dc_entity dc)) (\<lambda>(v, bDisconnected, pe, _).
       let dc = dc\<lparr>dc_entity := pe\<rparr> in
       case v of
         None \<Rightarrow> Inr dc
       | Some v \<Rightarrow> Inr (if \<not> bDisconnected then client_process v sender dc else dc))"

section \<open>The client\<close>

record mdclient =
  md_client :: client
  md_discovery :: discovery_client

text \<open>
  \<open>receive\<close>: the \<open>n\<close>-th call of the inner \<open>receive\<close> finds the socket in the state \<open>recvs n\<close>. The value is
  \<open>None\<close> when a blocking call never returns.
\<close>

partial_function (option) receive_loop ::
  "(nat \<Rightarrow> nat \<Rightarrow> recv_res) \<Rightarrow> (nat \<Rightarrow> byte list) \<Rightarrow> bool \<Rightarrow> nat \<Rightarrow> pentity \<Rightarrow>
     (val option \<times> bool \<times> pentity) result option" where
  "receive_loop recvs junk bBlock n pe =
     (case receive (recvs n) junk False pe of
        Inl e \<Rightarrow> Some (Inl e)
      | Inr (v, bDisconnected, pe, _) \<Rightarrow>
          if bDisconnected then Some (Inr (v, True, pe))
          else if v \<noteq> None then Some (Inr (v, False, pe))
          else if \<not> bBlock then Some (Inr (None, False, pe))
          else receive_loop recvs junk bBlock (Suc n) pe)"

definition md_receive ::
  "(nat \<Rightarrow> nat \<Rightarrow> recv_res) \<Rightarrow> (nat \<Rightarrow> byte list) \<Rightarrow> bool \<Rightarrow> mdclient \<Rightarrow>
     (val option \<times> bool \<times> mdclient) result option" where
  "md_receive recvs junk bBlock md =
     map_option (map_sum id (\<lambda>(v, b, pe). (v, b, md\<lparr>md_client := (md_client md)\<lparr>cl_entity := pe\<rparr>\<rparr>)))
       (receive_loop recvs junk bBlock 0 (cl_entity (md_client md)))"

definition md_connect :: "int \<Rightarrow> (string \<Rightarrow> u16 \<Rightarrow> bool) \<Rightarrow> string \<Rightarrow> mdclient \<Rightarrow> bool \<times> mdclient" where
  "md_connect fd connects strIP md =
     (let (b, cl) = client_connect fd connects strIP 7090 (md_client md) in (b, md\<lparr>md_client := cl\<rparr>))"

definition md_connected :: "mdclient \<Rightarrow> bool" where
  "md_connected md = client_connected (md_client md)"

definition md_disconnect :: "mdclient \<Rightarrow> bool \<times> mdclient" where
  "md_disconnect md = (let (b, cl) = client_disconnect (md_client md) in (b, md\<lparr>md_client := cl\<rparr>))"

text \<open>The requests, and \<open>send\<close>: its result and the bytes the kernel took.\<close>

definition devices_request :: val where
  "devices_request = make_value ''request'' ''devices-list'' []"

definition macs_request :: val where
  "macs_request = make_value ''request'' ''known-mac-addresses'' []"

definition stream_request :: "string \<Rightarrow> string \<Rightarrow> val" where
  "stream_request what strDevice =
     add_sub (make_value ''device-name'' strDevice []) (make_value ''request'' what [])"

definition requestDeviceNames :: "(nat \<Rightarrow> nat \<Rightarrow> int) \<Rightarrow> (bool \<times> byte list) result" where
  "requestDeviceNames wr = send_packet wr devices_request"

definition requestKnownMACAddresses :: "(nat \<Rightarrow> nat \<Rightarrow> int) \<Rightarrow> (bool \<times> byte list) result" where
  "requestKnownMACAddresses wr = send_packet wr macs_request"

definition requestEnableStream :: "(nat \<Rightarrow> nat \<Rightarrow> int) \<Rightarrow> string \<Rightarrow> (bool \<times> byte list) result" where
  "requestEnableStream wr d = send_packet wr (stream_request ''enable-stream'' d)"

definition requestDisableStream :: "(nat \<Rightarrow> nat \<Rightarrow> int) \<Rightarrow> string \<Rightarrow> (bool \<times> byte list) result" where
  "requestDisableStream wr d = send_packet wr (stream_request ''disable-stream'' d)"

definition md_detectServers :: "mdclient \<Rightarrow> mdclient" where
  "md_detectServers md = md\<lparr>md_discovery := detect_servers (md_discovery md)\<rparr>"

definition md_cycle ::
  "bool \<Rightarrow> (nat \<Rightarrow> recv_res) \<Rightarrow> (nat \<Rightarrow> byte list) \<Rightarrow> string \<Rightarrow> mdclient \<Rightarrow> mdclient result" where
  "md_cycle stale recv junk sender md =
     bind_r (client_discovery_cycle stale recv junk sender (md_discovery md)) (\<lambda>dc.
       Inr (md\<lparr>md_discovery := dc\<rparr>))"

definition md_detectedServers :: "mdclient \<Rightarrow> (string \<times> string) list \<times> mdclient" where
  "md_detectedServers md =
     (let (l, dc) = detected_servers (md_discovery md) in (l, md\<lparr>md_discovery := dc\<rparr>))"

section \<open>Properties\<close>

text \<open>After a connection attempt that failed, \<open>connect\<close> returned false but the client counts as connected:
  the socket that could not be connected is kept.\<close>

theorem failed_connect_counts:
  assumes "fd \<noteq> - 1" "\<not> connects ip port"
  shows "fst (client_connect fd connects ip port cl) = False \<and>
    client_connected (snd (client_connect fd connects ip port cl))"
  using assms by (simp add: client_connect_def client_connected_def client_disconnect_def Let_def)

theorem failed_connect_counts_witness:
  "client_connected (snd (client_connect 7 (\<lambda>ip p. ip = ''10.0.0.1'') ''10.0.0.2'' 7090 new_client))"
  using failed_connect_counts [of 7 "\<lambda>ip p. ip = ''10.0.0.1''" "''10.0.0.2''" 7090 new_client] by simp

text \<open>What a call finds on an idle socket.\<close>

lemma receive_idle: "\<forall>n. recv n = RecvError True \<Longrightarrow> receive recv junk False pe = Inr (None, False, pe, 0)"
  by (simp add: receive_def peek_loop.simps [of _ 0] int_max_def Let_def)

lemma receive_loop_waits:
  assumes "\<forall>i < k. \<forall>n. recvs (j + i) n = RecvError True"
    and "receive (recvs (j + k)) junk False pe = Inr (Some v, False, pe', u)"
  shows "receive_loop recvs junk True j pe = Some (Inr (Some v, False, pe'))"
  using assms
proof (induction k arbitrary: j)
  case 0
  then show ?case by (subst receive_loop.simps) simp
next
  case (Suc k)
  from Suc.prems(1) have "\<forall>n. recvs j n = RecvError True" by (metis add_0_right zero_less_Suc)
  then have idle: "receive (recvs j) junk False pe = Inr (None, False, pe, 0)" by (rule receive_idle)
  have "\<forall>i < k. \<forall>n. recvs (Suc j + i) n = RecvError True"
    using Suc.prems(1) by (metis Suc_less_eq add_Suc_right add_Suc)
  with Suc.IH [of "Suc j"] Suc.prems(2) have
    "receive_loop recvs junk True (Suc j) pe = Some (Inr (Some v, False, pe'))" by simp
  with idle show ?case by (subst receive_loop.simps) simp
qed

text \<open>A blocking \<open>receive\<close> waits, however long, and returns the first packet that is on the socket; without
  blocking it returns at once, with nothing when there is nothing.\<close>

theorem receive_blocks:
  assumes "\<forall>i < k. \<forall>n. recvs i n = RecvError True"
    and "tcp_queue (encode v @ q) (recvs k)" "value_ok v" "length (encode v @ q) + 2048 \<le> int_max" "heap_block junk"
  shows "md_receive recvs junk True md = Some (Inr (Some v, False, md)) \<and>
    (0 < k \<longrightarrow> md_receive recvs junk False md = Some (Inr (None, False, md)))"
proof -
  let ?pe = "cl_entity (md_client md)"
  have r: "receive (recvs (0 + k)) junk False ?pe = Inr (Some v, False, ?pe, wire_size v)"
    using receive_front [OF assms(2-5)] by simp
  have "receive_loop recvs junk True 0 ?pe = Some (Inr (Some v, False, ?pe))"
    using receive_loop_waits [of k recvs 0 junk ?pe v ?pe "wire_size v"] assms(1) r by simp
  moreover have "receive_loop recvs junk False 0 ?pe = Some (Inr (None, False, ?pe))" if "0 < k"
    using receive_idle [of "recvs 0" junk ?pe] assms(1) that by (subst receive_loop.simps) simp
  ultimately show ?thesis by (simp add: md_receive_def)
qed

theorem receive_blocks_witness:
  "md_receive (\<lambda>i. if i < 2 then (\<lambda>n. RecvError True) else queue_peek (encode (Value ''info'' ''hello'' [])))
     (\<lambda>n. replicate n 0) True \<lparr>md_client = new_client, md_discovery = new_discovery_client 9\<rparr> =
   Some (Inr (Some (Value ''info'' ''hello'' []), False,
     \<lparr>md_client = new_client, md_discovery = new_discovery_client 9\<rparr>))"
proof -
  let ?v = "Value ''info'' ''hello'' []"
  let ?recvs = "\<lambda>i :: nat. if i < 2 then (\<lambda>n. RecvError True) else queue_peek (encode ?v)"
  have v: "value_ok ?v" "length (encode ?v @ []) + 2048 \<le> int_max" by (simp_all add: string_ok_def int_max_def)
  have h: "heap_block (\<lambda>n. replicate n 0)" by (simp add: heap_block_def)
  have q: "tcp_queue (encode ?v @ []) (?recvs 2)" using tcp_queue_peek by simp
  have i: "\<forall>i < (2 :: nat). \<forall>n. ?recvs i n = RecvError True" by simp
  from receive_blocks [OF i q v h] show ?thesis by (simp del: encode.simps)
qed

section \<open>A request and its answer\<close>

text \<open>Something the client asks.\<close>

definition is_request :: "val \<Rightarrow> bool" where
  "is_request v \<longleftrightarrow> v = devices_request \<or> v = macs_request \<or>
     (\<exists>d. v = stream_request ''enable-stream'' d \<or> v = stream_request ''disable-stream'' d)"

lemma is_request_key: "is_request v \<Longrightarrow> key v = ''request''"
  by (auto simp: is_request_def devices_request_def macs_request_def stream_request_def make_value_eq add_sub_def)

lemma request_answering:
  assumes "send_packet wr v = Inr (True, bs)" "is_request v" "wire_size v + 2048 \<le> int_max"
    "tcp_queue bs recv" "heap_block junk" "net_inv (dm_network dm)" "env_ok env"
  shows "receive recv junk b pe = Inr (Some v, b, pe, length bs)"
    "\<exists>dm' w. handle_request env \<lparr>qv_value = v, qv_served = p, qv_servingID = i\<rparr> dm = Inr dm' \<and>
      sv_out (dm_server dm') = sv_out (dm_server dm) @ [(p, Value ''response'' (content v) [w])]"
proof -
  from assms(1,3) have bs: "bs = encode v"
    by (auto simp: send_packet_def send_buffer_eq Let_def)
  have "value_ok v" using assms(3) by (intro value_ok_size) (simp add: int_max_def)
  with receive_front [of v "[]" recv junk b pe] assms(3-5) bs
  show "receive recv junk b pe = Inr (Some v, b, pe, length bs)" by (simp add: length_encode)
  let ?q = "\<lparr>qv_value = v, qv_served = p, qv_servingID = i\<rparr>"
  from handle_request_total [OF assms(6), of ?q env] is_request_key [OF assms(2)] obtain dm' where
    h: "handle_request env ?q dm = Inr dm'" by auto
  from handle_request_Inr [OF h] obtain here w dm1 where
      a: "answer env p here v dm = Inr (w, dm1)" "dm' = post_to p (Value ''response'' (content v) [w]) dm1"
    by auto
  with h answer_laws(1) [OF assms(7) a(1)]
  show "\<exists>dm' w. handle_request env ?q dm = Inr dm' \<and>
      sv_out (dm_server dm') = sv_out (dm_server dm) @ [(p, Value ''response'' (content v) [w])]"
    by (intro exI [of _ dm'] exI [of _ w]) simp
qed

text \<open>C12: each of the client's requests, once \<open>send\<close> reports it as sent, is received by the server as the same
  tree, is understood by the daemon without a fault, and is answered with one response packet that
  names the request.\<close>

theorem request_answered:
  assumes "requestDeviceNames wr = Inr (True, bs) \<and> v = devices_request \<or>
      requestKnownMACAddresses wr = Inr (True, bs) \<and> v = macs_request \<or>
      requestEnableStream wr d = Inr (True, bs) \<and> v = stream_request ''enable-stream'' d \<or>
      requestDisableStream wr d = Inr (True, bs) \<and> v = stream_request ''disable-stream'' d"
    and "wire_size v + 2048 \<le> int_max" "tcp_queue bs recv" "heap_block junk"
    and "net_inv (dm_network dm)" "env_ok env"
  shows "receive recv junk b pe = Inr (Some v, b, pe, length bs) \<and>
    (\<exists>dm' w. handle_request env \<lparr>qv_value = v, qv_served = p, qv_servingID = i\<rparr> dm = Inr dm' \<and>
      sv_out (dm_server dm') = sv_out (dm_server dm) @ [(p, Value ''response'' (content v) [w])])"
proof -
  have s: "send_packet wr v = Inr (True, bs)" "is_request v"
    using assms(1)
    by (auto simp: requestDeviceNames_def requestKnownMACAddresses_def requestEnableStream_def
        requestDisableStream_def is_request_def)
  show ?thesis using request_answering [OF s assms(2-6)] by blast
qed

theorem request_answered_witness:
  "\<exists>bs dm' w. requestEnableStream (\<lambda>n l. int (min l 10)) ''eth0'' = Inr (True, bs) \<and>
     handle_request sample_env \<lparr>qv_value = stream_request ''enable-stream'' ''eth0'', qv_served = 0, qv_servingID = 0\<rparr>
       sample_daemon = Inr dm' \<and> sv_out (dm_server dm') = [(0, Value ''response'' ''enable-stream'' [w])]"
proof -
  let ?v = "stream_request ''enable-stream'' ''eth0''"
  have 1: "wire_size ?v + 2048 \<le> int_max"
    by (simp add: stream_request_def make_value_eq add_sub_def int_max_def)
  have 2: "requestEnableStream (\<lambda>n l. int (min l 10)) ''eth0'' = Inr (True, encode ?v)"
    unfolding requestEnableStream_def by (rule send_complete [OF 1]) (auto simp: tcp_write_def)
  have 3: "heap_block (\<lambda>n. replicate n 0)" by (simp add: heap_block_def)
  have 4: "net_inv (dm_network sample_daemon)" "sv_out (dm_server sample_daemon) = []"
      "content ?v = ''enable-stream''"
    by (simp_all add: sample_daemon_def sample_server_def new_server_def stream_request_def make_value_eq add_sub_def)
  have d: "requestDeviceNames (\<lambda>n l. int (min l 10)) = Inr (True, encode ?v) \<and> ?v = devices_request \<or>
      requestKnownMACAddresses (\<lambda>n l. int (min l 10)) = Inr (True, encode ?v) \<and> ?v = macs_request \<or>
      requestEnableStream (\<lambda>n l. int (min l 10)) ''eth0'' = Inr (True, encode ?v) \<and>
        ?v = stream_request ''enable-stream'' ''eth0'' \<or>
      requestDisableStream (\<lambda>n l. int (min l 10)) ''eth0'' = Inr (True, encode ?v) \<and>
        ?v = stream_request ''disable-stream'' ''eth0''"
    using 2 by blast
  from request_answered [OF d 1 tcp_queue_peek 3 4(1) sample_env_ok, of False "new_pentity 5" 0 0] 2 4(2,3)
  show ?thesis by auto
qed

section \<open>Finding a server\<close>



end
