(* ===== verification/Python.thy ===== *)
theory Python
  imports Client "HOL-Library.AList"
begin

text \<open>
  \<open>pymacdetect/src/PyMACDetect.cpp\<close>: the extension module that gives Python programs a client. It turns
  the trees of the protocol into dictionaries and back, hands out pointers to clients as opaque
  objects, and reports errors as the exceptions it registers when it is loaded.

  A Python object is a tree of the datatype \<open>pyobj\<close> (a dictionary that contains itself, on which the
  conversion would recurse forever, is not represented, nor are unicode strings and numbers). The
  operations on dictionaries and lists do what the Python documentation says, a null pointer being
  \<open>None\<close>: a dictionary answers a missing key with a null pointer, and a null pointer in the place of an
  object or of a C string is the fault \<open>NullDeref\<close>. The order in which a dictionary lists its keys is
  left open by Python; it is the parameter \<open>keys_of\<close>, which permutes the keys in the order of their
  insertion. Lengths are below \<open>2 ^ 31\<close>, so that they survive the conversion to \<open>int\<close>.
\<close>

section \<open>Python objects\<close>

datatype pyobj =
    PyNone
  | PyBool bool
  | PyStr string
  | PyDict "(pyobj \<times> pyobj) list"
  | PyList "pyobj list"
  | PyClient nat

definition PyDict_GetItemString :: "pyobj option \<Rightarrow> string \<Rightarrow> pyobj option result" where
  "PyDict_GetItemString d k =
     (case d of
        None \<Rightarrow> Inl NullDeref
      | Some (PyDict kvs) \<Rightarrow> Inr (map_of kvs (PyStr (c_str k)))
      | Some _ \<Rightarrow> Inr None)"

definition PyDict_SetItemString :: "pyobj \<Rightarrow> string \<Rightarrow> pyobj option \<Rightarrow> pyobj result" where
  "PyDict_SetItemString d k item =
     (case item of
        None \<Rightarrow> Inl NullDeref
      | Some v \<Rightarrow>
          Inr (case d of PyDict kvs \<Rightarrow> PyDict (AList.update (PyStr (c_str k)) v kvs) | _ \<Rightarrow> d))"

definition PyDict_Keys :: "(pyobj list \<Rightarrow> pyobj list) \<Rightarrow> pyobj \<Rightarrow> pyobj list option" where
  "PyDict_Keys keys_of d = (case d of PyDict kvs \<Rightarrow> Some (keys_of (map fst kvs)) | _ \<Rightarrow> None)"

definition PyList_GetItem :: "pyobj list option \<Rightarrow> nat \<Rightarrow> pyobj option result" where
  "PyList_GetItem l n =
     (case l of None \<Rightarrow> Inl NullDeref | Some xs \<Rightarrow> Inr (if n < length xs then Some (xs ! n) else None))"

definition PyList_Size :: "pyobj list option \<Rightarrow> nat result" where
  "PyList_Size l = (case l of None \<Rightarrow> Inl NullDeref | Some xs \<Rightarrow> Inr (length xs))"

text \<open>\<open>PyString_AsString\<close>, whose result becomes a \<open>std::string\<close>.\<close>

definition PyString_AsString :: "pyobj option \<Rightarrow> string result" where
  "PyString_AsString s = (case s of Some (PyStr s) \<Rightarrow> Inr (c_str s) | _ \<Rightarrow> Inl NullDeref)"

definition dict_keys_ok :: "(pyobj list \<Rightarrow> pyobj list) \<Rightarrow> bool" where
  "dict_keys_ok keys_of \<longleftrightarrow> 
     (\<forall>ks. distinct ks \<longrightarrow> distinct (keys_of ks) \<and> set (keys_of ks) = set ks)"

section \<open>Trees and dictionaries\<close>

lemma fold_r_cong [fundef_cong]:
  assumes "xs = ys" "s = t" and "\<And>x s. x \<in> set ys \<Longrightarrow> f x s = g x s"
  shows "fold_r f xs s = fold_r g ys t"
proof -
  have "(\<And>x s. x \<in> set ys \<Longrightarrow> f x s = g x s) \<Longrightarrow> fold_r f ys t = fold_r g ys t"
    by (induction ys arbitrary: t) (auto intro: bind_r_cong)
  with assms show ?thesis by simp
qed

fun valueToPyObject :: "val \<Rightarrow> pyobj result" where
  "valueToPyObject (Value k c vs) =
     bind_r (PyDict_SetItemString (PyDict []) ''content'' (Some (PyStr c))) (\<lambda>pyoContent.
     bind_r
       (if length vs > 0 then
          bind_r (fold_r (\<lambda>valSub pyoSubs.
                    bind_r (valueToPyObject valSub) (\<lambda>pyoSub.
                    bind_r (PyDict_GetItemString (Some pyoSub) (key valSub)) (\<lambda>item.
                      PyDict_SetItemString pyoSubs (key valSub) item))) vs (PyDict []))
            (\<lambda>pyoSubs. PyDict_SetItemString pyoContent ''subs'' (Some pyoSubs))
        else Inr pyoContent) (\<lambda>pyoContent.
     PyDict_SetItemString (PyDict []) k (Some pyoContent)))"

lemma map_of_Some_size: "map_of kvs k = Some v \<Longrightarrow> size v < size_list (size_prod size size) kvs"
  by (induction kvs) (auto split: if_splits)

function pyObjectToValue :: "(pyobj list \<Rightarrow> pyobj list) \<Rightarrow> pyobj \<Rightarrow> val result" where
  "pyObjectToValue keys_of pyoObject =
     bind_r (PyList_GetItem (PyDict_Keys keys_of pyoObject) 0) (\<lambda>pyoKey.
     bind_r (PyString_AsString pyoKey) (\<lambda>strKey.
     bind_r (PyDict_GetItemString (Some pyoObject) strKey) (\<lambda>pyoContentDict.
     bind_r (PyDict_GetItemString pyoContentDict ''content'') (\<lambda>pyoContent.
     bind_r (PyString_AsString pyoContent) (\<lambda>strContent.
     bind_r (PyDict_GetItemString pyoContentDict ''subs'') (\<lambda>pyoSubs.
     let valResult = setContent strContent (setKey strKey (Value [] [] [])) in
     case pyoSubs of
       None \<Rightarrow> Inr valResult
     | Some subs \<Rightarrow>
         let pyoSubKeys = PyDict_Keys keys_of subs in
         bind_r (PyList_Size pyoSubKeys) (\<lambda>nSize.
         fold_r (\<lambda>nI valResult.
           bind_r (PyList_GetItem pyoSubKeys 0) (\<lambda>pyoSubKey.
           bind_r (PyString_AsString pyoSubKey) (\<lambda>strSubKey.
           bind_r (PyDict_GetItemString (Some subs) strSubKey) (\<lambda>item.
           bind_r (PyDict_SetItemString (PyDict []) strSubKey item) (\<lambda>pyoSubDict.
           bind_r (pyObjectToValue keys_of pyoSubDict) (\<lambda>valSub.
             Inr (add_sub valSub valResult))))))) [0..<nSize] valResult)))))))"
  by pat_completeness auto
termination
  by (relation "measure (\<lambda>(k, x). size x)")
    (auto simp: PyDict_GetItemString_def PyDict_SetItemString_def split: option.splits pyobj.splits
      dest!: map_of_Some_size)

declare pyObjectToValue.simps [simp del]


section \<open>What the conversions produce\<close>

definition subs_dict :: "(string \<times> pyobj) list \<Rightarrow> (pyobj \<times> pyobj) list" where
  "subs_dict kws = fold (\<lambda>(k, w). AList.update (PyStr (c_str k)) w) kws []"

fun content_obj :: "val \<Rightarrow> pyobj" where
  "content_obj (Value k c vs) =
     PyDict ((PyStr ''content'', PyStr c) #
       (if vs = [] then []
        else [(PyStr ''subs'', PyDict (subs_dict (map (\<lambda>v. (key v, content_obj v)) vs)))]))"

lemma c_str_literals [simp]: "c_str ''content'' = ''content''" "c_str ''subs'' = ''subs''"
  by (simp_all add: c_str_def)

lemma dict_access [simp]:
  "PyDict_SetItemString (PyDict kvs) k (Some v) = Inr (PyDict (AList.update (PyStr (c_str k)) v kvs))"
  "PyDict_GetItemString (Some (PyDict kvs)) k = Inr (map_of kvs (PyStr (c_str k)))"
  "PyString_AsString (Some (PyStr s)) = Inr (c_str s)"
  "PyList_GetItem (Some xs) 0 = Inr (if xs = [] then None else Some (hd xs))"
  "PyList_Size (Some xs) = Inr (length xs)"
  "PyDict_Keys keys_of (PyDict kvs) = Some (keys_of (map fst kvs))"
  by (simp_all add: PyDict_SetItemString_def PyDict_GetItemString_def PyString_AsString_def
      PyList_GetItem_def PyList_Size_def PyDict_Keys_def hd_conv_nth)

lemma valueToPyObject_eq:
  "valueToPyObject v = Inr (PyDict [(PyStr (c_str (key v)), content_obj v)])"
proof (induction v)
  case (Value k c vs)
  have "fold_r (\<lambda>valSub pyoSubs.
          bind_r (valueToPyObject valSub) (\<lambda>pyoSub.
          bind_r (PyDict_GetItemString (Some pyoSub) (key valSub)) (\<lambda>item.
            PyDict_SetItemString pyoSubs (key valSub) item))) ws (PyDict d) =
      Inr (PyDict (fold (\<lambda>(k, w). AList.update (PyStr (c_str k)) w)
        (map (\<lambda>v. (key v, content_obj v)) ws) d))" if "set ws \<subseteq> set vs" for ws d
    using that
  proof (induction ws arbitrary: d)
    case (Cons w ws)
    then have "valueToPyObject w = Inr (PyDict [(PyStr (c_str (key w)), content_obj w)])"
      using Value.IH by simp
    with Cons show ?case by simp
  qed simp
  from this [of vs "[]"] show ?case by (simp add: subs_dict_def)
qed

text \<open>
  The type of a message: a dictionary with one name, whose value is a dictionary with a string under
  \<open>content\<close> and, when there are sub values, a dictionary of such values under \<open>subs\<close>.
\<close>

inductive entry_type :: "pyobj \<Rightarrow> bool" where
  leaf: "map_of kvs (PyStr ''content'') = Some (PyStr c) \<Longrightarrow> map_of kvs (PyStr ''subs'') = None \<Longrightarrow>
    entry_type (PyDict kvs)"
| node: "map_of kvs (PyStr ''content'') = Some (PyStr c) \<Longrightarrow>
    map_of kvs (PyStr ''subs'') = Some (PyDict ss) \<Longrightarrow> distinct (map fst ss) \<Longrightarrow>
    (\<And>k w. (k, w) \<in> set ss \<Longrightarrow> (\<exists>s. k = PyStr s \<and> CHR 0x00 \<notin> set s) \<and> entry_type w) \<Longrightarrow>
    entry_type (PyDict kvs)"

inductive_cases entry_typeE: "entry_type (PyDict kvs)"

definition message_type :: "pyobj \<Rightarrow> bool" where
  "message_type pyo \<longleftrightarrow> (\<exists>s w. pyo = PyDict [(PyStr s, w)] \<and> CHR 0x00 \<notin> set s \<and> entry_type w)"

lemma set_subs_dict:
  "set (fold (\<lambda>(k, w). AList.update (PyStr (c_str k)) w) kws d) \<subseteq>
     set d \<union> (\<lambda>(k, w). (PyStr (c_str k), w)) ` set kws"
proof (induction kws arbitrary: d)
  case (Cons p kws)
  obtain k w where p: "p = (k, w)" by (cases p)
  have "set (AList.update (PyStr (c_str k)) w d) \<subseteq> insert (PyStr (c_str k), w) (set d)" for d
    by (induction d) auto
  with Cons [of "AList.update (PyStr (c_str k)) w d"] show ?case by (fastforce simp: p)
qed simp

lemma distinct_subs_dict: "distinct (map fst (subs_dict kws))"
proof -
  have "distinct (map fst d) \<Longrightarrow>
      distinct (map fst (fold (\<lambda>(k, w). AList.update (PyStr (c_str k)) w) kws d))" for d
    by (induction kws arbitrary: d) (auto simp: distinct_update)
  then show ?thesis by (simp add: subs_dict_def)
qed

lemma content_obj_type: "entry_type (content_obj v)"
proof (induction v)
  case (Value k c vs)
  show ?case
  proof (cases "vs = []")
    case True
    then show ?thesis by (simp add: leaf [of _ c])
  next
    case False
    let ?ss = "subs_dict (map (\<lambda>v. (key v, content_obj v)) vs)"
    have "(\<exists>s. k = PyStr s \<and> CHR 0x00 \<notin> set s) \<and> entry_type w" if "(k, w) \<in> set ?ss" for k w
      using that set_subs_dict [of "map (\<lambda>v. (key v, content_obj v)) vs" "[]"] Value.IH
      by (fastforce simp: subs_dict_def)
    with False show ?thesis by (simp add: node [of _ c ?ss] distinct_subs_dict)
  qed
qed

text \<open>What is read back from a dictionary of the type.\<close>

lemma keys_single: "dict_keys_ok keys_of \<Longrightarrow> keys_of [k] = [k]"
proof -
  assume "dict_keys_ok keys_of"
  then have "distinct (keys_of [k])" "set (keys_of [k]) = {k}" by (simp_all add: dict_keys_ok_def)
  then show ?thesis by (metis distinct_card length_0_conv length_Suc_conv One_nat_def card.empty card_insert_disjoint empty_iff finite.emptyI list.set_intros(1) singletonD)
qed

lemma keys_Nil: "dict_keys_ok keys_of \<Longrightarrow> keys_of [] = []"
  unfolding dict_keys_ok_def by (metis distinct.simps(1) list.set(1) set_empty)

lemma keys_first:
  assumes "dict_keys_ok keys_of" "distinct (map fst ss)" "ss \<noteq> []"
  obtains k w where "keys_of (map fst ss) \<noteq> []" "hd (keys_of (map fst ss)) = k"
    "(k, w) \<in> set ss" "map_of ss k = Some w" "length (keys_of (map fst ss)) = length ss"
proof -
  have d: "distinct (keys_of (map fst ss))" "set (keys_of (map fst ss)) = fst ` set ss"
    using assms(1,2) by (simp_all add: dict_keys_ok_def)
  then have l: "length (keys_of (map fst ss)) = length ss"
    using assms(2) by (metis distinct_card length_map set_map)
  with assms(3) have ne: "keys_of (map fst ss) \<noteq> []" by auto
  then have "hd (keys_of (map fst ss)) \<in> fst ` set ss" using d(2) by (metis hd_in_set)
  then obtain w where "(hd (keys_of (map fst ss)), w) \<in> set ss" by auto
  with l ne assms(2) that show thesis by simp
qed

lemma bind_r_assoc: "bind_r (bind_r r f) g = bind_r r (\<lambda>x. bind_r (f x) g)"
  by (cases r) simp_all

lemma sub_loop:
  "fold_r (\<lambda>nI v. bind_r r (\<lambda>w. Inr (add_sub w v))) [i..<i + n] v =
     (if n = 0 then Inr v
      else bind_r r (\<lambda>w. Inr (Value (key v) (content v) (subValues v @ replicate n w))))"
proof (cases r)
  case (Inl e)
  have "fold_r (\<lambda>nI v. Inl e) is v = (if is = [] then Inr v else Inl e)" for "is" :: "nat list"
    by (cases "is") simp_all
  from this [of "[i..<i + n]"] Inl show ?thesis by simp
next
  case (Inr w)
  have "fold_r (\<lambda>nI v. Inr (add_sub w v)) is v =
      Inr (Value (key v) (content v) (subValues v @ replicate (length is) w))" for "is" :: "nat list"
    by (induction "is" arbitrary: v) (auto simp: add_sub_def)
  from this [of "[i..<i + n]"] Inr show ?thesis by (cases v) simp
qed


lemma read_leaf:
  assumes "dict_keys_ok keys_of" "CHR 0x00 \<notin> set s" "map_of kvs (PyStr ''content'') = Some (PyStr c)"
    "map_of kvs (PyStr ''subs'') = None"
  shows "pyObjectToValue keys_of (PyDict [(PyStr s, PyDict kvs)]) = Inr (Value s (c_str c) [])"
  using assms
  by (subst pyObjectToValue.simps) (simp add: keys_single c_str_id setContent_def setKey_def)

lemma read_node:
  assumes "dict_keys_ok keys_of" "CHR 0x00 \<notin> set s" "map_of kvs (PyStr ''content'') = Some (PyStr c)"
    "map_of kvs (PyStr ''subs'') = Some (PyDict ss)" "distinct (map fst ss)"
    "\<And>k w. (k, w) \<in> set ss \<Longrightarrow> \<exists>t. k = PyStr t \<and> CHR 0x00 \<notin> set t"
  shows "ss = [] \<and> pyObjectToValue keys_of (PyDict [(PyStr s, PyDict kvs)]) = Inr (Value s (c_str c) []) \<or>
    (\<exists>t w. (PyStr t, w) \<in> set ss \<and> CHR 0x00 \<notin> set t \<and>
      pyObjectToValue keys_of (PyDict [(PyStr s, PyDict kvs)]) =
        bind_r (pyObjectToValue keys_of (PyDict [(PyStr t, w)]))
          (\<lambda>v. Inr (Value s (c_str c) (replicate (length ss) v))))"
proof (cases "ss = []")
  case True
  then have "keys_of (map fst ss) = []" using keys_Nil [OF assms(1)] by simp
  with True assms(1-4) show ?thesis
    by (subst pyObjectToValue.simps) (simp add: keys_single c_str_id setContent_def setKey_def)
next
  case False
  from keys_first [OF assms(1,5) False] obtain k w where
    k: "keys_of (map fst ss) \<noteq> []" "hd (keys_of (map fst ss)) = k" "(k, w) \<in> set ss" "map_of ss k = Some w"
      "length (keys_of (map fst ss)) = length ss" by blast
  from assms(6) [OF k(3)] obtain t where t: "k = PyStr t" "CHR 0x00 \<notin> set t" by blast
  have "pyObjectToValue keys_of (PyDict [(PyStr s, PyDict kvs)]) =
      bind_r (pyObjectToValue keys_of (PyDict [(PyStr t, w)]))
        (\<lambda>v. Inr (Value s (c_str c) (replicate (length ss) v)))"
    using assms(1-4) k t False sub_loop [of "pyObjectToValue keys_of (PyDict [(PyStr t, w)])" 0 "length ss"]
    by (subst pyObjectToValue.simps) (simp add: keys_single c_str_id setContent_def setKey_def)
  with k t show ?thesis by auto
qed

lemma entry_type_reads:
  "entry_type pyo \<Longrightarrow> dict_keys_ok keys_of \<Longrightarrow> CHR 0x00 \<notin> set s \<Longrightarrow>
     \<exists>v. pyObjectToValue keys_of (PyDict [(PyStr s, pyo)]) = Inr v \<and> key v = s"
proof (induction arbitrary: s rule: entry_type.induct)
  case (leaf kvs c)
  then show ?case using read_leaf by fastforce
next
  case (node kvs c ss)
  from read_node [OF node.prems node(1-3)] node(4) consider
      "pyObjectToValue keys_of (PyDict [(PyStr s, PyDict kvs)]) = Inr (Value s (c_str c) [])"
    | t w where "(PyStr t, w) \<in> set ss" "CHR 0x00 \<notin> set t"
      "pyObjectToValue keys_of (PyDict [(PyStr s, PyDict kvs)]) =
        bind_r (pyObjectToValue keys_of (PyDict [(PyStr t, w)]))
          (\<lambda>v. Inr (Value s (c_str c) (replicate (length ss) v)))" by blast
  then show ?case
  proof cases
    case 1
    then show ?thesis by simp
  next
    case 2
    from node(4) [OF 2(1)] node.prems(1) 2(2) obtain v where
      "pyObjectToValue keys_of (PyDict [(PyStr t, w)]) = Inr v" by blast
    with 2(3) show ?thesis by simp
  qed
qed

text \<open>C22: the conversion of a tree never fails and gives an object of the type of messages, and from every
  object of this type, however the interpreter orders its keys, a tree can be made: what was received
  can be sent again without a crash.\<close>

theorem conversions_typed:
  assumes "dict_keys_ok keys_of"
  shows "(\<exists>pyo. valueToPyObject v = Inr pyo \<and> message_type pyo) \<and>
    (message_type pyo \<longrightarrow> (\<exists>v. pyObjectToValue keys_of pyo = Inr v))"
proof
  have "message_type (PyDict [(PyStr (c_str (key v)), content_obj v)])"
    using content_obj_type by (auto simp: message_type_def)
  then show "\<exists>pyo. valueToPyObject v = Inr pyo \<and> message_type pyo" by (simp add: valueToPyObject_eq)
  show "message_type pyo \<longrightarrow> (\<exists>v. pyObjectToValue keys_of pyo = Inr v)"
    using entry_type_reads [OF _ assms] by (fastforce simp: message_type_def)
qed

theorem conversions_typed_witness:
  "\<exists>v. pyObjectToValue rev (PyDict [(PyStr ''request'', PyDict [(PyStr ''content'', PyStr ''devices-list'')])]) = Inr v"
proof -
  have "entry_type (PyDict [(PyStr ''content'', PyStr ''devices-list'')])" by (simp add: leaf)
  then have "message_type (PyDict [(PyStr ''request'', PyDict [(PyStr ''content'', PyStr ''devices-list'')])])"
    by (simp add: message_type_def)
  moreover have "dict_keys_ok rev" by (simp add: dict_keys_ok_def)
  ultimately show ?thesis using conversions_typed by blast
qed

text \<open>A tree without zero bytes, and one whose nodes have at most one sub value.\<close>

fun plain_tree :: "val \<Rightarrow> bool" where
  "plain_tree (Value k c vs) \<longleftrightarrow>
     CHR 0x00 \<notin> set k \<and> CHR 0x00 \<notin> set c \<and> (\<forall>v \<in> set vs. plain_tree v)"

fun chain_tree :: "val \<Rightarrow> bool" where
  "chain_tree (Value k c vs) \<longleftrightarrow> length vs \<le> 1 \<and> (\<forall>v \<in> set vs. chain_tree v)"

lemma plain_tree_key: "plain_tree v \<Longrightarrow> CHR 0x00 \<notin> set (key v)"
  by (cases v) simp

lemma chain_roundtrip:
  "plain_tree v \<Longrightarrow> chain_tree v \<Longrightarrow> dict_keys_ok keys_of \<Longrightarrow>
     pyObjectToValue keys_of (PyDict [(PyStr (key v), content_obj v)]) = Inr v"
proof (induction v)
  case (Value k c vs)
  show ?case
  proof (cases vs)
    case Nil
    with Value.prems read_leaf [of keys_of k] show ?thesis by (simp add: c_str_id)
  next
    case (Cons v ws)
    with Value.prems have vs: "vs = [v]" "plain_tree v" "chain_tree v" by auto
    then have kv: "c_str (key v) = key v" by (cases v) (simp add: c_str_id)
    let ?ss = "[(PyStr (key v), content_obj v)]"
    have ss: "content_obj (Value k c vs) = PyDict [(PyStr ''content'', PyStr c), (PyStr ''subs'', PyDict ?ss)]"
      by (simp add: vs subs_dict_def kv)
    have "pyObjectToValue keys_of (PyDict [(PyStr (key v), content_obj v)]) = Inr v"
      using Value vs by simp
    then show ?thesis unfolding ss
      using read_node [of keys_of k "[(PyStr ''content'', PyStr c), (PyStr ''subs'', PyDict ?ss)]" c ?ss]
        Value.prems vs kv by (cases v) (auto simp: c_str_id)
  qed
qed

text \<open>C23: the conversions are inverse on trees whose nodes have at most one sub value, as all requests of the
  protocol have.\<close>

theorem message_roundtrip:
  assumes "plain_tree v" "chain_tree v" "dict_keys_ok keys_of"
  shows "bind_r (valueToPyObject v) (pyObjectToValue keys_of) = Inr v"
  using chain_roundtrip [OF assms] assms(1) by (cases v) (simp add: valueToPyObject_eq c_str_id)

theorem message_roundtrip_witness:
  "bind_r (valueToPyObject (stream_request ''enable-stream'' ''eth0'')) (pyObjectToValue rev) =
     Inr (stream_request ''enable-stream'' ''eth0'')"
  by (rule message_roundtrip)
    (simp_all add: stream_request_def make_value_eq add_sub_def dict_keys_ok_def)


lemma update_new: "k \<notin> fst ` set d \<Longrightarrow> AList.update k w d = d @ [(k, w)]"
  by (induction d) auto

lemma subs_dict_distinct:
  assumes "distinct (map fst kws)" "\<forall>(k, w) \<in> set kws. CHR 0x00 \<notin> set k"
  shows "subs_dict kws = map (\<lambda>(k, w). (PyStr k, w)) kws"
proof -
  have "distinct (map fst kws) \<Longrightarrow> \<forall>(k, w) \<in> set kws. CHR 0x00 \<notin> set k \<and> PyStr k \<notin> fst ` set d \<Longrightarrow>
      fold (\<lambda>(k, w). AList.update (PyStr (c_str k)) w) kws d = d @ map (\<lambda>(k, w). (PyStr k, w)) kws" for d
  proof (induction kws arbitrary: d)
    case (Cons p kws)
    obtain k w where p: "p = (k, w)" by (cases p)
    with Cons.prems have "fold (\<lambda>(k, w). AList.update (PyStr (c_str k)) w) kws (d @ [(PyStr k, w)]) =
        (d @ [(PyStr k, w)]) @ map (\<lambda>(k, w). (PyStr k, w)) kws"
      by (intro Cons.IH) (auto simp: image_iff)
    with Cons.prems show ?case by (simp add: p c_str_id update_new)
  qed simp
  from this [of "[]"] assms show ?thesis by (simp add: subs_dict_def case_prod_unfold)
qed




section \<open>The module\<close>

text \<open>What the operating system answers during a call.\<close>

record py_env =
  pe_groupFD :: int
  pe_newFD :: int
  pe_connects :: "string \<Rightarrow> u16 \<Rightarrow> bool"
  pe_write :: "nat \<Rightarrow> nat \<Rightarrow> int"
  pe_recvs :: "nat \<Rightarrow> nat \<Rightarrow> recv_res"
  pe_junk :: "nat \<Rightarrow> byte list"
  pe_stale :: bool
  pe_group :: "nat \<Rightarrow> recv_res"
  pe_groupJunk :: "nat \<Rightarrow> byte list"
  pe_sender :: string

text \<open>
  The state behind the module: the clients that were created, \<open>None\<close> once deleted (a call with such a
  pointer is the fault \<open>UseAfterFree\<close>, whether or not the memory is used again), the descriptors their
  destructors closed, the bytes handed to the system on each descriptor, and \<open>g_mapErrors\<close>.
\<close>

record py_state =
  ph_clients :: "mdclient option list"
  ph_closed :: "int list"
  ph_sent :: "(int \<times> byte list) list"
  g_mapErrors :: "string list"

datatype py_result = Raised string | Returned pyobj

type_synonym py_step = "(py_result \<times> py_state) result"

definition addException :: "string \<Rightarrow> py_state \<Rightarrow> py_state" where
  "addException strName st = st\<lparr>g_mapErrors := g_mapErrors st @ [strName]\<rparr>"

text \<open>An exception that was not registered is a null pointer, whose counter is then incremented.\<close>

definition exception_of :: "string \<Rightarrow> py_state \<Rightarrow> py_step" where
  "exception_of strName st = (if strName \<in> set (g_mapErrors st) then Inr (Raised strName, st) else Inl NullDeref)"

definition argsInvalidException :: "py_state \<Rightarrow> py_step" where
  "argsInvalidException = exception_of ''ArgumentsInvalidError''"

definition disconnectedException :: "py_state \<Rightarrow> py_step" where
  "disconnectedException = exception_of ''DisconnectedError''"

definition mdcInvalidException :: "py_state \<Rightarrow> py_step" where
  "mdcInvalidException = exception_of ''ClientInvalidError''"

definition initpymacdetect_ext :: "bool \<Rightarrow> py_state" where
  "initpymacdetect_ext bModule =
     (let st = \<lparr>ph_clients = [], ph_closed = [], ph_sent = [], g_mapErrors = []\<rparr> in
      if bModule then
        fold addException
          [''ArgumentsInvalidError'', ''DisconnectedError'', ''ValueInvalidError'', ''ClientInvalidError''] st
      else st)"

text \<open>\<open>PyCObject_AsVoidPtr\<close>, and the two parsings of arguments: \<open>O\<close>, and \<open>Os\<close>, which takes no string with a zero byte.\<close>

definition as_client :: "pyobj \<Rightarrow> nat option" where
  "as_client pyo = (case pyo of PyClient p \<Rightarrow> Some p | _ \<Rightarrow> None)"

definition clientFromPyArgs :: "pyobj list \<Rightarrow> nat option" where
  "clientFromPyArgs pyoArgs = (case pyoArgs of [pyo] \<Rightarrow> as_client pyo | _ \<Rightarrow> None)"

definition parse_Os :: "pyobj list \<Rightarrow> (pyobj \<times> string) option" where
  "parse_Os pyoArgs =
     (case pyoArgs of
        [pyo, PyStr s] \<Rightarrow> if CHR 0x00 \<in> set s then None else Some (pyo, s)
      | _ \<Rightarrow> None)"

definition client_at :: "nat \<Rightarrow> py_state \<Rightarrow> mdclient result" where
  "client_at p st =
     (if p < length (ph_clients st) then
        case ph_clients st ! p of None \<Rightarrow> Inl UseAfterFree | Some md \<Rightarrow> Inr md
      else Inl NullDeref)"

definition put_client :: "nat \<Rightarrow> mdclient \<Rightarrow> py_state \<Rightarrow> py_state" where
  "put_client p md st = st\<lparr>ph_clients := (ph_clients st)[p := Some md]\<rparr>"

text \<open>The frame of the functions that take one client, and of those that take a client and a string.\<close>

definition with_client :: "pyobj list \<Rightarrow> (nat \<Rightarrow> mdclient \<Rightarrow> py_state \<Rightarrow> py_step) \<Rightarrow> py_state \<Rightarrow> py_step" where
  "with_client pyoArgs f st =
     (case clientFromPyArgs pyoArgs of
        None \<Rightarrow> mdcInvalidException st
      | Some p \<Rightarrow> bind_r (client_at p st) (\<lambda>md. f p md st))"

definition with_client_string ::
  "pyobj list \<Rightarrow> (nat \<Rightarrow> string \<Rightarrow> mdclient \<Rightarrow> py_state \<Rightarrow> py_step) \<Rightarrow> py_state \<Rightarrow> py_step" where
  "with_client_string pyoArgs f st =
     (case parse_Os pyoArgs of
        None \<Rightarrow> argsInvalidException st
      | Some (pyoClient, s) \<Rightarrow>
          (case as_client pyoClient of
             None \<Rightarrow> mdcInvalidException st
           | Some p \<Rightarrow> bind_r (client_at p st) (\<lambda>md. f p s md st)))"

text \<open>Bytes that were sent leave on the descriptor of the client.\<close>

definition sent_by :: "mdclient \<Rightarrow> (bool \<times> byte list) result \<Rightarrow> py_state \<Rightarrow> py_step" where
  "sent_by md r st =
     bind_r r (\<lambda>(b, bs).
       Inr (Returned (PyBool b), st\<lparr>ph_sent := ph_sent st @ [(m_nSocketFD (cl_entity (md_client md)), bs)]\<rparr>))"

definition createMDClient :: "py_env \<Rightarrow> pyobj list \<Rightarrow> py_state \<Rightarrow> py_step" where
  "createMDClient env pyoArgs st =
     (if pyoArgs = [] then
        Inr (Returned (PyClient (length (ph_clients st))), st\<lparr>ph_clients := ph_clients st @
          [Some \<lparr>md_client = new_client, md_discovery = new_discovery_client (pe_groupFD env)\<rparr>]\<rparr>)
      else argsInvalidException st)"

text \<open>
  \<open>delete\<close> runs the destructors of the members, the last one first: the one of \<open>PacketEntity\<close> closes the
  socket of the group; the one of \<open>Client\<close> disconnects and the one of its base closes what is left, -1.
\<close>

definition destroyMDClient :: "pyobj list \<Rightarrow> py_state \<Rightarrow> py_step" where
  "destroyMDClient pyoArgs =
     with_client pyoArgs (\<lambda>p md st.
       let cl = snd (client_disconnect (md_client md)) in
       Inr (Returned PyNone, st\<lparr>ph_clients := (ph_clients st)[p := None],
         ph_closed := ph_closed st @ [m_nSocketFD (dc_entity (md_discovery md))] @ cl_closed cl @
           [m_nSocketFD (cl_entity cl)]\<rparr>))"

definition py_enableStream :: "py_env \<Rightarrow> pyobj list \<Rightarrow> py_state \<Rightarrow> py_step" where
  "py_enableStream env pyoArgs =
     with_client_string pyoArgs (\<lambda>p strDevice md.
       sent_by md (requestEnableStream (pe_write env) strDevice))"

definition py_disableStream :: "py_env \<Rightarrow> pyobj list \<Rightarrow> py_state \<Rightarrow> py_step" where
  "py_disableStream env pyoArgs =
     with_client_string pyoArgs (\<lambda>p strDevice md.
       sent_by md (requestDisableStream (pe_write env) strDevice))"

definition connectMDClient :: "py_env \<Rightarrow> pyobj list \<Rightarrow> py_state \<Rightarrow> py_step" where
  "connectMDClient env pyoArgs =
     with_client_string pyoArgs (\<lambda>p strIP md st.
       let (b, md) = md_connect (pe_newFD env) (pe_connects env) strIP md
       in Inr (Returned (PyBool b), put_client p md st))"

definition mdClientConnected :: "pyobj list \<Rightarrow> py_state \<Rightarrow> py_step" where
  "mdClientConnected pyoArgs =
     with_client pyoArgs (\<lambda>p md st. Inr (Returned (PyBool (md_connected md)), st))"

definition disconnectMDClient :: "pyobj list \<Rightarrow> py_state \<Rightarrow> py_step" where
  "disconnectMDClient pyoArgs =
     with_client pyoArgs (\<lambda>p md st.
       let (b, md) = md_disconnect md in Inr (Returned (PyBool b), put_client p md st))"

definition py_send :: "(pyobj list \<Rightarrow> pyobj list) \<Rightarrow> py_env \<Rightarrow> pyobj list \<Rightarrow> py_state \<Rightarrow> py_step" where
  "py_send keys_of env pyoArgs st =
     (case pyoArgs of
        [pyoClient, pyoMessage] \<Rightarrow>
          (case as_client pyoClient of
             None \<Rightarrow> mdcInvalidException st
           | Some p \<Rightarrow>
               bind_r (pyObjectToValue keys_of pyoMessage) (\<lambda>valSend.
               bind_r (client_at p st) (\<lambda>md. sent_by md (send_packet (pe_write env) valSend) st)))
      | _ \<Rightarrow> argsInvalidException st)"

text \<open>\<open>receive\<close> does not block, so the call of \<open>MDClient::receive\<close> ends; a call that does not end is \<open>None\<close>.\<close>

definition py_receive :: "py_env \<Rightarrow> pyobj list \<Rightarrow> py_state \<Rightarrow> py_step option" where
  "py_receive env pyoArgs st =
     (case clientFromPyArgs pyoArgs of
        None \<Rightarrow> Some (mdcInvalidException st)
      | Some p \<Rightarrow>
          (case client_at p st of
             Inl e \<Rightarrow> Some (Inl e)
           | Inr md \<Rightarrow>
               map_option (\<lambda>r. bind_r r (\<lambda>(valReceived, bDisconnected, md).
                 let st = put_client p md st in
                 if bDisconnected then disconnectedException st
                 else
                   (case valReceived of
                      Some v \<Rightarrow> bind_r (valueToPyObject v) (\<lambda>pyo. Inr (Returned pyo, st))
                    | None \<Rightarrow> Inr (Returned PyNone, st))))
                 (md_receive (pe_recvs env) (pe_junk env) False md)))"

definition py_detectServers :: "pyobj list \<Rightarrow> py_state \<Rightarrow> py_step" where
  "py_detectServers pyoArgs =
     with_client pyoArgs (\<lambda>p md st. Inr (Returned PyNone, put_client p (md_detectServers md) st))"

definition py_cycle :: "py_env \<Rightarrow> pyobj list \<Rightarrow> py_state \<Rightarrow> py_step" where
  "py_cycle env pyoArgs =
     with_client pyoArgs (\<lambda>p md st.
       bind_r (md_cycle (pe_stale env) (pe_group env) (pe_groupJunk env) (pe_sender env) md) (\<lambda>md.
         Inr (Returned PyNone, put_client p md st)))"

definition server_info :: "string \<times> string \<Rightarrow> pyobj result" where
  "server_info siInfo =
     bind_r (PyDict_SetItemString (PyDict []) ''name'' (Some (PyStr (fst siInfo)))) (\<lambda>pyoServerInfo.
       PyDict_SetItemString pyoServerInfo ''ip'' (Some (PyStr (snd siInfo))))"

definition py_detectedServers :: "pyobj list \<Rightarrow> py_state \<Rightarrow> py_step" where
  "py_detectedServers pyoArgs =
     with_client pyoArgs (\<lambda>p md st.
       let (lstServers, md) = md_detectedServers md in
       bind_r (fold_r (\<lambda>siInfo pyoList.
           bind_r (server_info siInfo) (\<lambda>pyo. Inr (pyoList @ [pyo]))) lstServers []) (\<lambda>pyoList.
         Inr (Returned (PyList pyoList), put_client p md st)))"

text \<open>The table of the functions of the module; Python raises \<open>AttributeError\<close> for any other name.\<close>

definition PyMACDetectMethods ::
  "(pyobj list \<Rightarrow> pyobj list) \<Rightarrow> py_env \<Rightarrow> (string \<times> (pyobj list \<Rightarrow> py_state \<Rightarrow> py_step option)) list" where
  "PyMACDetectMethods keys_of env =
     [(''createClient'', \<lambda>a st. Some (createMDClient env a st)),
      (''destroyClient'', \<lambda>a st. Some (destroyMDClient a st)),
      (''connectClient'', \<lambda>a st. Some (connectMDClient env a st)),
      (''clientConnected'', \<lambda>a st. Some (mdClientConnected a st)),
      (''disconnectClient'', \<lambda>a st. Some (disconnectMDClient a st)),
      (''receive'', py_receive env),
      (''send'', \<lambda>a st. Some (py_send keys_of env a st)),
      (''enableStream'', \<lambda>a st. Some (py_enableStream env a st)),
      (''disableStream'', \<lambda>a st. Some (py_disableStream env a st)),
      (''detectServers'', \<lambda>a st. Some (py_detectServers a st)),
      (''cycle'', \<lambda>a st. Some (py_cycle env a st)),
      (''detectedServers'', \<lambda>a st. Some (py_detectedServers a st))]"

definition py_call ::
  "(pyobj list \<Rightarrow> pyobj list) \<Rightarrow> py_env \<Rightarrow> string \<Rightarrow> pyobj list \<Rightarrow> py_state \<Rightarrow> py_step option" where
  "py_call keys_of env strName pyoArgs st =
     (case map_of (PyMACDetectMethods keys_of env) strName of
        None \<Rightarrow> Some (Inr (Raised ''AttributeError'', st))
      | Some f \<Rightarrow> f pyoArgs st)"


section \<open>Sessions\<close>

text \<open>No call brings a deleted client back or changes the registered exceptions.\<close>

definition py_frame :: "py_state \<Rightarrow> py_state \<Rightarrow> bool" where
  "py_frame st st' \<longleftrightarrow> g_mapErrors st' = g_mapErrors st \<and>
     (\<forall>p < length (ph_clients st). ph_clients st ! p = None \<longrightarrow>
        p < length (ph_clients st') \<and> ph_clients st' ! p = None)"

lemma py_frame_refl [simp]: "py_frame st st"
  by (simp add: py_frame_def)

lemma client_at_iff:
  "client_at p st = Inr md \<longleftrightarrow> p < length (ph_clients st) \<and> ph_clients st ! p = Some md"
  by (auto simp: client_at_def split: option.splits)

lemma py_frame_put: "client_at q st = Inr md \<Longrightarrow> py_frame st (put_client q md' st)"
  by (auto simp: py_frame_def put_client_def client_at_iff nth_list_update)

lemma exception_frame: "exception_of s st = Inr (r, st') \<Longrightarrow> py_frame st st'"
  by (auto simp: exception_of_def split: if_splits)

lemmas exception_defs = mdcInvalidException_def argsInvalidException_def disconnectedException_def

lemma with_client_frame:
  assumes "with_client args f st = Inr (r, st')"
    and "\<And>p md. client_at p st = Inr md \<Longrightarrow> f p md st = Inr (r, st') \<Longrightarrow> py_frame st st'"
  shows "py_frame st st'"
  using assms by (auto simp: with_client_def exception_defs bind_r_Inr_iff exception_frame split: option.splits)

lemma with_client_string_frame:
  assumes "with_client_string args f st = Inr (r, st')"
    and "\<And>p s md. client_at p st = Inr md \<Longrightarrow> f p s md st = Inr (r, st') \<Longrightarrow> py_frame st st'"
  shows "py_frame st st'"
  using assms by (auto simp: with_client_string_def exception_defs bind_r_Inr_iff exception_frame split: option.splits prod.splits)

lemma sent_by_frame: "sent_by md x st = Inr (r, st') \<Longrightarrow> py_frame st st'"
  by (auto simp: sent_by_def bind_r_Inr_iff py_frame_def)

lemma create_frame: "createMDClient env a st = Inr (r, st') \<Longrightarrow> py_frame st st'"
  by (auto simp: createMDClient_def exception_defs py_frame_def nth_append dest: exception_frame split: if_splits)

lemma destroy_frame: "destroyMDClient a st = Inr (r, st') \<Longrightarrow> py_frame st st'"
  unfolding destroyMDClient_def
  by (erule with_client_frame) (auto simp: py_frame_def client_at_iff nth_list_update Let_def)

lemma connect_frame: "connectMDClient env a st = Inr (r, st') \<Longrightarrow> py_frame st st'"
  unfolding connectMDClient_def
  by (erule with_client_string_frame) (auto simp: py_frame_put split: prod.splits)

lemma connected_frame: "mdClientConnected a st = Inr (r, st') \<Longrightarrow> py_frame st st'"
  unfolding mdClientConnected_def by (erule with_client_frame) auto

lemma disconnect_frame: "disconnectMDClient a st = Inr (r, st') \<Longrightarrow> py_frame st st'"
  unfolding disconnectMDClient_def by (erule with_client_frame) (auto simp: py_frame_put split: prod.splits)

lemma send_frame: "py_send keys_of env a st = Inr (r, st') \<Longrightarrow> py_frame st st'"
  by (auto simp: py_send_def exception_defs bind_r_Inr_iff dest: exception_frame sent_by_frame
      split: list.splits option.splits)

lemma streams_frame:
  "py_enableStream env a st = Inr (r, st') \<Longrightarrow> py_frame st st'"
  "py_disableStream env a st = Inr (r, st') \<Longrightarrow> py_frame st st'"
  unfolding py_enableStream_def py_disableStream_def
  by (erule with_client_string_frame, erule sent_by_frame)+

lemma detect_frame: "py_detectServers a st = Inr (r, st') \<Longrightarrow> py_frame st st'"
  unfolding py_detectServers_def by (erule with_client_frame) (auto simp: py_frame_put)

lemma cycle_frame: "py_cycle env a st = Inr (r, st') \<Longrightarrow> py_frame st st'"
  unfolding py_cycle_def by (erule with_client_frame) (auto simp: py_frame_put bind_r_Inr_iff)

lemma detected_frame: "py_detectedServers a st = Inr (r, st') \<Longrightarrow> py_frame st st'"
  unfolding py_detectedServers_def
  by (erule with_client_frame) (auto simp: py_frame_put bind_r_Inr_iff split: prod.splits)

lemma receive_frame:
  assumes "py_receive env a st = Some (Inr (r, st'))"
  shows "py_frame st st'"
proof (cases "clientFromPyArgs a")
  case None
  with assms show ?thesis by (auto simp: py_receive_def exception_defs dest: exception_frame)
next
  case (Some p)
  with assms obtain md where md: "client_at p st = Inr md"
    by (auto simp: py_receive_def split: sum.splits)
  have "py_frame (put_client p md' st) st' \<Longrightarrow> py_frame st st'" for md'
    using py_frame_put [OF md, of md'] by (auto simp: py_frame_def)
  with assms Some md show ?thesis
    by (auto simp: py_receive_def exception_defs bind_r_Inr_iff py_frame_put Let_def
        dest!: exception_frame split: if_splits option.splits)
qed

lemma py_call_frame:
  assumes "py_call keys_of env name a st = Some (Inr (r, st'))"
  shows "py_frame st st'"
  using assms
  by (auto simp: py_call_def PyMACDetectMethods_def
      dest: create_frame destroy_frame connect_frame connected_frame disconnect_frame receive_frame
        send_frame streams_frame detect_frame cycle_frame detected_frame
      split: option.splits if_splits)

text \<open>A session: any calls, with whatever the system answers, that return to the interpreter.\<close>

inductive py_session :: "(pyobj list \<Rightarrow> pyobj list) \<Rightarrow> py_state \<Rightarrow> py_state \<Rightarrow> bool" for keys_of where
  start: "py_session keys_of st st"
| call: "py_session keys_of st st1 \<Longrightarrow> py_call keys_of env strName pyoArgs st1 = Some (Inr (r, st2)) \<Longrightarrow>
    py_session keys_of st st2"

lemma py_session_frame: "py_session keys_of st st' \<Longrightarrow> py_frame st st'"
proof (induction rule: py_session.induct)
  case (call st st1 env strName pyoArgs r st2)
  with py_call_frame [OF call.hyps(2)] show ?case by (auto simp: py_frame_def)
qed simp


lemma registered: "set (g_mapErrors (initpymacdetect_ext True)) =
    {''ArgumentsInvalidError'', ''DisconnectedError'', ''ValueInvalidError'', ''ClientInvalidError''}"
  by (auto simp: initpymacdetect_ext_def addException_def)

lemma session_errors:
  "py_session keys_of (initpymacdetect_ext True) st \<Longrightarrow> set (g_mapErrors st) =
    {''ArgumentsInvalidError'', ''DisconnectedError'', ''ValueInvalidError'', ''ClientInvalidError''}"
  using py_session_frame registered by (fastforce simp: py_frame_def)

text \<open>The functions that take nothing but a client, and those that take a string as well.\<close>

definition client_functions :: "string list" where
  "client_functions = [''destroyClient'', ''clientConnected'', ''disconnectClient'', ''receive'', ''detectServers'',
     ''cycle'', ''detectedServers'']"

definition string_functions :: "string list" where
  "string_functions = [''connectClient'', ''enableStream'', ''disableStream'']"

lemma py_calls:
  "py_call keys_of env ''createClient'' a st = Some (createMDClient env a st)"
  "py_call keys_of env ''destroyClient'' a st = Some (destroyMDClient a st)"
  "py_call keys_of env ''connectClient'' a st = Some (connectMDClient env a st)"
  "py_call keys_of env ''clientConnected'' a st = Some (mdClientConnected a st)"
  "py_call keys_of env ''disconnectClient'' a st = Some (disconnectMDClient a st)"
  "py_call keys_of env ''send'' a st = Some (py_send keys_of env a st)"
  "py_call keys_of env ''enableStream'' a st = Some (py_enableStream env a st)"
  "py_call keys_of env ''disableStream'' a st = Some (py_disableStream env a st)"
  "py_call keys_of env ''detectServers'' a st = Some (py_detectServers a st)"
  "py_call keys_of env ''cycle'' a st = Some (py_cycle env a st)"
  "py_call keys_of env ''detectedServers'' a st = Some (py_detectedServers a st)"
  "py_call keys_of env ''receive'' a st = py_receive env a st"
  by (simp_all add: py_call_def PyMACDetectMethods_def)

lemmas function_defs = py_calls destroyMDClient_def mdClientConnected_def
  disconnectMDClient_def py_receive_def py_detectServers_def py_cycle_def py_detectedServers_def
  connectMDClient_def py_enableStream_def py_disableStream_def

lemma client_function_dead:
  assumes "name \<in> set client_functions" "client_at p st = Inl e"
  shows "py_call keys_of env name [PyClient p] st = Some (Inl e)"
  using assms(1) unfolding client_functions_def
  by (auto simp: function_defs with_client_def clientFromPyArgs_def as_client_def assms(2))

lemma string_function_dead:
  assumes "name \<in> set string_functions" "client_at p st = Inl e" "CHR 0x00 \<notin> set s"
  shows "py_call keys_of env name [PyClient p, PyStr s] st = Some (Inl e)"
  using assms(1) unfolding string_functions_def
  by (auto simp: function_defs with_client_string_def parse_Os_def as_client_def assms(2,3))

text \<open>\<open>destroyClient\<close> leaves the object with a dangling pointer: whatever the program does afterwards, each
  further call with it, a second \<open>destroyClient\<close> included, uses the deleted client.\<close>

theorem use_after_destroy:
  assumes "py_call keys_of env ''destroyClient'' [PyClient p] st = Some (Inr (Returned PyNone, st1))"
    and "py_session keys_of st1 st2"
  shows "(name \<in> set client_functions \<longrightarrow>
      py_call keys_of env' name [PyClient p] st2 = Some (Inl UseAfterFree)) \<and>
    (name \<in> set string_functions \<and> CHR 0x00 \<notin> set s \<longrightarrow>
      py_call keys_of env' name [PyClient p, PyStr s] st2 = Some (Inl UseAfterFree))"
proof -
  have "p < length (ph_clients st1) \<and> ph_clients st1 ! p = None"
    using assms(1)
    by (auto simp: function_defs with_client_def clientFromPyArgs_def as_client_def bind_r_Inr_iff client_at_iff Let_def)
  with py_session_frame [OF assms(2)] have "client_at p st2 = Inl UseAfterFree"
    by (auto simp: py_frame_def client_at_def)
  then show ?thesis using client_function_dead string_function_dead by blast
qed

definition sample_py_env :: py_env where
  "sample_py_env = \<lparr>pe_groupFD = 9, pe_newFD = 7, pe_connects = (\<lambda>ip p. True), pe_write = (\<lambda>n l. int l),
     pe_recvs = (\<lambda>i. queue_peek (encode (Value ''info'' ''hello'' []))), pe_junk = (\<lambda>n. replicate n 0),
     pe_stale = False, pe_group = (\<lambda>n. RecvError True), pe_groupJunk = (\<lambda>n. replicate n 0),
     pe_sender = ''10.0.0.1''\<rparr>"

definition sample_py_state :: py_state where
  "sample_py_state = (initpymacdetect_ext True)\<lparr>ph_clients :=
     [Some \<lparr>md_client = new_client, md_discovery = new_discovery_client 9\<rparr>]\<rparr>"

theorem use_after_destroy_witness:
  "\<exists>st. py_call rev sample_py_env ''clientConnected'' [PyClient 0] st = Some (Inl UseAfterFree)"
proof -
  have "\<exists>st. py_call rev sample_py_env ''destroyClient'' [PyClient 0] sample_py_state =
      Some (Inr (Returned PyNone, st))"
    by (simp add: py_calls destroyMDClient_def with_client_def clientFromPyArgs_def
        as_client_def client_at_def sample_py_state_def initpymacdetect_ext_def addException_def Let_def)
  then obtain st where d: "py_call rev sample_py_env ''destroyClient'' [PyClient 0] sample_py_state =
      Some (Inr (Returned PyNone, st))" ..
  from use_after_destroy [OF d start, of "''clientConnected''"] show ?thesis by (auto simp: client_functions_def)
qed

text \<open>In every session of a loaded module a call whose arguments are no client, or no client and string,
  raises one of the module's exceptions and changes nothing.\<close>

theorem bad_calls_raise:
  assumes "py_session keys_of (initpymacdetect_ext True) st"
  shows "(name \<in> set client_functions \<and> (\<nexists>p. args = [PyClient p]) \<longrightarrow>
      py_call keys_of env name args st = Some (Inr (Raised ''ClientInvalidError'', st))) \<and>
    (name \<in> set string_functions \<and> parse_Os args = None \<longrightarrow>
      py_call keys_of env name args st = Some (Inr (Raised ''ArgumentsInvalidError'', st)))"
proof -
  have none: "(\<nexists>p. args = [PyClient p]) \<Longrightarrow> clientFromPyArgs args = None"
    by (auto simp: clientFromPyArgs_def as_client_def split: list.splits pyobj.splits)
  have raised: "mdcInvalidException st = Inr (Raised ''ClientInvalidError'', st)"
      "argsInvalidException st = Inr (Raised ''ArgumentsInvalidError'', st)"
    using session_errors [OF assms] by (simp_all add: exception_defs exception_of_def)
  show ?thesis using none unfolding client_functions_def string_functions_def
    by (auto simp: function_defs with_client_def with_client_string_def raised)
qed

theorem bad_calls_raise_witness:
  "py_call rev sample_py_env ''receive'' [PyNone] (initpymacdetect_ext True) =
     Some (Inr (Raised ''ClientInvalidError'', initpymacdetect_ext True))"
  using bad_calls_raise [OF start, of "''receive''" "[PyNone]" rev sample_py_env] by (simp add: client_functions_def)

lemma receive_put: "client_at p st = Inr md \<Longrightarrow> put_client p md st = st"
  using list_update_id [of "ph_clients st" p] by (simp add: put_client_def client_at_iff)

lemma py_receive_eq:
  assumes "client_at p st = Inr md"
  shows "py_call keys_of env ''receive'' [PyClient p] st =
    map_option (\<lambda>r. bind_r r (\<lambda>(valReceived, bDisconnected, md).
      let st = put_client p md st in
      if bDisconnected then disconnectedException st
      else case valReceived of Some v \<Rightarrow> bind_r (valueToPyObject v) (\<lambda>pyo. Inr (Returned pyo, st))
        | None \<Rightarrow> Inr (Returned PyNone, st)))
      (md_receive (pe_recvs env) (pe_junk env) False md)"
  using assms by (simp add: py_calls py_receive_def clientFromPyArgs_def as_client_def)

lemma receive_delivers:
  assumes "client_at p st = Inr md" "tcp_queue (encode v @ q) (pe_recvs env 0)"
    "length (encode v @ q) + 2048 \<le> int_max" "heap_block (pe_junk env)"
  shows "py_call keys_of env ''receive'' [PyClient p] st =
    Some (Inr (Returned (PyDict [(PyStr (c_str (key v)), content_obj v)]), st))"
proof -
  have "value_ok v" using assms(3) by (intro value_ok_size) (simp add: length_encode int_max_def)
  with assms have "receive (pe_recvs env 0) (pe_junk env) False (cl_entity (md_client md)) =
      Inr (Some v, False, cl_entity (md_client md), wire_size v)" by (intro receive_front)
  then have "md_receive (pe_recvs env) (pe_junk env) False md = Some (Inr (Some v, False, md))"
    by (simp add: md_receive_def receive_loop.simps [of _ _ _ 0])
  with py_receive_eq [OF assms(1)] receive_put [OF assms(1)] show ?thesis by (simp add: valueToPyObject_eq)
qed

text \<open>When a packet is on the connection of a client, \<open>receive\<close> returns its tree as a dictionary of the type
  of messages; when nothing has arrived it returns \<open>None\<close>, and it raises \<open>DisconnectedError\<close> when the
  connection was closed.\<close>

theorem python_receives:
  assumes "py_session keys_of (initpymacdetect_ext True) st" "client_at p st = Inr md"
  shows "(tcp_queue (encode v @ q) (pe_recvs env 0) \<and> length (encode v @ q) + 2048 \<le> int_max \<and>
      heap_block (pe_junk env) \<longrightarrow>
      (\<exists>pyo. valueToPyObject v = Inr pyo \<and> message_type pyo \<and>
        py_call keys_of env ''receive'' [PyClient p] st = Some (Inr (Returned pyo, st)))) \<and>
    ((\<forall>n. pe_recvs env 0 n = RecvError True) \<longrightarrow>
      py_call keys_of env ''receive'' [PyClient p] st = Some (Inr (Returned PyNone, st))) \<and>
    ((\<forall>n. pe_recvs env 0 n = Received []) \<longrightarrow>
      (\<exists>st'. py_call keys_of env ''receive'' [PyClient p] st = Some (Inr (Raised ''DisconnectedError'', st'))))"
proof -
  note put = receive_put [OF assms(2)] and call = py_receive_eq [OF assms(2)]
  show ?thesis
  proof (intro conjI impI)
    assume "tcp_queue (encode v @ q) (pe_recvs env 0) \<and> length (encode v @ q) + 2048 \<le> int_max \<and>
      heap_block (pe_junk env)"
    with receive_delivers [OF assms(2), of v q env keys_of] show "\<exists>pyo. valueToPyObject v = Inr pyo \<and> message_type pyo \<and>
        py_call keys_of env ''receive'' [PyClient p] st = Some (Inr (Returned pyo, st))"
      using content_obj_type by (auto simp: valueToPyObject_eq message_type_def)
  next
    assume "\<forall>n. pe_recvs env 0 n = RecvError True"
    then have "md_receive (pe_recvs env) (pe_junk env) False md = Some (Inr (None, False, md))"
      by (simp add: md_receive_def receive_loop.simps [of _ _ _ 0] receive_idle)
    with call put show "py_call keys_of env ''receive'' [PyClient p] st = Some (Inr (Returned PyNone, st))"
      by simp
  next
    assume "\<forall>n. pe_recvs env 0 n = Received []"
    then have "\<exists>md'. md_receive (pe_recvs env) (pe_junk env) False md = Some (Inr (None, True, md'))"
      by (simp add: md_receive_def receive_loop.simps [of _ _ _ 0] receive_def peek_loop.simps [of _ 0] int_max_def Let_def)
    then obtain md' where "md_receive (pe_recvs env) (pe_junk env) False md = Some (Inr (None, True, md'))" ..
    with call show "\<exists>st'. py_call keys_of env ''receive'' [PyClient p] st = Some (Inr (Raised ''DisconnectedError'', st'))"
      using session_errors [OF assms(1)] by (simp add: disconnectedException_def exception_of_def put_client_def)
  qed
qed

theorem python_receives_witness:
  "\<exists>pyo. valueToPyObject (Value ''info'' ''hello'' []) = Inr pyo \<and> message_type pyo \<and>
     py_call rev sample_py_env ''receive'' [PyClient 0] sample_py_state = Some (Inr (Returned pyo, sample_py_state))"
proof -
  let ?v = "Value ''info'' ''hello'' []"
  have "py_call rev sample_py_env ''createClient'' [] (initpymacdetect_ext True) =
      Some (Inr (Returned (PyClient 0), sample_py_state))"
    by (simp add: py_calls createMDClient_def sample_py_state_def sample_py_env_def
        initpymacdetect_ext_def addException_def)
  then have s: "py_session rev (initpymacdetect_ext True) sample_py_state" by (rule call [OF start])
  have c: "client_at 0 sample_py_state = Inr \<lparr>md_client = new_client, md_discovery = new_discovery_client 9\<rparr>"
    by (simp add: client_at_def sample_py_state_def)
  have q: "tcp_queue (encode ?v @ []) (pe_recvs sample_py_env 0)"
    using tcp_queue_peek by (simp add: sample_py_env_def)
  have v: "length (encode ?v @ []) + 2048 \<le> int_max" by (simp add: int_max_def)
  have h: "heap_block (pe_junk sample_py_env)" by (simp add: heap_block_def sample_py_env_def)
  from python_receives [OF s c, of ?v "[]" sample_py_env] q v h show ?thesis by blast
qed

end
