(* ===== verification/Wires.thy ===== *)
theory Wires
  imports Devices
begin

text \<open>
  \<open>macdetectd/src/Wire.cpp\<close> and \<open>macdetectd/src/RARP.cpp\<close>: the raw socket of a device, with the descriptors
  it opens and closes, and the request for an IP address that goes out on it. What the system answers
  is the record \<open>wire_env\<close>; the descriptors that are open, the addresses they are bound to, the bytes
  written and the messages are the record \<open>wire_world\<close>.
\<close>

section \<open>The raw socket\<close>

record sockaddr_ll =
  sll_ifindex :: int
  sll_protocol :: "byte list"
  sll_halen :: nat
  sll_addr :: "byte list"

record wire_env =
  we_socket :: "byte list \<Rightarrow> int"                  \<comment> \<open>\<open>socket\<close>, by protocol in network order\<close>
  we_ifindex :: "string \<Rightarrow> int option"            \<comment> \<open>\<open>SIOCGIFINDEX\<close>\<close>
  we_hwaddr :: "string \<Rightarrow> byte list option"       \<comment> \<open>\<open>SIOCGIFHWADDR\<close>\<close>
  we_bind :: "int \<Rightarrow> sockaddr_ll \<Rightarrow> bool"          \<comment> \<open>\<open>bind\<close> succeeds\<close>
  we_write :: "int \<Rightarrow> byte list \<Rightarrow> int"            \<comment> \<open>\<open>write\<close>\<close>
  we_junk :: string                              \<comment> \<open>17 characters of stack\<close>

datatype wire_message =
    CreationError string string  \<comment> \<open>device and source of the error\<close>
  | NonDefaultProtocol string    \<comment> \<open>the protocol in hexadecimal digits\<close>
  | WriteError

record wire_world =
  ww_open :: "int list"
  ww_bound :: "(int \<times> sockaddr_ll) list"
  ww_written :: "(int \<times> byte list) list"
  ww_log :: "wire_message list"

definition close_fd :: "int \<Rightarrow> wire_world \<Rightarrow> wire_world" where
  "close_fd fd ww = ww\<lparr>ww_open := remove1 fd (ww_open ww)\<rparr>"

definition say_wire :: "wire_message \<Rightarrow> wire_world \<Rightarrow> wire_world" where
  "say_wire m ww = ww\<lparr>ww_log := ww_log ww @ [m]\<rparr>"

text \<open>\<open>IFNAMSIZ\<close>: the size of \<open>ifr_name\<close>.\<close>

definition IFNAMSIZ :: nat where
  "IFNAMSIZ = 16"

text \<open>
  \<open>createSocket\<close> after \<open>socket\<close> succeeded, for a device: the descriptor and the source of the error. The
  name is cut to fifteen characters for the index and copied whole for the address. The text of the
  address is made as in \<open>Device::mac\<close> and read back with \<open>ether_aton\<close>.
\<close>

definition bind_device :: "wire_env \<Rightarrow> string \<Rightarrow> u16 \<Rightarrow> int \<Rightarrow> wire_world \<Rightarrow> (int \<times> string \<times> wire_world) result" where
  "bind_device env strDeviceName usProtocol nSocket ww =
     (case we_ifindex env (take (IFNAMSIZ - 1) (c_str strDeviceName)) of
        None \<Rightarrow> Inr (- 1, ''ioctl/ifindex'', close_fd nSocket ww)
      | Some ifr_ifindex \<Rightarrow>
          if length (c_str strDeviceName) + 1 > IFNAMSIZ then Inl OutOfBounds
          else
            (case we_hwaddr env (c_str strDeviceName) of
               None \<Rightarrow> Inr (- 1, ''ioctl/ifhwaddr'', close_fd nSocket ww)
             | Some sa_data \<Rightarrow>
                 (case ether_aton (device_mac (we_junk env) sa_data) of
                    None \<Rightarrow> Inl NullDeref
                  | Some eaSource \<Rightarrow>
                      let socket_address = \<lparr>sll_ifindex = ifr_ifindex, sll_protocol = be16 usProtocol,
                            sll_halen = 6, sll_addr = eaSource @ [0, 0]\<rparr>
                      in if we_bind env nSocket socket_address
                         then Inr (nSocket, ''socket'', ww\<lparr>ww_bound := ww_bound ww @ [(nSocket, socket_address)]\<rparr>)
                         else Inr (- 1, ''bind'', close_fd nSocket ww))))"

definition createSocket ::
  "wire_env \<Rightarrow> string \<Rightarrow> u16 \<Rightarrow> bool \<Rightarrow> wire_world \<Rightarrow> (int \<times> wire_world) result" where
  "createSocket env strDeviceName usProtocol bSilent ww =
     (let nSocket = we_socket env (be16 usProtocol);
          ww = (if nSocket > - 1 then ww\<lparr>ww_open := nSocket # ww_open ww\<rparr> else ww)
      in bind_r (if nSocket > - 1 \<and> strDeviceName \<noteq> [] then bind_device env strDeviceName usProtocol nSocket ww
                 else Inr (nSocket, ''socket'', ww)) (\<lambda>(nSocket, strErrorSource, ww).
           Inr (nSocket,
             if nSocket = - 1 \<and> \<not> bSilent then say_wire (CreationError strDeviceName strErrorSource) ww else ww)))"

record wire =
  wi_strDeviceName :: string
  wi_usProtocol :: u16
  wi_nSocket :: int
  wi_reading :: int

definition new_wire ::
  "wire_env \<Rightarrow> string \<Rightarrow> int \<Rightarrow> u16 \<Rightarrow> bool \<Rightarrow> wire_world \<Rightarrow> (wire \<times> wire_world) result" where
  "new_wire env strDeviceName nDefaultReadingLength usProtocol bSilent ww =
     bind_r (createSocket env strDeviceName usProtocol bSilent ww) (\<lambda>(nSocket, ww).
       Inr (\<lparr>wi_strDeviceName = strDeviceName, wi_usProtocol = usProtocol, wi_nSocket = nSocket,
             wi_reading = nDefaultReadingLength\<rparr>, ww))"

text \<open>A number on a stream in \<open>hex\<close>: no leading zeros.\<close>

fun hex_string :: "nat \<Rightarrow> string" where
  "hex_string n = (if n < 16 then [hex_digit n] else hex_string (n div 16) @ [hex_digit (n mod 16)])"

declare hex_string.simps [simp del]

definition write_as :: "wire_env \<Rightarrow> byte list \<Rightarrow> u16 \<Rightarrow> wire \<Rightarrow> wire_world \<Rightarrow> (bool \<times> wire_world) result" where
  "write_as env vdBuffer usProtocol wi ww =
     bind_r
       (if usProtocol \<noteq> wi_usProtocol wi then
          bind_r (createSocket env (wi_strDeviceName wi) usProtocol False ww) (\<lambda>(nSocket, ww).
            Inr (nSocket, say_wire (NonDefaultProtocol (hex_string (unat usProtocol))) ww))
        else Inr (wi_nSocket wi, ww)) (\<lambda>(nSocket, ww).
     let nWritten = we_write env nSocket vdBuffer;
         (bSuccess, ww) =
           (if nWritten = - 1 then (False, say_wire WriteError ww)
            else (True, ww\<lparr>ww_written := ww_written ww @ [(nSocket, take (nat nWritten) vdBuffer)]\<rparr>));
         ww = (if usProtocol \<noteq> wi_usProtocol wi then close_fd nSocket ww else ww)
     in Inr (bSuccess, ww))"

definition wire_write :: "wire_env \<Rightarrow> byte list \<Rightarrow> wire \<Rightarrow> wire_world \<Rightarrow> (bool \<times> wire_world) result" where
  "wire_write env vdBuffer wi ww = write_as env vdBuffer (wi_usProtocol wi) wi ww"

section \<open>RARP\<close>

text \<open>The fields in the order of the struct; numbers of 16 bits are stored in host order.\<close>

record RARPPacket =
  un16HardwareType :: u16
  un16ProtocolType :: u16
  un8HardwareAddressLength :: byte
  un8ProtocolAddressLength :: byte
  un16Opcode :: u16
  uc6SourceHWAddr :: "byte list"
  uc4SourceProtocolAddr :: "byte list"
  uc6DestinationHWAddr :: "byte list"
  uc4DestinationProtocolAddr :: "byte list"

definition rarp_bytes :: "RARPPacket \<Rightarrow> byte list" where
  "rarp_bytes rp =
     le16 (un16HardwareType rp) @ le16 (un16ProtocolType rp) @
     [un8HardwareAddressLength rp, un8ProtocolAddressLength rp] @ le16 (un16Opcode rp) @
     uc6SourceHWAddr rp @ uc4SourceProtocolAddr rp @ uc6DestinationHWAddr rp @ uc4DestinationProtocolAddr rp"

definition requestIP ::
  "net_env \<Rightarrow> wire_env \<Rightarrow> string \<Rightarrow> device \<Rightarrow> wire \<Rightarrow> wire_world \<Rightarrow> (device \<times> wire_world) result" where
  "requestIP nenv env strMAC dvDevice wi ww =
     (let (strDeviceMAC, dvDevice) = mac_of nenv dvDevice in
      case (ether_aton strDeviceMAC, ether_aton strMAC) of
        (Some eaSource, Some eaDestination) \<Rightarrow>
          let rpRequest = \<lparr>un16HardwareType = 0x0100, un16ProtocolType = 0x0008,
                un8HardwareAddressLength = 6, un8ProtocolAddressLength = 4, un16Opcode = 0x0300,
                uc6SourceHWAddr = eaSource, uc4SourceProtocolAddr = [0, 0, 0, 0],
                uc6DestinationHWAddr = eaDestination, uc4DestinationProtocolAddr = [0, 0, 0, 0]\<rparr>
          in bind_r (wrapInEthernetFrame strDeviceMAC ''ff:ff:ff:ff:ff:ff'' 0x0806 (rarp_bytes rpRequest)) (\<lambda>carrBuffer.
             bind_r (wire_write env carrBuffer wi ww) (\<lambda>(bSuccess, ww). Inr (dvDevice, ww)))
      | _ \<Rightarrow> Inl NullDeref)"

text \<open>Nothing is extracted yet.\<close>

definition ipFromResponse :: "RARPPacket \<Rightarrow> string" where
  "ipFromResponse rpResponse = []"


section \<open>Properties\<close>

definition wire_env_ok :: "wire_env \<Rightarrow> bool" where
  "wire_env_ok env \<longleftrightarrow> (\<forall>p. - 1 \<le> we_socket env p) \<and> length (we_junk env) = 17 \<and>
     (\<forall>d sa. we_hwaddr env d = Some sa \<longrightarrow> length sa = 14)"

lemma device_mac_read:
  assumes "length junk = 17" "6 \<le> length sa"
  shows "ether_aton (device_mac junk sa) = Some (take 6 sa)"
proof -
  have six: "length (take 6 sa) = 6" using assms(2) by simp
  from six_bytes [OF six] list17 [OF assms(1)] have "device_mac junk sa = network_mac (take 6 sa)"
    by (auto simp: device_mac_def network_mac_six)
  with ether_aton_network_mac [OF six] show ?thesis by simp
qed

text \<open>A socket that is created is the only new descriptor; one that could not be set up is closed again.\<close>

lemma bind_device_open:
  assumes "bind_device env dev p fd ww = Inr (fd', src, ww')" "fd > - 1" "ww_open ww = fd # fds"
  shows "if fd' = - 1 then ww_open ww' = fds \<and> ww_bound ww' = ww_bound ww
    else fd' = fd \<and> ww_open ww' = fd # fds \<and> (\<exists>sa. ww_bound ww' = ww_bound ww @ [(fd, sa)] \<and>
      we_ifindex env (c_str dev) = Some (sll_ifindex sa) \<and> sll_protocol sa = be16 p)"
  using assms
  by (auto simp: bind_device_def close_fd_def IFNAMSIZ_def Let_def split: option.splits if_splits)

lemma createSocket_open:
  assumes "createSocket env dev p silent ww = Inr (fd, ww')" "wire_env_ok env"
  shows "if fd = - 1 then ww_open ww' = ww_open ww else fd > - 1 \<and> ww_open ww' = fd # ww_open ww"
proof (cases "we_socket env (be16 p) > - 1 \<and> dev \<noteq> []")
  case True
  let ?ww = "ww\<lparr>ww_open := we_socket env (be16 p) # ww_open ww\<rparr>"
  from assms(1) True obtain src ww1 where
      b: "bind_device env dev p (we_socket env (be16 p)) ?ww = Inr (fd, src, ww1)"
      and w: "ww_open ww' = ww_open ww1"
    by (auto simp: createSocket_def Let_def bind_r_Inr_iff say_wire_def split: if_splits)
  have "ww_open ?ww = we_socket env (be16 p) # ww_open ww" by simp
  from bind_device_open [OF b _ this] True w show ?thesis by (auto split: if_splits)
next
  case False
  have "we_socket env (be16 p) \<ge> - 1" using assms(2) by (simp add: wire_env_ok_def)
  with assms(1) False show ?thesis
    by (auto simp: createSocket_def Let_def say_wire_def split: if_splits)
qed

text \<open>C37: writing, also with another protocol, for which a socket of its own is created, leaves no descriptor
  open and closes none that was open before; it succeeds exactly when the system took bytes.\<close>

theorem wire_no_leak:
  assumes "write_as env buf p wi ww = Inr (b, ww')" "wire_env_ok env" "- 1 \<notin> set (ww_open ww)"
  shows "ww_open ww' = ww_open ww \<and> (b \<longleftrightarrow> ww_written ww' \<noteq> ww_written ww)"
proof (cases "p = wi_usProtocol wi")
  case True
  with assms(1) show ?thesis by (auto simp: write_as_def say_wire_def Let_def split: if_splits)
next
  case False
  with assms(1) obtain fd ww1 where c: "createSocket env (wi_strDeviceName wi) p False ww = Inr (fd, ww1)"
    and w: "ww_open ww' = remove1 fd (ww_open ww1)"
    and b: "b \<longleftrightarrow> ww_written ww' \<noteq> ww_written ww1"
    by (auto simp: write_as_def bind_r_Inr_iff say_wire_def close_fd_def Let_def split: if_splits)
  have "ww_written ww1 = ww_written ww"
    using c by (auto simp: createSocket_def bind_device_def bind_r_Inr_iff say_wire_def close_fd_def Let_def
        split: if_splits option.splits)
  moreover have "ww_open ww' = ww_open ww"
    using createSocket_open [OF c assms(2)] w assms(3) by (auto split: if_splits simp: remove1_idem)
  ultimately show ?thesis using b by simp
qed

definition sample_wire_env :: wire_env where
  "sample_wire_env = \<lparr>we_socket = (\<lambda>p. 5), we_ifindex = (\<lambda>d. if d = ''eth0'' then Some 2 else None),
     we_hwaddr = (\<lambda>d. Some [0, 1, 2, 3, 4, 5, 0, 0, 0, 0, 0, 0, 0, 0]), we_bind = (\<lambda>fd sa. True),
     we_write = (\<lambda>fd bs. int (length bs)), we_junk = replicate 17 CHR ''?''\<rparr>"

definition sample_world :: wire_world where
  "sample_world = \<lparr>ww_open = [4], ww_bound = [], ww_written = [], ww_log = []\<rparr>"

definition sample_wire :: wire where
  "sample_wire = \<lparr>wi_strDeviceName = ''eth0'', wi_usProtocol = 3, wi_nSocket = 4, wi_reading = 1514\<rparr>"

lemma sample_wire_env_ok [simp]: "wire_env_ok sample_wire_env"
  by (simp add: wire_env_ok_def sample_wire_env_def)

lemma eth0_plain [simp]: "c_str ''eth0'' = ''eth0''" "take 15 ''eth0'' = ''eth0''"
  by (simp_all add: c_str_def)

theorem wire_no_leak_witness:
  "\<exists>b ww'. write_as sample_wire_env [1, 2] 2054 sample_wire sample_world = Inr (b, ww') \<and> ww_open ww' = [4]"
proof -
  have "\<exists>ww'. write_as sample_wire_env [1, 2] 2054 sample_wire sample_world = Inr (True, ww')"
    using device_mac_read [of "replicate 17 CHR ''?''" "[0, 1, 2, 3, 4, 5, 0, 0, 0, 0, 0, 0, 0, 0]"]
    by (simp add: write_as_def createSocket_def bind_device_def sample_wire_env_def sample_wire_def
        IFNAMSIZ_def Let_def)
  then obtain b ww' where w: "write_as sample_wire_env [1, 2] 2054 sample_wire sample_world = Inr (b, ww')"
    by blast
  from wire_no_leak [OF w sample_wire_env_ok] w show ?thesis by (simp add: sample_world_def)
qed

text \<open>A device name of sixteen characters or more whose first fifteen name an interface is written past the
  end of \<open>ifr_name\<close>: the cut that protects the first request is missing for the second.\<close>

theorem long_name_overruns:
  assumes "we_socket env (be16 p) > - 1" "IFNAMSIZ \<le> length (c_str dev)"
    and "we_ifindex env (take (IFNAMSIZ - 1) (c_str dev)) \<noteq> None"
  shows "createSocket env dev p silent ww = Inl OutOfBounds"
proof -
  have "dev \<noteq> []" using assms(2) by (auto simp: c_str_def IFNAMSIZ_def)
  with assms show ?thesis by (auto simp: createSocket_def bind_device_def Let_def)
qed

theorem long_name_overruns_witness:
  "createSocket (sample_wire_env\<lparr>we_ifindex := \<lambda>d. Some 1\<rparr>) (replicate 16 CHR ''a'') 3 False sample_world =
     Inl OutOfBounds"
  by (rule long_name_overruns) (simp_all add: sample_wire_env_def IFNAMSIZ_def c_str_def takeWhile_replicate)

text \<open>The request for the IP address of a device is a broadcast frame of 42 bytes from the address of the
  asking device, whose type is that of ARP.\<close>

theorem requestIP_frame:
  assumes "env_ok nenv" "m_strMAC dv = []" "ether_aton mac = Some dst" "length dst = 6"
    and "wire_write env ([255, 255, 255, 255, 255, 255] @ hwaddr nenv (m_strDeviceName dv) @ [8, 6] @
        [0, 1, 8, 0, 6, 4, 0, 3] @ hwaddr nenv (m_strDeviceName dv) @ [0, 0, 0, 0] @ dst @ [0, 0, 0, 0]) wi ww =
      Inr (b, ww')"
  shows "\<exists>dv'. requestIP nenv env mac dv wi ww = Inr (dv', ww')"
proof -
  let ?hw = "hwaddr nenv (m_strDeviceName dv)"
  have hw: "length ?hw = 6" "length (format_junk nenv) = 17" using assms(1) by (simp_all add: env_ok_def)
  then have m: "ether_aton (device_mac (format_junk nenv) ?hw) = Some ?hw"
    using device_mac_read [of "format_junk nenv" ?hw] by simp
  have bc: "ether_aton ''ff:ff:ff:ff:ff:ff'' = Some [255, 255, 255, 255, 255, 255]"
    by (simp add: ether_aton_def numeral_eq_Suc hex_value_def Let_def)
  have w: "(2054 :: byte) = 6" "(256 :: byte) = 0" "(768 :: byte) = 0" by simp_all
  show ?thesis using assms(2,3,5) m bc
    by (simp add: w requestIP_def mac_of_def wrapInEthernetFrame_def rarp_bytes_def le16_def be16_def Let_def)
qed


text \<open>The test of the privileges creates a wire without a device. No destructor closes its socket.\<close>

definition privilegesSuffice :: "wire_env \<Rightarrow> wire_world \<Rightarrow> (bool \<times> wire_world) result" where
  "privilegesSuffice env ww =
     bind_r (new_wire env [] (int ETH_FRAME_LEN) 3 True ww) (\<lambda>(wrTest, ww). Inr (wi_nSocket wrTest > - 1, ww))"

text \<open>The test answers yes exactly when a raw socket was created, writes no message, and leaves that socket open.\<close>

theorem privileges_leak:
  assumes "wire_env_ok env"
  shows "\<exists>b ww'. privilegesSuffice env ww = Inr (b, ww') \<and> ww_log ww' = ww_log ww \<and>
    ww_open ww' = (if b then [we_socket env (be16 3)] else []) @ ww_open ww"
  using assms by (auto simp: privilegesSuffice_def new_wire_def createSocket_def Let_def)

end
