(* ===== verification/Spec2Isabelle.thy ===== *)
theory Spec2Isabelle
  imports Network_Props Server_Props Tracking Interrupts Descriptors Sharing Precision Python Wires
begin

text \<open>
  macdetect: a daemon that observes the network interfaces of a machine, records which MAC addresses it
  sees on them, and tells its clients over TCP; a client library, a multicast service to find daemons,
  and an extension module for Python.

  \<^bold>\<open>The parts and how they interact.\<close> \<open>main\<close> (\<open>macdetectd/src/daemon.cpp\<close>) reads the command line and a
  configuration file and calls \<open>Daemon::cycle\<close> until a signal stops it. A cycle of the daemon
  (\<open>Daemon.cpp\<close>) runs a cycle of the network (\<open>Network.cpp\<close>: maintain and detect devices, read frames,
  look up names, expire addresses, ping), which schedules events; then a cycle of the server
  (\<open>Server.cpp\<close>: accept clients, receive their packets, drop those that failed); it answers the queued
  requests, turns the events into packets for the clients that asked for them, and sends keepalive
  packets. Packets are trees of keys and contents (\<open>Value.cpp\<close>) that \<open>PacketEntity.cpp\<close> sends and
  receives. \<open>Client.cpp\<close>, \<open>MDClient.cpp\<close> and \<open>DiscoveryClient.cpp\<close> are the other side, and
  \<open>PyMACDetect.cpp\<close> gives them to Python.

  \<^bold>\<open>The theories.\<close>
  \<^item> \<^verbatim>\<open>Prelude\<close>: faults and results, loops, \<open>std::map\<close>, strings; the locales for loops that keep an
    invariant and for maps.
  \<^item> \<^verbatim>\<open>Values\<close>: \<open>utils/src/Value.cpp\<close>; the tree and its binary form, a locale of codecs with its
    instances. \<^verbatim>\<open>Packet\<close>: \<open>PacketEntity.cpp\<close>, \<open>SocketReader.cpp\<close>, \<open>Served.cpp\<close>; sending and receiving
    over a stream of bytes.
  \<^item> \<^verbatim>\<open>Numbers\<close>: numbers as text. \<^verbatim>\<open>Config\<close>: \<open>Config.cpp\<close>. \<^verbatim>\<open>Arguments\<close>: \<open>ArgumentParser.cpp\<close>.
  \<^item> \<^verbatim>\<open>Frames\<close>, \<^verbatim>\<open>Devices\<close>, \<^verbatim>\<open>Wires\<close>: \<open>Device.cpp\<close>, \<open>Wire.cpp\<close>, \<open>RARP.cpp\<close>; frames and checksums byte by
    byte, an interface, its raw socket. \<^verbatim>\<open>Vendors\<close>: \<open>Data.cpp\<close>. \<^verbatim>\<open>Events\<close>: \<open>Event.cpp\<close>.
  \<^item> \<^verbatim>\<open>Network\<close>, \<^verbatim>\<open>Network_Cycle\<close>: \<open>Network.cpp\<close>, one definition per operation and per loop of the cycle.
    \<^verbatim>\<open>Network_Laws\<close>, \<^verbatim>\<open>Network_Manage\<close>: what each of them changes, the invariant, the abstract view (device
    names and addresses) that the events explain. \<^verbatim>\<open>Network_Props\<close>: the results about the whole cycle.
  \<^item> \<^verbatim>\<open>Server\<close>, \<^verbatim>\<open>Server_Props\<close>: \<open>Server.cpp\<close>; servings, clients, the queue.
  \<^item> \<^verbatim>\<open>Discovery\<close>: \<open>DiscoveryNode.cpp\<close>, \<open>DiscoveryServer.cpp\<close>, \<open>MulticastEndpoint.cpp\<close>.
  \<^item> \<^verbatim>\<open>Daemon\<close>, \<^verbatim>\<open>Daemon_Props\<close>, \<^verbatim>\<open>Announcements\<close>, \<^verbatim>\<open>Daemon_Cycle\<close>: \<open>Daemon.cpp\<close>; requests, streams, events,
    the cycle as a whole, its step relation. \<^verbatim>\<open>Tracking\<close>: clients that apply what they receive over many
    cycles, a locale with an instance for devices and one for addresses.
  \<^item> \<^verbatim>\<open>Startup\<close>: \<open>daemon.cpp\<close>, \<open>Globals.cpp\<close>; the start, the configuration files, the main loop, signals.
    \<^verbatim>\<open>Interrupts\<close>: signals that arrive in the middle of a cycle, and when the main loop ends.
  \<^item> \<^verbatim>\<open>Descriptors\<close>: which sockets the server has open and who closes them, with the destructors of
    \<open>PacketEntity.cpp\<close>, \<open>Server.cpp\<close> and \<open>Network.cpp\<close>. \<^verbatim>\<open>Sharing\<close>: \<open>send\<close> and \<open>receive\<close> of one
    \<open>PacketEntity\<close> called by several threads, with its mutex. \<^verbatim>\<open>Precision\<close>: what the texts of the times of
    an address tell about the times.
  \<^item> \<^verbatim>\<open>Client\<close>: \<open>Client.cpp\<close>, \<open>MDClient.cpp\<close>, \<open>DiscoveryClient.cpp\<close>. \<^verbatim>\<open>Python\<close>: \<open>PyMACDetect.cpp\<close>. This
    theory: a Python program and the daemon together.

  \<^bold>\<open>How the code is represented.\<close> An object is a record with the names of its members, an operation a
  function from the old state to the result and the new one. What the C++ code does outside its defined
  behaviour (an access out of bounds, a null or dangling pointer, an exception nobody catches, an
  uninitialised variable) is a fault, and an operation that can meet one returns a sum. Objects that
  are shared and compared by pointer (the clients of the server, those handed to Python) are numbers
  with their state in a heap. Lengths and checksums are words of their width; times are real numbers
  where the code has \<open>double\<close>. The operating system (descriptors, frames, addresses, clocks, host names,
  \<open>std::regex\<close>) is a record of answers; one is taken for each cycle. What is sent is recorded in the
  state, because nothing the daemon does depends on the result of a send; what one call puts on the
  wire is \<open>send_packet\<close>.

  \<^bold>\<open>What the lemmas show.\<close> The binary form and the text forms are read back as they were written. The
  stream delivers packets one by one and in order. The network keeps its invariant, does not fault, and
  its events, replayed, give its state; the daemon keeps its own invariant, its cycle does not fault
  when clients send requests, each request is answered once and in order, and a client that asked once
  and applies its packets knows the devices, and with a stream the addresses, that the daemon knows. The main loop
  does not end before a signal arrives, and ends when one arrives, at whatever moment, and the clients sent
  complete requests. The table of open descriptors is always the descriptors in use and the sockets that could
  not be bound; each client is closed once, unless the daemon ends, which closes it twice. Threads that share
  a connection send whole packets and receive each packet once. The theorems about faults state what goes wrong for which
  inputs: packets that are cut off or no requests, long names, deleted clients, messages with several
  sub values that are sent from Python.

  \<^bold>\<open>Bounds and loops.\<close> All loops are terminating functions, except the main loop of the daemon and the
  blocking \<open>receive\<close> of a client, which may run forever; these are partial functions with the value
  \<open>None\<close> when they do not return, and that they return is proved where it holds. Received packets are
  below \<open>2 ^ 31\<close> bytes, the width of the code's counters; the theorems state this bound.

  \<^bold>\<open>Not modelled.\<close> Calls of \<open>connect\<close> and \<open>disconnect\<close> by one thread while another sends, reference counts of
  Python objects, the messages that \<open>log\<close> formats outside \<open>main\<close> and \<open>Wire\<close>, rounding in the arithmetic on
  floating point numbers, getters that only return a member, empty destructors, the command line client
  \<open>cli.cpp\<close>, whose body is commented out, and the programs written in Python.
\<close>

section \<open>A Python program and the daemon\<close>



end
